(* ===== verification/Prelude.thy ===== *)
theory Prelude
  imports Main "HOL-Library.AList" "HOL-Library.Multiset" "HOL-Library.Sublist"
begin

text \<open>
  The vocabulary every component shares: text (a \<open>string\<close> is the UTF-8 encoding of the
  program's string, one \<open>char\<close> per byte), whitespace trimming as JavaScript and Go do it,
  decimal numerals, splitting and joining, JavaScript's array operations, and the
  contract of a comparator handed to \<open>Array.prototype.sort\<close>.
\<close>

named_theorems text_defs \<open>definitions of the text operations, for evaluation\<close>

section \<open>Trimming\<close>

text \<open>
  The encodings of the white space that \<open>String.prototype.trim\<close> removes (ECMAScript's
  WhiteSpace and LineTerminator) and of the runes for which Go's \<open>unicode.IsSpace\<close> holds.
  They differ in U+FEFF (JavaScript only) and U+0085 (Go only).
\<close>

definition shared_spaces :: "string list" where
  "shared_spaces =
     [[CHR 0x09], [CHR 0x0A], [CHR 0x0B], [CHR 0x0C], [CHR 0x0D], [CHR 0x20],
      [CHR 0xC2, CHR 0xA0], [CHR 0xE1, CHR 0x9A, CHR 0x80],
      [CHR 0xE2, CHR 0x80, CHR 0x80], [CHR 0xE2, CHR 0x80, CHR 0x81],
      [CHR 0xE2, CHR 0x80, CHR 0x82], [CHR 0xE2, CHR 0x80, CHR 0x83],
      [CHR 0xE2, CHR 0x80, CHR 0x84], [CHR 0xE2, CHR 0x80, CHR 0x85],
      [CHR 0xE2, CHR 0x80, CHR 0x86], [CHR 0xE2, CHR 0x80, CHR 0x87],
      [CHR 0xE2, CHR 0x80, CHR 0x88], [CHR 0xE2, CHR 0x80, CHR 0x89],
      [CHR 0xE2, CHR 0x80, CHR 0x8A], [CHR 0xE2, CHR 0x80, CHR 0xA8],
      [CHR 0xE2, CHR 0x80, CHR 0xA9], [CHR 0xE2, CHR 0x80, CHR 0xAF],
      [CHR 0xE2, CHR 0x81, CHR 0x9F], [CHR 0xE3, CHR 0x80, CHR 0x80]]"

definition js_spaces :: "string list" where
  "js_spaces = shared_spaces @ [[CHR 0xEF, CHR 0xBB, CHR 0xBF]]"

definition go_spaces :: "string list" where
  "go_spaces = shared_spaces @ [[CHR 0xC2, CHR 0x85]]"

lemma find_prefix_shorter:
  "find (\<lambda>w. w \<noteq> [] \<and> prefix w s) ws = Some w \<Longrightarrow> length (drop (length w) s) < length s"
  by (auto simp: find_Some_iff prefix_def)

function strip_front :: "string list \<Rightarrow> string \<Rightarrow> string" where
  "strip_front ws s =
     (case find (\<lambda>w. w \<noteq> [] \<and> prefix w s) ws of
        None \<Rightarrow> s
      | Some w \<Rightarrow> strip_front ws (drop (length w) s))"
  by pat_completeness auto
termination
  by (relation "measure (\<lambda>(ws, s). length s)") (auto dest: find_prefix_shorter)

declare strip_front.simps [simp del]

definition strip_back :: "string list \<Rightarrow> string \<Rightarrow> string" where
  "strip_back ws s = rev (strip_front (map rev ws) (rev s))"

definition trim_with :: "string list \<Rightarrow> string \<Rightarrow> string" where
  "trim_with ws s = strip_back ws (strip_front ws s)"

abbreviation js_trim :: "string \<Rightarrow> string" where
  "js_trim \<equiv> trim_with js_spaces"

abbreviation go_trim :: "string \<Rightarrow> string" where
  "go_trim \<equiv> trim_with go_spaces"

lemmas [text_defs] = trim_with_def strip_back_def js_spaces_def go_spaces_def shared_spaces_def

text \<open>A string with no white space at its front is what stripping leaves, and stripping leaves
  a suffix of its input.\<close>

definition bare_front :: "string list \<Rightarrow> string \<Rightarrow> bool" where
  "bare_front ws s \<longleftrightarrow> find (\<lambda>w. w \<noteq> [] \<and> prefix w s) ws = None"

lemma bare_front_iff: "bare_front ws s \<longleftrightarrow> (\<forall>w \<in> set ws. w \<noteq> [] \<longrightarrow> \<not> prefix w s)"
  by (auto simp: bare_front_def find_None_iff)

lemma strip_front_bare [simp]: "bare_front ws s \<Longrightarrow> strip_front ws s = s"
  by (subst strip_front.simps) (simp add: bare_front_def)

lemma bare_front_strip_front [simp]: "bare_front ws (strip_front ws s)"
proof (induction ws s rule: strip_front.induct)
  case (1 ws s)
  show ?case
    by (subst strip_front.simps) (auto simp: bare_front_def "1.IH"[unfolded bare_front_def]
        split: option.splits)
qed

lemma suffix_strip_front: "suffix (strip_front ws s) s"
proof (induction ws s rule: strip_front.induct)
  case (1 ws s)
  show ?case
    by (subst strip_front.simps)
      (auto split: option.splits intro: suffix_order.trans[OF "1.IH"] suffix_drop)
qed

lemma bare_front_prefix: "bare_front ws s \<Longrightarrow> prefix t s \<Longrightarrow> bare_front ws t"
  by (auto simp: bare_front_iff dest: prefix_order.trans)

lemma prefix_strip_back: "prefix (strip_back ws s) s"
  using suffix_strip_front[of "map rev ws" "rev s"]
  by (simp add: strip_back_def suffix_to_prefix)

lemma trim_bare: "bare_front ws (trim_with ws s)"
  unfolding trim_with_def by (rule bare_front_prefix[OF bare_front_strip_front prefix_strip_back])

lemma trim_idem [simp]: "trim_with ws (trim_with ws s) = trim_with ws s"
  using trim_bare[of ws s] by (simp add: trim_with_def strip_back_def)

lemma trim_empty [simp]: "trim_with ws [] = []"
proof -
  have "strip_front vs [] = []" for vs
    using suffix_strip_front[of vs "[]"] by simp
  then show ?thesis by (simp add: trim_with_def strip_back_def)
qed

section \<open>Decimal numerals\<close>

lemma of_char_bound: "(of_char c :: nat) < 256"
  by (metis mod_less_divisor of_char_mod_256 zero_less_numeral)

definition is_digit :: "char \<Rightarrow> bool" where
  "is_digit c \<longleftrightarrow> 48 \<le> (of_char c :: nat) \<and> (of_char c :: nat) \<le> 57"

definition digit_val :: "char \<Rightarrow> nat" where
  "digit_val c = of_char c - 48"

definition digit_char :: "nat \<Rightarrow> char" where
  "digit_char n = char_of (48 + n)"

fun dec_nat :: "nat \<Rightarrow> string" where
  "dec_nat n = (if n < 10 then [digit_char n] else dec_nat (n div 10) @ [digit_char (n mod 10)])"

declare dec_nat.simps [simp del]

text \<open>\<open>String(i)\<close> in JavaScript and \<open>strconv.Itoa(i)\<close> in Go, on integers.\<close>

definition dec :: "int \<Rightarrow> string" where
  "dec i = (if i < 0 then CHR ''-'' # dec_nat (nat (- i)) else dec_nat (nat i))"

definition undec :: "string \<Rightarrow> nat" where
  "undec = foldl (\<lambda>a c. 10 * a + digit_val c) 0"

lemma digit_char_props [simp]:
  "n < 10 \<Longrightarrow> is_digit (digit_char n)"
  "n < 10 \<Longrightarrow> digit_val (digit_char n) = n"
  by (simp_all add: is_digit_def digit_val_def digit_char_def)

lemma undec_snoc: "undec (s @ [c]) = 10 * undec s + digit_val c"
  by (simp add: undec_def)

lemma undec_dec_nat [simp]: "undec (dec_nat n) = n"
proof (induction n rule: dec_nat.induct)
  case (1 n)
  then show ?case
    by (subst dec_nat.simps) (simp add: undec_snoc, simp add: undec_def)
qed

lemma dec_nat_digits [simp]: "list_all is_digit (dec_nat n)"
proof (induction n rule: dec_nat.induct)
  case (1 n)
  then show ?case by (subst dec_nat.simps) simp
qed

lemma dec_nat_not_Nil [simp]: "dec_nat n \<noteq> []"
  by (subst dec_nat.simps) simp

lemma dec_not_Nil [simp]: "dec i \<noteq> []"
  by (simp add: dec_def)

text \<open>An optional sign, as \<open>parseInt\<close> and \<open>strconv.Atoi\<close> read it.\<close>

definition split_sign :: "string \<Rightarrow> bool \<times> string" where
  "split_sign s =
     (case s of
        [] \<Rightarrow> (False, [])
      | c # cs \<Rightarrow>
          if c = CHR ''-'' then (True, cs) else if c = CHR ''+'' then (False, cs) else (False, s))"

definition signed :: "bool \<Rightarrow> nat \<Rightarrow> int" where
  "signed neg n = (if neg then - int n else int n)"

text \<open>\<open>parseInt(s, 10)\<close>: \<open>None\<close> is NaN. Magnitudes past \<open>2 ^ 53\<close>, which JavaScript rounds,
  are kept exact.\<close>

definition parseInt :: "string \<Rightarrow> int option" where
  "parseInt s =
     (let (neg, u) = split_sign (strip_front js_spaces s); ds = takeWhile is_digit u
      in if ds = [] then None else Some (signed neg (undec ds)))"

text \<open>\<open>strconv.Atoi\<close>: the whole string is an optional sign and digits, and fits 64 bits.\<close>

definition atoi :: "string \<Rightarrow> int option" where
  "atoi s =
     (let (neg, ds) = split_sign s; v = signed neg (undec ds)
      in if ds = [] \<or> \<not> list_all is_digit ds \<or> v < - (2 ^ 63) \<or> 2 ^ 63 \<le> v then None else Some v)"

lemma is_digit_not_sign: "is_digit c \<Longrightarrow> c \<noteq> CHR ''-'' \<and> c \<noteq> CHR ''+''"
  by (auto simp: is_digit_def)

lemma split_sign_dec: "split_sign (dec i) = (i < 0, dec_nat (nat \<bar>i\<bar>))"
proof -
  obtain c cs where c: "dec_nat (nat \<bar>i\<bar>) = c # cs"
    using dec_nat_not_Nil by (meson neq_Nil_conv)
  then have "is_digit c" using dec_nat_digits[of "nat \<bar>i\<bar>"] by simp
  then show ?thesis
    using c by (auto simp: split_sign_def dec_def dest: is_digit_not_sign)
qed

lemma signed_abs [simp]: "signed (i < 0) (nat \<bar>i\<bar>) = i"
  by (simp add: signed_def)

lemma atoi_dec [simp]: "- (2 ^ 63) \<le> i \<Longrightarrow> i < 2 ^ 63 \<Longrightarrow> atoi (dec i) = Some i"
  by (simp add: atoi_def split_sign_dec Let_def)

text \<open>The first byte of a numeral is a digit or a sign, so no white space is stripped from it;
  likewise its last byte is a digit.\<close>

lemma space_heads:
  "w \<in> set (js_spaces @ go_spaces) \<Longrightarrow> w \<noteq> [] \<and> \<not> is_digit (hd w) \<and> hd w \<noteq> CHR ''-'' \<and> \<not> is_digit (last w)"
  by (auto simp: js_spaces_def go_spaces_def shared_spaces_def is_digit_def)

lemma dec_ends: "(is_digit (hd (dec i)) \<or> hd (dec i) = CHR ''-'') \<and> is_digit (last (dec i))"
proof -
  have "is_digit (hd (dec_nat n))" "is_digit (last (dec_nat n))" for n
    using dec_nat_digits[of n] dec_nat_not_Nil[of n] by (auto simp: list_all_iff)
  then show ?thesis by (auto simp: dec_def)
qed

lemma bare_front_dec:
  assumes "set ws \<subseteq> set (js_spaces @ go_spaces)"
  shows "bare_front ws (dec i)" and "bare_front (map rev ws) (rev (dec i))"
proof -
  have hds: "hd w = hd (dec i)" if "w \<noteq> []" "prefix w (dec i)" for w
    using that by (cases w) (auto simp: prefix_def)
  have lasts: "last w = last (dec i)" if "w \<noteq> []" "prefix (rev w) (rev (dec i))" for w
    using that by (metis hd_append2 hd_rev prefix_def rev_is_Nil_conv)
  have "\<not> prefix w (dec i) \<and> \<not> prefix (rev w) (rev (dec i))" if "w \<in> set ws" for w
  proof -
    from that assms have "w \<in> set (js_spaces @ go_spaces)" by blast
    note w = space_heads[OF this]
    then have "hd w \<noteq> hd (dec i)" "last w \<noteq> last (dec i)" using dec_ends[of i] by metis+
    with w hds lasts show ?thesis by blast
  qed
  then show "bare_front ws (dec i)" and "bare_front (map rev ws) (rev (dec i))"
    by (simp_all add: bare_front_iff)
qed

lemma trim_dec [simp]: "js_trim (dec i) = dec i" "go_trim (dec i) = dec i"
  by (simp_all add: trim_with_def strip_back_def bare_front_dec)

lemma parseInt_dec [simp]: "parseInt (dec i) = Some i"
proof -
  have "takeWhile is_digit (dec_nat n) = dec_nat n" for n
    using dec_nat_digits[of n] by (metis list_all_iff takeWhile_eq_all_conv)
  moreover have "strip_front js_spaces (dec i) = dec i"
    by (simp add: bare_front_dec)
  ultimately show ?thesis
    by (simp add: parseInt_def split_sign_dec Let_def del: takeWhile_eq_all_conv)
qed

section \<open>Sorting\<close>

text \<open>A sort by distinct keys does not depend on the order of its input.\<close>

lemma filter_one:
  assumes "inj_on f (set xs)" "x \<in> set xs"
  shows "filter (\<lambda>y. f x = f y) xs = replicate (count (mset xs) x) x"
proof -
  have "filter (\<lambda>y. f x = f y) xs = filter ((=) x) xs"
    using assms by (intro filter_cong) (auto dest: inj_onD)
  moreover have "filter ((=) x) xs = replicate (count (mset xs) x) x"
    by (induction xs) auto
  ultimately show ?thesis by simp
qed

lemma sort_key_unique:
  assumes "inj_on f (set xs)" "mset xs = mset ys"
  shows "sort_key f xs = sort_key f ys"
proof (rule properties_for_sort_key)
  show "mset (sort_key f ys) = mset xs" using assms(2) by simp
  have sets: "set ys = set xs" using assms(2) by (metis set_mset_mset)
  show "filter (\<lambda>y. f k = f y) (sort_key f ys) = filter (\<lambda>y. f k = f y) xs" if "k \<in> set (sort_key f ys)" for k
    using that assms sets filter_one[of f xs k] filter_one[of f "sort_key f ys" k] by simp
qed simp

lemma insort_key_cong:
  "(\<And>y. y \<in> set ys \<Longrightarrow> (f x \<le> f y) = (g x \<le> g y)) \<Longrightarrow> insort_key f x ys = insort_key g x ys"
  by (induction ys) auto

text \<open>Sorted parts may be sorted before they are put together.\<close>

lemma sort_concat_sorted: "sort_key f (concat (map (sort_key f) xss)) = sort_key f (concat xss)"
proof (rule properties_for_sort_key)
  show "mset (sort_key f (concat xss)) = mset (concat (map (sort_key f) xss))"
    by (simp add: mset_concat comp_def)
  show "filter (\<lambda>x. f k = f x) (sort_key f (concat xss)) = filter (\<lambda>x. f k = f x) (concat (map (sort_key f) xss))" for k
    using sort_key_stable[of f "f k"] by (simp add: filter_concat comp_def eq_commute[of "f k"])
qed simp

lemma list_all2_insort:
  assumes "list_all2 R xs ys" "R x y" "\<And>a b. R a b \<Longrightarrow> f a = g b"
  shows "list_all2 R (insort_key f x xs) (insort_key g y ys)"
  using assms(1,2)
proof (induction xs ys rule: list_all2_induct)
  case (Cons a xs b ys)
  have "f x = g y" "f a = g b" using Cons.prems Cons.hyps assms(3) by auto
  with Cons show ?case by simp
qed simp

lemma list_all2_sort:
  assumes "list_all2 R xs ys" "\<And>a b. R a b \<Longrightarrow> f a = g b"
  shows "list_all2 R (sort_key f xs) (sort_key g ys)"
  using assms(1)
  by (induction xs ys rule: list_all2_induct) (auto intro: list_all2_insort[OF _ _ assms(2)])

section \<open>Invariants of updates and loops\<close>

lemma ball_update: "\<forall>x \<in> set m. P x \<Longrightarrow> P (k, v) \<Longrightarrow> \<forall>x \<in> set (AList.update k v m). P x"
  by (induction m) auto

lemma fold_inv: "P s \<Longrightarrow> (\<And>x s. x \<in> set xs \<Longrightarrow> P s \<Longrightarrow> P (f x s)) \<Longrightarrow> P (fold f xs s)"
  by (induction xs arbitrary: s) simp_all

end
