(* ===== verification/Url_Form.thy ===== *)
theory Url_Form
  imports Prelude
begin

text \<open>
  The query string between the browser and the server: \<open>URLSearchParams\<close> builds and
  serializes it (the WHATWG application/x-www-form-urlencoded serializer), Go's
  \<open>url.ParseQuery\<close>, behind \<open>r.URL.Query()\<close>, reads it back. Both work on UTF-8 bytes.
  What the server reads is what the browser put in: \<open>parse_query_serialize\<close>.
\<close>

section \<open>Splitting and joining\<close>

fun split_on :: "char \<Rightarrow> string \<Rightarrow> string list" where
  "split_on c [] = [[]]"
| "split_on c (x # xs) =
     (if x = c then [] # split_on c xs
      else (case split_on c xs of [] \<Rightarrow> [[x]] | y # ys \<Rightarrow> (x # y) # ys))"

fun join :: "string \<Rightarrow> string list \<Rightarrow> string" where
  "join sep [] = []"
| "join sep [s] = s"
| "join sep (s # t # ss) = s @ sep @ join sep (t # ss)"

lemma split_on_free: "c \<notin> set s \<Longrightarrow> split_on c s = [s]"
  by (induction s) auto

lemma split_on_append: "c \<notin> set s \<Longrightarrow> split_on c (s @ c # t) = s # split_on c t"
  by (induction s) auto

lemma split_on_join:
  "ss \<noteq> [] \<Longrightarrow> \<forall>s \<in> set ss. c \<notin> set s \<Longrightarrow> split_on c (join [c] ss) = ss"
  by (induction "[c]" ss rule: join.induct) (auto simp: split_on_free split_on_append)

section \<open>URLSearchParams\<close>

type_synonym params = "(string \<times> string) list"

definition usp_append :: "string \<Rightarrow> string \<Rightarrow> params \<Rightarrow> params" where
  "usp_append k v ps = ps @ [(k, v)]"

text \<open>\<open>set\<close> overwrites the first pair of that name and drops its other pairs.\<close>

fun usp_set :: "string \<Rightarrow> string \<Rightarrow> params \<Rightarrow> params" where
  "usp_set k v [] = [(k, v)]"
| "usp_set k v ((k', v') # ps) =
     (if k' = k then (k, v) # [p \<leftarrow> ps. fst p \<noteq> k] else (k', v') # usp_set k v ps)"

definition hex_char :: "nat \<Rightarrow> char" where
  "hex_char n = (if n < 10 then char_of (48 + n) else char_of (55 + n))"

definition form_safe :: "char \<Rightarrow> bool" where
  "form_safe c \<longleftrightarrow>
     (let n = (of_char c :: nat)
      in 48 \<le> n \<and> n \<le> 57 \<or> 65 \<le> n \<and> n \<le> 90 \<or> 97 \<le> n \<and> n \<le> 122
         \<or> c \<in> {CHR ''*'', CHR ''-'', CHR ''.'', CHR ''_''})"

definition encode_byte :: "char \<Rightarrow> string" where
  "encode_byte c =
     (if c = CHR '' '' then ''+''
      else if form_safe c then [c]
      else [CHR 0x25, hex_char (of_char c div 16), hex_char (of_char c mod 16)])"

definition form_encode :: "string \<Rightarrow> string" where
  "form_encode s = concat (map encode_byte s)"

definition encode_pair :: "string \<times> string \<Rightarrow> string" where
  "encode_pair p = form_encode (fst p) @ ''='' @ form_encode (snd p)"

definition serialize :: "params \<Rightarrow> string" where
  "serialize ps = join ''&'' (map encode_pair ps)"

section \<open>url.ParseQuery\<close>

definition unhex :: "char \<Rightarrow> nat option" where
  "unhex c =
     (let n = (of_char c :: nat)
      in if 48 \<le> n \<and> n \<le> 57 then Some (n - 48)
         else if 97 \<le> n \<and> n \<le> 102 then Some (n - 87)
         else if 65 \<le> n \<and> n \<le> 70 then Some (n - 55) else None)"

fun query_unescape :: "string \<Rightarrow> string option" where
  "query_unescape [] = Some []"
| "query_unescape (c # s) =
     (if c = CHR 0x25
      then (case s of
              a # b # r \<Rightarrow>
                (case (unhex a, unhex b) of
                   (Some x, Some y) \<Rightarrow> map_option ((#) (char_of (16 * x + y))) (query_unescape r)
                 | _ \<Rightarrow> None)
            | _ \<Rightarrow> None)
      else map_option ((#) (if c = CHR ''+'' then CHR '' '' else c)) (query_unescape s))"

text \<open>One \<open>&\<close>-separated segment: a semicolon or a bad escape is an error and the pair is dropped
  (\<open>Query()\<close> discards the error), an empty segment is skipped.\<close>

definition parse_segment :: "string \<Rightarrow> params" where
  "parse_segment seg =
     (if CHR '';'' \<in> set seg \<or> seg = [] then []
      else (case (query_unescape (takeWhile (\<lambda>c. c \<noteq> CHR ''='') seg),
                  query_unescape (drop 1 (dropWhile (\<lambda>c. c \<noteq> CHR ''='') seg))) of
              (Some k, Some v) \<Rightarrow> [(k, v)]
            | _ \<Rightarrow> []))"

definition parse_query :: "string \<Rightarrow> params" where
  "parse_query s = concat (map parse_segment (split_on CHR ''&'' s))"

text \<open>\<open>values.Get(k)\<close> is the first value or the empty string; \<open>values[k]\<close> is all of them.\<close>

definition values_get :: "params \<Rightarrow> string \<Rightarrow> string" where
  "values_get ps k = (case map_of ps k of None \<Rightarrow> [] | Some v \<Rightarrow> v)"

definition values_all :: "params \<Rightarrow> string \<Rightarrow> string list" where
  "values_all ps k = map snd [p \<leftarrow> ps. fst p = k]"

section \<open>Round trip\<close>

lemma unhex_hex_char [simp]: "n < 16 \<Longrightarrow> unhex (hex_char n) = Some n"
  by (auto simp: unhex_def hex_char_def Let_def)

lemma query_unescape_encode_byte:
  "query_unescape (encode_byte c @ s) = map_option ((#) c) (query_unescape s)"
proof -
  have "char_of (16 * (of_char c div 16) + of_char c mod 16 :: nat) = c"
    by simp
  moreover have "(of_char c :: nat) div 16 < 16"
    using of_char_bound[of c] by (simp add: less_mult_imp_div_less)
  moreover have "form_safe c \<Longrightarrow> c \<noteq> CHR 0x25 \<and> c \<noteq> CHR ''+''"
    by (auto simp: form_safe_def Let_def)
  ultimately show ?thesis
    by (auto simp: encode_byte_def)
qed

lemma query_unescape_form_encode [simp]: "query_unescape (form_encode s) = Some s"
  by (induction s) (auto simp: form_encode_def query_unescape_encode_byte)

lemma hex_char_clean:
  assumes "n < 16"
  shows "hex_char n \<notin> {CHR ''&'', CHR ''='', CHR '';''}"
proof -
  have "(of_char (hex_char n) :: nat) \<notin> of_char ` {CHR ''&'', CHR ''='', CHR '';''}"
    using assms by (auto simp: hex_char_def)
  then show ?thesis by blast
qed

lemma form_encode_clean: "set (form_encode s) \<inter> {CHR ''&'', CHR ''='', CHR '';''} = {}"
proof -
  have "set (encode_byte c) \<inter> {CHR ''&'', CHR ''='', CHR '';''} = {}" for c
  proof -
    have "(of_char c :: nat) div 16 < 16" using of_char_bound[of c] by (simp add: less_mult_imp_div_less)
    then show ?thesis
      using hex_char_clean[of "of_char c div 16"] hex_char_clean[of "of_char c mod 16"]
      by (auto simp: encode_byte_def form_safe_def Let_def)
  qed
  then show ?thesis by (auto simp: form_encode_def)
qed

lemma parse_segment_encode_pair [simp]: "parse_segment (encode_pair p) = [p]"
proof -
  have free: "\<forall>x \<in> set (form_encode s). x \<noteq> CHR ''='' \<and> x \<noteq> CHR '';''" for s
    using form_encode_clean[of s] by auto
  have "takeWhile (\<lambda>c. c \<noteq> CHR ''='') (form_encode s @ ''='' @ t) = form_encode s"
    and "dropWhile (\<lambda>c. c \<noteq> CHR ''='') (form_encode s @ ''='' @ t) = ''='' @ t" for s t
    using free[of s] by (simp_all add: takeWhile_append2 dropWhile_append2)
  moreover have "CHR '';'' \<notin> set (encode_pair p)"
    using free by (auto simp: encode_pair_def)
  ultimately show ?thesis
    by (simp add: parse_segment_def encode_pair_def)
qed

lemma amp_free_pair: "CHR ''&'' \<notin> set (encode_pair p)"
  using form_encode_clean[of "fst p"] form_encode_clean[of "snd p"] by (auto simp: encode_pair_def)

theorem parse_query_serialize [simp]: "parse_query (serialize ps) = ps"
proof (cases "ps = []")
  case True
  then show ?thesis by (simp add: parse_query_def serialize_def parse_segment_def)
next
  case False
  then have "split_on CHR ''&'' (serialize ps) = map encode_pair ps"
    unfolding serialize_def by (intro split_on_join) (auto simp: amp_free_pair)
  moreover have "concat (map (\<lambda>p. parse_segment (encode_pair p)) qs) = qs" for qs
    by (induction qs) auto
  ultimately show ?thesis by (simp add: parse_query_def comp_def)
qed

end
