(* ===== verification/Json_Text.thy ===== *)
theory Json_Text
  imports Url_Form
begin

text \<open>
  JSON values and \<open>JSON.stringify\<close> without indentation. A number is kept as the text
  JavaScript prints for it. Strings are UTF-8; \<open>stringify\<close> escapes the quote, the backslash
  and every control character, so its result never holds a line break
  (\<open>newline_free_stringify\<close>): a value is one line of an NDJSON file.
\<close>

datatype json =
    JNull
  | JBool bool
  | JNum string
  | JStr string
  | JArr "json list"
  | JObj "(string \<times> json) list"

definition lower_hex :: "nat \<Rightarrow> char" where
  "lower_hex n = (if n < 10 then char_of (48 + n) else char_of (87 + n))"

definition escape_char :: "char \<Rightarrow> string" where
  "escape_char c =
     (if c = CHR 0x22 then [CHR 0x5C, CHR 0x22]
      else if c = CHR 0x5C then [CHR 0x5C, CHR 0x5C]
      else if c = CHR 0x08 then [CHR 0x5C, CHR ''b'']
      else if c = CHR 0x0C then [CHR 0x5C, CHR ''f'']
      else if c = CHR 0x0A then [CHR 0x5C, CHR ''n'']
      else if c = CHR 0x0D then [CHR 0x5C, CHR ''r'']
      else if c = CHR 0x09 then [CHR 0x5C, CHR ''t'']
      else if (of_char c :: nat) < 32
        then [CHR 0x5C, CHR ''u'', CHR ''0'', CHR ''0'',
              lower_hex (of_char c div 16), lower_hex (of_char c mod 16)]
      else [c])"

definition quote :: "string \<Rightarrow> string" where
  "quote s = [CHR 0x22] @ concat (map escape_char s) @ [CHR 0x22]"

lemma size_field: "p \<in> set fs \<Longrightarrow> size (snd p) < Suc (size_list (size_prod (\<lambda>x. 0) size) fs)"
  by (induction fs) auto

function stringify :: "json \<Rightarrow> string" where
  "stringify JNull = ''null''"
| "stringify (JBool b) = (if b then ''true'' else ''false'')"
| "stringify (JNum t) = t"
| "stringify (JStr s) = quote s"
| "stringify (JArr xs) = ''['' @ join '','' (map stringify xs) @ '']''"
| "stringify (JObj fs) =
     ''{'' @ join '','' (map (\<lambda>p. quote (fst p) @ '':'' @ stringify (snd p)) fs) @ ''}''"
  by pat_completeness auto
termination
  by (relation "measure size") (auto simp: size_field less_Suc_eq_le size_list_estimation')

text \<open>The texts JavaScript prints for finite numbers.\<close>

definition numeral_text :: "string \<Rightarrow> bool" where
  "numeral_text t \<longleftrightarrow> t \<noteq> [] \<and> list_all (\<lambda>c. is_digit c \<or> c \<in> set ''+-.e'') t"

fun well_formed :: "json \<Rightarrow> bool" where
  "well_formed (JNum t) = numeral_text t"
| "well_formed (JArr xs) = (\<forall>x \<in> set xs. well_formed x)"
| "well_formed (JObj fs) = (\<forall>p \<in> set fs. well_formed (snd p))"
| "well_formed _ = True"

abbreviation newline :: char where
  "newline \<equiv> CHR 0x0A"

lemma set_join: "set (join sep ss) \<subseteq> set sep \<union> \<Union> (set ` set ss)"
  by (induction sep ss rule: join.induct) auto

lemma newline_free_join: "newline \<notin> set sep \<Longrightarrow> \<forall>s \<in> set ss. newline \<notin> set s \<Longrightarrow> newline \<notin> set (join sep ss)"
  using set_join[of sep ss] by auto

lemma lower_hex_clean: "n < 16 \<Longrightarrow> lower_hex n \<noteq> newline"
proof -
  assume "n < 16"
  then have "(of_char (lower_hex n) :: nat) \<noteq> of_char newline"
    by (auto simp: lower_hex_def)
  then show ?thesis by metis
qed

lemma newline_free_quote [simp]: "newline \<notin> set (quote s)"
proof -
  have "newline \<notin> set (escape_char c)" for c
    using lower_hex_clean[of "of_char c div 16"] lower_hex_clean[of "of_char c mod 16"]
      of_char_bound[of c]
    by (auto simp: escape_char_def less_mult_imp_div_less)
  then show ?thesis by (auto simp: quote_def)
qed

lemma newline_free_stringify: "well_formed j \<Longrightarrow> newline \<notin> set (stringify j)"
proof (induction j rule: stringify.induct)
  case (3 t)
  then show ?case by (auto simp: numeral_text_def list_all_iff is_digit_def)
next
  case (5 xs)
  then have "newline \<notin> set (join '','' (map stringify xs))"
    by (intro newline_free_join) auto
  then show ?case by simp
next
  case (6 fs)
  then have "newline \<notin> set (join '','' (map (\<lambda>p. quote (fst p) @ '':'' @ stringify (snd p)) fs))"
    by (intro newline_free_join) auto
  then show ?case by simp
qed auto

lemma dec_numeral_text [simp]: "numeral_text (dec i)"
  using dec_nat_digits by (auto simp: numeral_text_def dec_def list_all_iff)

end
