(* ===== verification/Wire_Types.thy ===== *)
theory Wire_Types
  imports Json_Text
begin

text \<open>
  \<open>frontend/src/types.ts\<close>: what the API sends, as the browser's code types it. An optional
  property is an \<open>option\<close>. A date is its RFC 3339 text.
\<close>

record SyslogMessage =
  msg_key :: string
  received_at :: string
  timestamp :: "string option"
  transport :: "string option"
  source :: "string option"
  priority :: "int option"
  facility :: "int option"
  severity :: "int option"
  hostname :: "string option"
  app_name :: "string option"
  proc_id :: "string option"
  msg_id :: "string option"
  tag :: "string option"
  message :: "string option"
  structured_data :: "(string \<times> json) list option"
  raw :: "(string \<times> json) list option"

record meta =
  count :: int
  meta_limit :: int
  meta_offset :: int
  has_more :: bool

record MessagesResponse =
  messages_data :: "SyslogMessage list"
  messages_meta :: meta

record ImportMessagesResponse =
  import_status :: string
  imported :: int
  skipped :: int

datatype delivery_kind =
    incident_opened | incident_resolved | fallback_opened | fallback_resolved | fallback_escalated

record NotificationDelivery =
  delivery_id :: string
  kind :: delivery_kind
  attempts :: int
  last_error :: "string option"
  sent_at :: "string option"
  adapter :: "string option"
  permanent :: "bool option"

datatype incident_state = pending_failure | active | pending_recovery | resolved

record Incident =
  incident_id :: string
  rule_version :: int
  incident_hostname :: string
  interface :: string
  state :: incident_state
  started_at :: string
  activated_at :: "string option"
  recovery_first_at :: "string option"
  resolved_at :: "string option"
  last_evidence_at :: string
  evidence_ids :: "string list"
  evidence_refs :: "string list option"
  down_after :: int
  recovered_after :: int
  deliveries :: "NotificationDelivery list"

record IncidentsResponse =
  incidents_data :: "Incident list"
  incidents_meta :: meta

record IncidentHealth =
  running :: bool
  stale :: bool
  last_reconciled_at :: "string option"
  last_processed_at :: "string option"
  health_error :: "string option"
  pending_jobs :: int

text \<open>A message as the JSON object it was parsed from: the properties in the order the server
  writes them (the order of \<open>types.ts\<close> and of \<open>internal/model/message.go\<close>), absent ones
  left out.\<close>

definition opt_field :: "string \<Rightarrow> ('a \<Rightarrow> json) \<Rightarrow> 'a option \<Rightarrow> (string \<times> json) list" where
  "opt_field k f v = (case v of None \<Rightarrow> [] | Some x \<Rightarrow> [(k, f x)])"

definition message_json :: "SyslogMessage \<Rightarrow> json" where
  "message_json m = JObj
     ([(''id'', JStr (msg_key m)), (''received_at'', JStr (received_at m))] @
      opt_field ''timestamp'' JStr (timestamp m) @
      opt_field ''transport'' JStr (transport m) @
      opt_field ''source'' JStr (source m) @
      opt_field ''priority'' (JNum \<circ> dec) (priority m) @
      opt_field ''facility'' (JNum \<circ> dec) (facility m) @
      opt_field ''severity'' (JNum \<circ> dec) (severity m) @
      opt_field ''hostname'' JStr (hostname m) @
      opt_field ''app_name'' JStr (app_name m) @
      opt_field ''proc_id'' JStr (proc_id m) @
      opt_field ''msg_id'' JStr (msg_id m) @
      opt_field ''tag'' JStr (tag m) @
      opt_field ''message'' JStr (message m) @
      opt_field ''structured_data'' JObj (structured_data m) @
      opt_field ''raw'' JObj (raw m))"

definition message_well_formed :: "SyslogMessage \<Rightarrow> bool" where
  "message_well_formed m \<longleftrightarrow> well_formed (message_json m)"

end
