(* ===== verification/Api_Client.thy ===== *)
theory Api_Client
  imports Wire_Types
begin

text \<open>
  \<open>frontend/src/api.ts\<close>. Each asynchronous function is a request (what is handed to
  \<open>fetch\<close>) and a finish (what the promise settles to, given how \<open>fetch\<close> ended). The
  network is not modelled: a \<open>fetch_outcome\<close> is any answer it may give.
\<close>

section \<open>Requests, responses, errors\<close>

datatype request_body = NoBody | TextBody string | FileBody string

record http_request =
  http_method :: string
  url :: string
  content_type :: "string option"
  body :: request_body
  credentials :: string

text \<open>
  What a rejected promise carries: the \<open>DOMException\<close> named AbortError of an aborted fetch
  (an \<open>Error\<close>, with the browser's message), another \<open>Error\<close> with its message, or a value
  that is no \<open>Error\<close>.
\<close>

datatype js_error = AbortError string | JsError string | NotAnError

text \<open>
  A response: its status; what \<open>response.json()\<close> settles to, at the type the caller declares;
  and the \<open>error\<close> property of its JSON body, absent when there is none, when the body is null
  or when it is not JSON.
\<close>

record 'a response =
  status :: int
  json :: "js_error + 'a"
  json_error :: "string option"

definition ok :: "'a response \<Rightarrow> bool" where
  "ok r \<longleftrightarrow> 200 \<le> status r \<and> status r \<le> 299"

datatype 'a fetch_outcome = Rejected js_error | Responded "'a response"

fun settle_with :: "('a response \<Rightarrow> js_error + 'b) \<Rightarrow> 'a fetch_outcome \<Rightarrow> js_error + 'b" where
  "settle_with f (Rejected e) = Inl e"
| "settle_with f (Responded r) = f r"

definition http_failure :: "int \<Rightarrow> string" where
  "http_failure s = ''Request failed with HTTP '' @ dec s"

definition body_error :: "'a response \<Rightarrow> string" where
  "body_error r = (case json_error r of None \<Rightarrow> http_failure (status r) | Some e \<Rightarrow> e)"

text \<open>\<open>err instanceof Error ? err.message : fallback\<close>.\<close>

fun error_message :: "string \<Rightarrow> js_error \<Rightarrow> string" where
  "error_message fallback (AbortError m) = m"
| "error_message fallback (JsError m) = m"
| "error_message fallback NotAnError = fallback"

fun is_abort :: "js_error \<Rightarrow> bool" where
  "is_abort (AbortError m) = True"
| "is_abort _ = False"

section \<open>listMessages and openMessageStream\<close>

record ListMessagesParams =
  query :: string
  hosts :: "string list"
  limit :: int
  offset :: int

definition append_host :: "string \<Rightarrow> params \<Rightarrow> params" where
  "append_host host q =
     (let trimmed = js_trim host in if trimmed \<noteq> [] then usp_append ''host'' trimmed q else q)"

definition listMessages_query :: "ListMessagesParams \<Rightarrow> params" where
  "listMessages_query p =
     (let q = usp_set ''limit'' (dec (limit p)) [];
          q = usp_set ''offset'' (dec (offset p)) q;
          q = fold append_host (hosts p) q
      in if js_trim (query p) \<noteq> [] then usp_set ''q'' (js_trim (query p)) q else q)"

definition listMessages_request :: "ListMessagesParams \<Rightarrow> http_request" where
  "listMessages_request p =
     \<lparr>http_method = ''GET'', url = ''/api/v1/messages?'' @ serialize (listMessages_query p),
      content_type = None, body = NoBody,
      credentials = ''same-origin''\<rparr>"

text \<open>The pairs a page request consists of.\<close>

lemma fold_append_host:
  "fold append_host hs q = q @ map (\<lambda>h. (''host'', h)) (filter (\<lambda>h. h \<noteq> []) (map js_trim hs))"
  by (induction hs arbitrary: q) (simp_all add: append_host_def Let_def usp_append_def)

lemma usp_set_new: "k \<notin> fst ` set ps \<Longrightarrow> usp_set k v ps = ps @ [(k, v)]"
  by (induction k v ps rule: usp_set.induct) auto

lemma listMessages_query_form:
  "listMessages_query p =
     [(''limit'', dec (limit p)), (''offset'', dec (offset p))]
     @ map (\<lambda>h. (''host'', h)) (filter (\<lambda>h. h \<noteq> []) (map js_trim (hosts p)))
     @ (if js_trim (query p) \<noteq> [] then [(''q'', js_trim (query p))] else [])"
  by (subst listMessages_query_def) (auto simp: Let_def fold_append_host image_iff intro: usp_set_new)

lemma map_of_hosts [simp]: "k \<noteq> ''host'' \<Longrightarrow> map_of (map (Pair ''host'') hs) k = None"
  by (induction hs) auto

lemma filter_hosts:
  "[p \<leftarrow> map (\<lambda>h. (''host'', h)) hs @ ps. fst p = ''host''] = map (\<lambda>h. (''host'', h)) hs @ [p \<leftarrow> ps. fst p = ''host'']"
  by (induction hs) auto

definition listMessages_response :: "MessagesResponse response \<Rightarrow> js_error + MessagesResponse" where
  "listMessages_response r =
     (if \<not> ok r
      then (if status r = 401 then Inl (JsError ''Authentication required'')
            else Inl (JsError (body_error r)))
      else json r)"

definition openMessageStream_url :: "string \<Rightarrow> string" where
  "openMessageStream_url q = ''/api/v1/messages/stream?'' @ serialize [(''q'', q)]"

section \<open>sendTestEvent, importMessages, fetchBuildID\<close>

text \<open>\<open>now\<close> is the text of \<open>new Date().toISOString()\<close>.\<close>

definition sendTestEvent_request :: "string \<Rightarrow> http_request" where
  "sendTestEvent_request now =
     \<lparr>http_method = ''POST'', url = ''/api/v1/test-event'', content_type = Some ''application/json'',
      body = TextBody (stringify (JObj [(''message'', JStr (''logthing browser test event '' @ now))])),
      credentials = ''same-origin''\<rparr>"

definition sendTestEvent_response :: "unit response \<Rightarrow> js_error + unit" where
  "sendTestEvent_response r =
     (if \<not> ok r
      then (if status r = 401 then Inl (JsError ''Authentication required'')
            else Inl (JsError (http_failure (status r))))
      else Inr ())"

record upload =
  file_type :: string
  contents :: string

definition importMessages_request :: "upload \<Rightarrow> http_request" where
  "importMessages_request f =
     \<lparr>http_method = ''POST'', url = ''/api/v1/messages/import'',
      content_type = Some (if file_type f \<noteq> [] then file_type f else ''application/x-ndjson''),
      body = FileBody (contents f), credentials = ''same-origin''\<rparr>"

definition importMessages_response ::
  "ImportMessagesResponse response \<Rightarrow> js_error + ImportMessagesResponse" where
  "importMessages_response r =
     (if \<not> ok r
      then (if status r = 401 then Inl (JsError ''Authentication required'')
            else Inl (JsError (body_error r)))
      else json r)"

definition fetchBuildID_request :: http_request where
  "fetchBuildID_request =
     \<lparr>http_method = ''GET'', url = ''/healthcheck'', content_type = None, body = NoBody,
      credentials = ''same-origin''\<rparr>"

text \<open>The body is read as an object with an optional \<open>build_id\<close>; an empty one is "Unknown".\<close>

definition fetchBuildID_response :: "string option response \<Rightarrow> js_error + string" where
  "fetchBuildID_response r =
     (if \<not> ok r then Inl (JsError (''Failed to fetch build ID: '' @ dec (status r)))
      else map_sum id (\<lambda>b. if b = None \<or> b = Some [] then ''Unknown'' else the b) (json r))"

section \<open>Incidents and notifications\<close>

definition checkedJSON :: "'a response \<Rightarrow> js_error + 'a" where
  "checkedJSON r = (if \<not> ok r then Inl (JsError (body_error r)) else json r)"

text \<open>The states \<open>listIncidents\<close> may be asked for.\<close>

datatype incident_filter = Only_pending_failure | Only_active | Only_resolved

fun filter_text :: "incident_filter \<Rightarrow> string" where
  "filter_text Only_pending_failure = ''pending_failure''"
| "filter_text Only_active = ''active''"
| "filter_text Only_resolved = ''resolved''"

definition listIncidents_request :: "incident_filter \<Rightarrow> http_request" where
  "listIncidents_request st =
     \<lparr>http_method = ''GET'',
      url = ''/api/v1/incidents?'' @ serialize [(''state'', filter_text st), (''limit'', ''100'')],
      content_type = None, body = NoBody,
      credentials = ''same-origin''\<rparr>"

definition getIncidentHealth_request :: http_request where
  "getIncidentHealth_request =
     \<lparr>http_method = ''GET'', url = ''/api/v1/incidents/health'', content_type = None, body = NoBody,
      credentials = ''same-origin''\<rparr>"

definition sendTestNotification_request :: http_request where
  "sendTestNotification_request =
     \<lparr>http_method = ''POST'', url = ''/api/v1/notifications/test'', content_type = None, body = NoBody,
      credentials = ''same-origin''\<rparr>"

definition sendTestNotification_response :: "'a response \<Rightarrow> js_error + unit" where
  "sendTestNotification_response r = map_sum id (\<lambda>_. ()) (checkedJSON r)"


section \<open>The contract of a client function\<close>

text \<open>
  What the pages rely on: an answer outside 200-299 is an \<open>Error\<close>, never a value and never
  taken for an abort; any other answer is its JSON.
\<close>

locale fetch_client =
  fixes finish :: "'a response \<Rightarrow> js_error + 'b" and convert :: "'a \<Rightarrow> 'b"
  assumes ok_value: "ok r \<Longrightarrow> json r = Inr v \<Longrightarrow> finish r = Inr (convert v)"
    and ok_error: "ok r \<Longrightarrow> json r = Inl e \<Longrightarrow> finish r = Inl e"
    and failure: "\<not> ok r \<Longrightarrow> \<exists>m. finish r = Inl (JsError m)"
begin

lemma value_iff: "settle_with finish out = Inr w \<longleftrightarrow> (\<exists>r v. out = Responded r \<and> ok r \<and> json r = Inr v \<and> w = convert v)"
proof (cases out)
  case (Responded r)
  then show ?thesis
    using ok_value[of r] ok_error[of r] failure[of r] by (cases "ok r"; cases "json r") auto
qed simp

lemma abort_iff:
  "settle_with finish out = Inl (AbortError t) \<longleftrightarrow>
   out = Rejected (AbortError t) \<or> (\<exists>r. out = Responded r \<and> ok r \<and> json r = Inl (AbortError t))"
proof (cases out)
  case (Responded r)
  then show ?thesis
    using ok_value[of r] ok_error[of r] failure[of r] by (cases "ok r"; cases "json r") auto
qed auto

end

text \<open>The functions that tell the user to sign in.\<close>

locale signed_in_client = fetch_client +
  assumes unauthorized: "status r = 401 \<Longrightarrow> finish r = Inl (JsError ''Authentication required'')"
begin

lemma unauthorized_outcome:
  "out = Responded r \<Longrightarrow> status r = 401 \<Longrightarrow> settle_with finish out = Inl (JsError ''Authentication required'')"
  by (simp add: unauthorized)

end

interpretation list_client: signed_in_client listMessages_response id
  by unfold_locales (auto simp: listMessages_response_def ok_def)

interpretation import_client: signed_in_client importMessages_response id
  by unfold_locales (auto simp: importMessages_response_def ok_def)

interpretation checked_client: fetch_client checkedJSON id
  by unfold_locales (auto simp: checkedJSON_def)

interpretation build_client: fetch_client fetchBuildID_response
    "\<lambda>b. if b = None \<or> b = Some [] then ''Unknown'' else the b"
  by unfold_locales (auto simp: fetchBuildID_response_def)

interpretation notification_client: fetch_client sendTestNotification_response "\<lambda>_. ()"
  by unfold_locales (auto simp: sendTestNotification_response_def checkedJSON_def)

end
