(* ===== verification/Js_Array.thy ===== *)
theory Js_Array
  imports Prelude
begin

text \<open>
  The array operations the frontend uses. \<open>Array.prototype.sort\<close> is stable, and for a
  consistent comparator its result is determined: \<open>js_sort\<close> computes it by insertion, and
  inside the locale \<open>js_comparator\<close> (what ECMAScript asks of a comparator) it is shown to be
  the only stable ordered rearrangement.
\<close>

section \<open>Set and slice\<close>

text \<open>\<open>Array.from(new Set(xs))\<close>: the elements in the order of their first occurrence.\<close>

fun unique_from :: "'a list \<Rightarrow> 'a list \<Rightarrow> 'a list" where
  "unique_from seen [] = []"
| "unique_from seen (x # xs) =
     (if x \<in> set seen then unique_from seen xs else x # unique_from (x # seen) xs)"

definition unique :: "'a list \<Rightarrow> 'a list" where
  "unique xs = unique_from [] xs"

lemma set_unique_from: "set (unique_from seen xs) = set xs - set seen"
  by (induction xs arbitrary: seen) auto

lemma distinct_unique_from: "distinct (unique_from seen xs)"
  by (induction xs arbitrary: seen) (auto simp: set_unique_from)

lemma set_unique [simp]: "set (unique xs) = set xs"
  by (simp add: unique_def set_unique_from)

lemma distinct_unique [simp]: "distinct (unique xs)"
  by (simp add: unique_def distinct_unique_from)

lemma unique_from_distinct: "distinct xs \<Longrightarrow> set xs \<inter> set seen = {} \<Longrightarrow> unique_from seen xs = xs"
  by (induction xs arbitrary: seen) auto

lemma unique_id: "distinct xs \<Longrightarrow> unique xs = xs"
  by (simp add: unique_def unique_from_distinct)

text \<open>\<open>xs.slice(0, n)\<close>: a negative end counts from the back.\<close>

definition slice0 :: "int \<Rightarrow> 'a list \<Rightarrow> 'a list" where
  "slice0 n xs = (if n < 0 then take (nat (int (length xs) + n)) xs else take (nat n) xs)"

lemma set_slice0: "set (slice0 n xs) \<subseteq> set xs"
  by (auto simp: slice0_def dest: in_set_takeD)

lemma length_slice0: "0 \<le> n \<Longrightarrow> length (slice0 n xs) = min (length xs) (nat n)"
  by (simp add: slice0_def)

lemma distinct_map_slice0: "distinct (map f xs) \<Longrightarrow> distinct (map f (slice0 n xs))"
  by (simp add: slice0_def flip: take_map)

section \<open>Stable sorting by a comparator\<close>

fun insert_by :: "('a \<Rightarrow> 'a \<Rightarrow> int) \<Rightarrow> 'a \<Rightarrow> 'a list \<Rightarrow> 'a list" where
  "insert_by cmp x [] = [x]"
| "insert_by cmp x (y # ys) = (if cmp x y \<le> 0 then x # y # ys else y # insert_by cmp x ys)"

definition js_sort :: "('a \<Rightarrow> 'a \<Rightarrow> int) \<Rightarrow> 'a list \<Rightarrow> 'a list" where
  "js_sort cmp xs = foldr (insert_by cmp) xs []"

lemma js_sort_simps [simp]:
  "js_sort cmp [] = []"
  "js_sort cmp (x # xs) = insert_by cmp x (js_sort cmp xs)"
  by (simp_all add: js_sort_def)

lemma mset_insert_by [simp]: "mset (insert_by cmp x xs) = add_mset x (mset xs)"
  by (induction xs) auto

lemma mset_js_sort [simp]: "mset (js_sort cmp xs) = mset xs"
  by (induction xs) auto

lemma set_insert_by [simp]: "set (insert_by cmp x xs) = insert x (set xs)"
  by (induction xs) auto

lemma set_js_sort [simp]: "set (js_sort cmp xs) = set xs"
  by (induction xs) auto

lemma length_insert_by [simp]: "length (insert_by cmp x xs) = Suc (length xs)"
  by (induction xs) auto

lemma length_js_sort [simp]: "length (js_sort cmp xs) = length xs"
  by (induction xs) auto

lemma distinct_js_sort [simp]: "distinct (map f (js_sort cmp xs)) = distinct (map f xs)"
  by (metis mset_js_sort mset_map mset_eq_imp_distinct_iff)

text \<open>What ECMAScript asks of a comparator: it orders any two values, and transitively so.\<close>

locale js_comparator =
  fixes cmp :: "'a \<Rightarrow> 'a \<Rightarrow> int"
  assumes total: "cmp a b \<le> 0 \<or> cmp b a \<le> 0"
    and trans: "cmp a b \<le> 0 \<Longrightarrow> cmp b c \<le> 0 \<Longrightarrow> cmp a c \<le> 0"
begin

definition ordered :: "'a list \<Rightarrow> bool" where
  "ordered = sorted_wrt (\<lambda>a b. cmp a b \<le> 0)"

definition tied :: "'a \<Rightarrow> 'a \<Rightarrow> bool" where
  "tied a b \<longleftrightarrow> cmp a b \<le> 0 \<and> cmp b a \<le> 0"

lemma ordered_simps [simp]:
  "ordered []"
  "ordered (x # xs) \<longleftrightarrow> (\<forall>y \<in> set xs. cmp x y \<le> 0) \<and> ordered xs"
  by (simp_all add: ordered_def)

lemma ordered_insert_by: "ordered xs \<Longrightarrow> ordered (insert_by cmp x xs)"
proof (induction xs)
  case (Cons y ys)
  then show ?case using total[of x y] by (auto intro: trans)
qed simp

lemma ordered_js_sort [simp]: "ordered (js_sort cmp xs)"
  by (induction xs) (auto intro: ordered_insert_by)

lemma ordered_take: "ordered xs \<Longrightarrow> ordered (take n xs)"
  by (simp add: ordered_def sorted_wrt_take)

text \<open>Stability: among tied elements the order of the input is kept.\<close>

lemma filter_insert_by:
  "ordered xs \<Longrightarrow>
   filter (tied a) (insert_by cmp x xs) = (if tied a x then [x] else []) @ filter (tied a) xs"
proof (induction xs)
  case (Cons y ys)
  have "\<not> tied a x \<or> \<not> tied a y" if "\<not> cmp x y \<le> 0"
    using that by (auto simp: tied_def intro: trans)
  with Cons show ?case by auto
qed simp

lemma js_sort_stable: "filter (tied a) (js_sort cmp xs) = filter (tied a) xs"
  by (induction xs) (auto simp: filter_insert_by)

text \<open>An ordered list is determined by its elements and the order within each tie.\<close>

lemma ordered_unique:
  assumes "ordered xs" "ordered ys" "mset xs = mset ys"
    and "\<And>a. filter (tied a) xs = filter (tied a) ys"
  shows "xs = ys"
  using assms
proof (induction xs arbitrary: ys)
  case Nil
  then show ?case by simp
next
  case (Cons x xs)
  then obtain y zs where ys: "ys = y # zs" by (cases ys) auto
  have "x \<in> set ys" "y \<in> set (x # xs)"
    using Cons.prems(3) ys by (metis list.set_intros(1) set_mset_mset)+
  then have "cmp y x \<le> 0" "cmp x y \<le> 0"
    using Cons.prems(1,2) ys total[of x x] by auto
  then have "tied x x" "tied x y" by (auto simp: tied_def intro: trans)
  then have "x = y" using Cons.prems(4)[of x] ys by simp
  have "filter (tied a) xs = filter (tied a) zs" for a
    using Cons.prems(4)[of a] \<open>x = y\<close> ys by (auto split: if_splits)
  then show ?case
    using Cons.IH[of zs] Cons.prems \<open>x = y\<close> ys by auto
qed

lemma js_sort_only:
  assumes "ordered ys" "mset ys = mset xs" "\<And>a. filter (tied a) ys = filter (tied a) xs"
  shows "js_sort cmp xs = ys"
  by (rule ordered_unique) (simp_all only: js_sort_stable assms ordered_js_sort mset_js_sort)

lemma js_sort_id: "ordered xs \<Longrightarrow> js_sort cmp xs = xs"
  by (rule js_sort_only) auto

text \<open>A bounded prefix of a sorted list absorbs an insertion: what lies past the bound never
  returns.\<close>

lemma take_insert_by: "take n (insert_by cmp x (take n xs)) = take n (insert_by cmp x xs)"
proof (induction xs arbitrary: n)
  case (Cons y ys)
  then show ?case by (cases n) (auto simp: take_Cons' split: if_splits)
qed simp

lemma take_length_le: "m \<le> n \<Longrightarrow> take m (insert_by cmp x (take n xs)) = take m (insert_by cmp x xs)"
  by (metis min.absorb1 take_insert_by take_take)

end

text \<open>Sorting by comparing an integer key in descending order.\<close>

definition by_key_desc :: "('a \<Rightarrow> int) \<Rightarrow> 'a \<Rightarrow> 'a \<Rightarrow> int" where
  "by_key_desc k a b = k b - k a"

interpretation key_desc: js_comparator "by_key_desc k" for k
  by unfold_locales (auto simp: by_key_desc_def)

end
