(* ===== verification/Timeline.thy ===== *)
theory Timeline
  imports Wire_Types Js_Array
begin

text \<open>
  The message timeline's helpers in \<open>frontend/src/App.tsx\<close>: formatting, the host list, the
  order of messages, and the merge of one live message into the page of rows. Parameters
  stand for what the host decides: \<open>lc\<close> is \<open>String.prototype.localeCompare\<close>, \<open>dp\<close> is
  \<open>Date.parse\<close> (\<open>None\<close> for NaN), \<open>ls\<close> is \<open>Date.prototype.toLocaleString\<close>.
\<close>

section \<open>Formatting\<close>

definition formatDate ::
  "(string \<Rightarrow> int option) \<Rightarrow> (int \<Rightarrow> string) \<Rightarrow> string option \<Rightarrow> string" where
  "formatDate dp ls value =
     (case value of
        None \<Rightarrow> []
      | Some v \<Rightarrow> if v = [] then [] else (case dp v of None \<Rightarrow> v | Some t \<Rightarrow> ls t))"

definition formatJSON :: "(string \<times> json) list option \<Rightarrow> string" where
  "formatJSON value =
     (case value of
        None \<Rightarrow> []
      | Some fs \<Rightarrow> if length fs = 0 then [] else stringify (JObj fs))"

definition numberText :: "int option \<Rightarrow> string" where
  "numberText value = (case value of None \<Rightarrow> [] | Some n \<Rightarrow> dec n)"

text \<open>The argument is the date's \<open>toISOString()\<close>; every colon and dot becomes a dash.\<close>

definition filenameTimestamp :: "string \<Rightarrow> string" where
  "filenameTimestamp stamp = map (\<lambda>c. if c = CHR '':'' \<or> c = CHR ''.'' then CHR ''-'' else c) stamp"

section \<open>Hosts\<close>

definition hostLabel :: "string list \<Rightarrow> string" where
  "hostLabel hosts =
     (case hosts of
        [] \<Rightarrow> ''All hosts''
      | [h] \<Rightarrow> h
      | _ \<Rightarrow> dec (int (length hosts)) @ '' hosts'')"

definition sortedUniqueHosts :: "(string \<Rightarrow> string \<Rightarrow> int) \<Rightarrow> string list \<Rightarrow> string list" where
  "sortedUniqueHosts lc hosts =
     js_sort lc (unique (filter (\<lambda>h. h \<noteq> []) (map js_trim hosts)))"

lemma set_sortedUniqueHosts: "set (sortedUniqueHosts lc hosts) = js_trim ` set hosts - {[]}"
  by (auto simp: sortedUniqueHosts_def)

lemma distinct_sortedUniqueHosts: "distinct (sortedUniqueHosts lc hosts)"
  using distinct_js_sort[of id lc "unique (filter (\<lambda>h. h \<noteq> []) (map js_trim hosts))"]
  by (simp add: sortedUniqueHosts_def)

text \<open>A host list in normal form: what \<open>sortedUniqueHosts\<close> returns, and leaves alone.\<close>

definition clean_hosts :: "string list \<Rightarrow> bool" where
  "clean_hosts hosts \<longleftrightarrow> distinct hosts \<and> (\<forall>h \<in> set hosts. h \<noteq> [] \<and> js_trim h = h)"

lemma clean_sortedUniqueHosts: "clean_hosts (sortedUniqueHosts lc hosts)"
  by (auto simp: clean_hosts_def distinct_sortedUniqueHosts set_sortedUniqueHosts)

lemma sortedUniqueHosts_clean: "clean_hosts hosts \<Longrightarrow> sortedUniqueHosts lc hosts = js_sort lc hosts"
  by (simp add: sortedUniqueHosts_def clean_hosts_def unique_id map_idI filter_id_conv)

lemma sortedUniqueHosts_idem:
  assumes "js_comparator lc"
  shows "sortedUniqueHosts lc (sortedUniqueHosts lc hosts) = sortedUniqueHosts lc hosts"
proof -
  have "sortedUniqueHosts lc (sortedUniqueHosts lc hosts) = js_sort lc (sortedUniqueHosts lc hosts)"
    by (rule sortedUniqueHosts_clean[OF clean_sortedUniqueHosts])
  also have "\<dots> = sortedUniqueHosts lc hosts"
    by (simp add: sortedUniqueHosts_def js_comparator.js_sort_id[OF assms]
        js_comparator.ordered_js_sort[OF assms])
  finally show ?thesis .
qed

section \<open>The order of messages\<close>

definition receivedAtMillis :: "(string \<Rightarrow> int option) \<Rightarrow> SyslogMessage \<Rightarrow> int" where
  "receivedAtMillis dp m = (case dp (received_at m) of None \<Rightarrow> 0 | Some t \<Rightarrow> t)"

definition compareMessagesLatestFirst ::
  "(string \<Rightarrow> int option) \<Rightarrow> SyslogMessage \<Rightarrow> SyslogMessage \<Rightarrow> int" where
  "compareMessagesLatestFirst dp left right = receivedAtMillis dp right - receivedAtMillis dp left"

interpretation latest_first: js_comparator "compareMessagesLatestFirst dp" for dp
  by unfold_locales (auto simp: compareMessagesLatestFirst_def)

section \<open>Merging a live message\<close>

text \<open>\<open>handleMessage\<close>'s \<open>merged\<close> and \<open>nextMessages\<close>.\<close>

definition merged ::
  "(string \<Rightarrow> int option) \<Rightarrow> SyslogMessage \<Rightarrow> SyslogMessage list \<Rightarrow> SyslogMessage list" where
  "merged dp m existing =
     js_sort (compareMessagesLatestFirst dp) (m # filter (\<lambda>e. msg_key e \<noteq> msg_key m) existing)"

definition nextMessages ::
  "(string \<Rightarrow> int option) \<Rightarrow> int \<Rightarrow> SyslogMessage \<Rightarrow> SyslogMessage list \<Rightarrow> SyslogMessage list" where
  "nextMessages dp lim m existing = slice0 lim (merged dp m existing)"

lemma length_merged: "length (merged dp m existing) \<le> Suc (length existing)"
  by (simp add: merged_def)

lemma distinct_keys_merged:
  "distinct (map msg_key existing) \<Longrightarrow> distinct (map msg_key (merged dp m existing))"
  by (auto simp: merged_def distinct_map_filter simp del: js_sort_simps)

lemma ordered_merged [simp]: "latest_first.ordered dp (merged dp m existing)"
  by (simp only: merged_def latest_first.ordered_js_sort)

lemma ordered_nextMessages: "latest_first.ordered dp (nextMessages dp lim m existing)"
  by (simp add: nextMessages_def slice0_def latest_first.ordered_take)

text \<open>
  The page a query would show: the latest \<open>lim\<close> of a log, newest arrival first among equal
  times.
\<close>

definition latest_page :: "(string \<Rightarrow> int option) \<Rightarrow> nat \<Rightarrow> SyslogMessage list \<Rightarrow> SyslogMessage list" where
  "latest_page dp lim log = take lim (js_sort (compareMessagesLatestFirst dp) log)"

lemma merge_into_latest_page:
  assumes "msg_key m \<notin> msg_key ` set log"
  shows "nextMessages dp (int lim) m (latest_page dp lim log) = latest_page dp lim (m # log)"
proof -
  let ?cmp = "compareMessagesLatestFirst dp"
  let ?page = "latest_page dp lim log"
  have "filter (\<lambda>e. msg_key e \<noteq> msg_key m) ?page = ?page"
    using assms by (intro filter_True) (metis image_eqI in_set_takeD latest_page_def set_js_sort)
  moreover have "js_sort ?cmp ?page = ?page"
    by (intro latest_first.js_sort_id) (simp add: latest_page_def latest_first.ordered_take)
  ultimately have "merged dp m ?page = insert_by ?cmp m ?page"
    by (simp add: merged_def)
  then show ?thesis
    by (simp add: nextMessages_def slice0_def latest_page_def latest_first.take_insert_by)
qed

text \<open>Nothing that is dropped is later than anything that is kept.\<close>

lemma dropped_not_later:
  assumes "0 \<le> lim" "d \<in> set (merged dp m existing)" "d \<notin> set (nextMessages dp lim m existing)"
    and "k \<in> set (nextMessages dp lim m existing)"
  shows "receivedAtMillis dp d \<le> receivedAtMillis dp k"
proof -
  let ?xs = "merged dp m existing"
  have "latest_first.ordered dp (take (nat lim) ?xs @ drop (nat lim) ?xs)"
    by simp
  moreover have "d \<in> set (drop (nat lim) ?xs)" "k \<in> set (take (nat lim) ?xs)"
    using assms by (auto simp: nextMessages_def slice0_def)
      (metis Un_iff append_take_drop_id set_append)
  ultimately have "compareMessagesLatestFirst dp k d \<le> 0"
    unfolding latest_first.ordered_def by (auto simp: sorted_wrt_append simp del: append_take_drop_id)
  then show ?thesis by (simp add: compareMessagesLatestFirst_def)
qed

section \<open>Export\<close>

text \<open>\<open>handleExport\<close>'s file: its body and its name; \<open>stamp\<close> is \<open>new Date().toISOString()\<close>.\<close>

definition export_body :: "SyslogMessage list \<Rightarrow> string" where
  "export_body ms = join [newline] (map (\<lambda>m. stringify (message_json m)) ms) @ [newline]"

definition export_name :: "string \<Rightarrow> string" where
  "export_name stamp = ''logthing-visible-'' @ filenameTimestamp stamp @ ''.ndjson''"

lemma split_on_end: "split_on c (s @ [c]) = split_on c s @ [[]]"
proof (induction s)
  case (Cons x xs)
  have "split_on c xs \<noteq> []" by (cases xs) (auto split: list.splits)
  with Cons show ?case by (cases "split_on c xs") auto
qed simp

lemma export_lines:
  assumes "ms \<noteq> []" "\<forall>m \<in> set ms. message_well_formed m"
  shows "split_on newline (export_body ms) = map (\<lambda>m. stringify (message_json m)) ms @ [[]]"
proof -
  have "\<forall>s \<in> set (map (\<lambda>m. stringify (message_json m)) ms). newline \<notin> set s"
    using assms(2) by (auto simp: message_well_formed_def dest: newline_free_stringify)
  then show ?thesis
    using assms(1) by (simp add: export_body_def split_on_end split_on_join del: stringify.simps)
qed

end
