(* ===== verification/App_Model.thy ===== *)
theory App_Model
  imports Complex_Main Api_Client Timeline "HOL-Library.While_Combinator"
begin

text \<open>
  The component \<open>App\<close> of \<open>frontend/src/App.tsx\<close> as a state machine. The state holds every
  \<open>useState\<close> and \<open>useRef\<close> value and, beside them, what the browser holds for the component:
  the requests in flight with the closures they captured, the debounce timer, the event
  source, local storage. An event is one synchronous stretch of the program: a user
  action, a timer, or the end of an awaited call. React batches its state updates,
  renders, and runs the effects whose dependencies changed, until none is left to run;
  \<open>settle\<close> is that.
\<close>

section \<open>State\<close>

datatype page_size = Auto | Rows int

datatype notification_outcome = Passed string | Failed string

text \<open>One \<open>refresh\<close> in flight: what it asked for, whether it carries the effect's abort signal, and
  whether that signal was raised.\<close>

record request =
  req_id :: nat
  req_params :: ListMessagesParams
  signalled :: bool
  aborted :: bool

text \<open>One \<open>handleImportFile\<close> in flight: the \<open>page\<close> and the \<open>refresh\<close> of the render it started in.\<close>

record pending_import =
  imp_id :: nat
  imp_page :: int
  imp_params :: ListMessagesParams

text \<open>An open event source and the values its listeners captured.\<close>

record live_stream =
  strm_filter :: string
  strm_hosts :: "string list"
  strm_limit :: int

text \<open>The values the effects depend on. An array is compared by identity.\<close>

record dependencies =
  dep_size :: page_size
  dep_error :: string
  dep_notice :: string
  dep_input :: string
  dep_filter :: string
  dep_offset :: int
  dep_hosts :: nat
  dep_limit :: int
  dep_auto :: bool
  dep_validated :: "string option"
  dep_unavailable :: bool
  dep_page :: int

record app_state =
  messagesRef :: "SyslogMessage list"
  messages :: "SyslogMessage list"
  filterInput :: string
  filterText :: string
  validatedFilter :: "string option"
  selectedHosts :: "string list"
  knownHosts :: "string list"
  hostMenuOpen :: bool
  page :: int
  hasMore :: bool
  autoRefresh :: bool
  liveUnavailable :: bool
  loading :: bool
  importing :: bool
  sendingTest :: bool
  errorText :: "string option"
  noticeText :: "string option"
  lastUpdated :: "int option"
  buildId :: string
  incidents :: "Incident list"
  incidentHealth :: "IncidentHealth option"
  incidentLoadError :: "string option"
  sendingNotification :: bool
  notificationResult :: "notification_outcome option"
  route :: string
  pageSizeSetting :: page_size
  calculatedLimit :: int

record app = app_state +
  hostsIdentity :: nat
  committed :: "dependencies option"
  debounce :: "string option"
  requests :: "request list"
  nextId :: nat
  stream :: "live_stream option"
  fitListening :: bool
  importCalls :: "pending_import list"
  storage :: "string \<rightharpoonup> string"
  downloads :: "(string \<times> string) list"
  incidentRequests :: nat

text \<open>The page as measured: \<open>window.innerHeight\<close> and the heights of the elements that are there.\<close>

record layout =
  innerHeight :: rat
  topbarHeight :: "rat option"
  toolbarHeight :: "rat option"
  errorHeight :: "rat option"
  noticeHeight :: "rat option"

text \<open>What the host decides: collation, date parsing, the text of a date, the page's geometry.\<close>

record host_env =
  localeCompare :: "string \<Rightarrow> string \<Rightarrow> int"
  dateParse :: "string \<Rightarrow> int option"
  isoText :: "int \<Rightarrow> string"
  layoutOf :: "app \<Rightarrow> layout"

section \<open>The page size\<close>

definition storageKey :: string where
  "storageKey = ''logthing_page_size''"

definition readPageSize :: "(string \<rightharpoonup> string) \<Rightarrow> page_size" where
  "readPageSize st =
     (case st storageKey of
        None \<Rightarrow> Rows 100
      | Some saved \<Rightarrow>
          if saved = ''auto'' then Auto
          else if saved = [] then Rows 100
          else (case parseInt saved of Some val \<Rightarrow> Rows val | None \<Rightarrow> Rows 100))"

fun page_size_text :: "page_size \<Rightarrow> string" where
  "page_size_text Auto = ''auto''"
| "page_size_text (Rows n) = dec n"

definition option_height :: "rat option \<Rightarrow> rat \<Rightarrow> rat" where
  "option_height h d = (case h of None \<Rightarrow> d | Some x \<Rightarrow> x)"

definition fit_count :: "layout \<Rightarrow> int" where
  "fit_count l =
     (let overhead = option_height (topbarHeight l) 72 + option_height (toolbarHeight l) 67
            + option_height (errorHeight l) 0 + option_height (noticeHeight l) 0 + 80;
          availableHeight = innerHeight l - overhead;
          rowHeight = 392 / 10
      in max 10 \<lfloor>availableHeight / rowHeight\<rfloor>)"

section \<open>Mounting\<close>

definition initial :: "(string \<rightharpoonup> string) \<Rightarrow> string \<Rightarrow> app" where
  "initial st path =
     \<lparr>messagesRef = [], messages = [], filterInput = [], filterText = [], validatedFilter = None,
      selectedHosts = [], knownHosts = [], hostMenuOpen = False, page = 0, hasMore = False,
      autoRefresh = True, liveUnavailable = False, loading = False, importing = False,
      sendingTest = False, errorText = None, noticeText = None, lastUpdated = None,
      buildId = [], incidents = [], incidentHealth = None, incidentLoadError = None,
      sendingNotification = False, notificationResult = None, route = path,
      pageSizeSetting = readPageSize st, calculatedLimit = 100,
      hostsIdentity = 0, committed = None, debounce = None, requests = [], nextId = 0,
      stream = None, fitListening = False, importCalls = [], storage = st, downloads = [],
      incidentRequests = 1\<rparr>"

section \<open>Fetching the page\<close>

abbreviation offsetOf :: "app \<Rightarrow> int" where
  "offsetOf s \<equiv> page s * calculatedLimit s"

abbreviation liveDisabled :: "app \<Rightarrow> bool" where
  "liveDisabled s \<equiv> page s \<noteq> 0 \<or> liveUnavailable s"

definition refresh_params :: "app \<Rightarrow> ListMessagesParams" where
  "refresh_params s =
     \<lparr>query = filterText s, hosts = selectedHosts s, limit = calculatedLimit s, offset = offsetOf s\<rparr>"

text \<open>\<open>refresh(signal)\<close> up to its \<open>await\<close>.\<close>

definition start_refresh :: "bool \<Rightarrow> ListMessagesParams \<Rightarrow> app \<Rightarrow> app" where
  "start_refresh sig p s =
     s\<lparr>loading := True, errorText := None,
       requests := requests s @ [\<lparr>req_id = nextId s, req_params = p, signalled = sig, aborted = False\<rparr>],
       nextId := Suc (nextId s)\<rparr>"

text \<open>Its continuation. A raised signal has rejected the promise with an abort.\<close>

definition finish_refresh ::
  "host_env \<Rightarrow> int \<Rightarrow> request \<Rightarrow> js_error + MessagesResponse \<Rightarrow> app \<Rightarrow> app" where
  "finish_refresh env now rq out s =
     (let p = req_params rq;
          out = (if aborted rq then Inl (AbortError []) else out);
          s = (case out of
                 Inr resp \<Rightarrow>
                   s\<lparr>validatedFilter := Some (query p),
                     messagesRef := messages_data resp,
                     messages := messages_data resp,
                     hasMore := has_more (messages_meta resp),
                     knownHosts := sortedUniqueHosts (localeCompare env)
                       (knownHosts s @ hosts p
                        @ map (\<lambda>m. case hostname m of None \<Rightarrow> [] | Some h \<Rightarrow> h) (messages_data resp)),
                     lastUpdated := Some now\<rparr>
               | Inl err \<Rightarrow>
                   if is_abort err then s
                   else s\<lparr>errorText := Some (error_message ''Request failed'' err)\<rparr>)
      in s\<lparr>loading := False\<rparr>)"

section \<open>Effects\<close>

definition dependencies_of :: "app \<Rightarrow> dependencies" where
  "dependencies_of s =
     \<lparr>dep_size = pageSizeSetting s,
      dep_error = (case errorText s of None \<Rightarrow> [] | Some e \<Rightarrow> e),
      dep_notice = (case noticeText s of None \<Rightarrow> [] | Some n \<Rightarrow> n),
      dep_input = filterInput s, dep_filter = filterText s, dep_offset = offsetOf s,
      dep_hosts = hostsIdentity s, dep_limit = calculatedLimit s, dep_auto = autoRefresh s,
      dep_validated = validatedFilter s, dep_unavailable = liveUnavailable s, dep_page = page s\<rparr>"

text \<open>An effect runs at the first render and when a value it depends on changed. Each effect reads
  the render's values \<open>r\<close> and adds its updates to \<open>s\<close>; the previous run's cleanup is part of it.\<close>

definition changed :: "app \<Rightarrow> (dependencies \<Rightarrow> 'a) \<Rightarrow> bool" where
  "changed r f = (case committed r of None \<Rightarrow> True | Some d \<Rightarrow> f d \<noteq> f (dependencies_of r))"

definition effect_storage :: "app \<Rightarrow> app \<Rightarrow> app" where
  "effect_storage r s =
     (if changed r dep_size
      then s\<lparr>storage := (storage s)(storageKey \<mapsto> page_size_text (pageSizeSetting r))\<rparr> else s)"

definition effect_fit :: "host_env \<Rightarrow> app \<Rightarrow> app \<Rightarrow> app" where
  "effect_fit env r s =
     (if changed r (\<lambda>d. (dep_size d, dep_error d, dep_notice d))
      then (case pageSizeSetting r of
              Rows n \<Rightarrow> s\<lparr>calculatedLimit := n, fitListening := False\<rparr>
            | Auto \<Rightarrow> s\<lparr>calculatedLimit := fit_count (layoutOf env r), fitListening := True\<rparr>)
      else s)"

definition effect_debounce :: "app \<Rightarrow> app \<Rightarrow> app" where
  "effect_debounce r s = (if changed r dep_input then s\<lparr>debounce := Some (filterInput r)\<rparr> else s)"

definition raise_signals :: "request list \<Rightarrow> request list" where
  "raise_signals rqs = map (\<lambda>q. if signalled q then q\<lparr>aborted := True\<rparr> else q) rqs"

definition effect_refresh :: "app \<Rightarrow> app \<Rightarrow> app" where
  "effect_refresh r s =
     (if changed r (\<lambda>d. (dep_filter d, dep_offset d, dep_hosts d, dep_limit d))
      then start_refresh True (refresh_params r) (s\<lparr>requests := raise_signals (requests s)\<rparr>)
      else s)"

definition effect_live_off :: "app \<Rightarrow> app \<Rightarrow> app" where
  "effect_live_off r s =
     (if changed r (\<lambda>d. (dep_auto d, dep_page d \<noteq> 0 \<or> dep_unavailable d)) \<and> liveDisabled r \<and> autoRefresh r
      then s\<lparr>autoRefresh := False\<rparr> else s)"

definition effect_stream :: "app \<Rightarrow> app \<Rightarrow> app" where
  "effect_stream r s =
     (if changed r (\<lambda>d. (dep_auto d, dep_validated d, dep_filter d, dep_unavailable d, dep_page d,
                         dep_hosts d, dep_limit d))
      then s\<lparr>stream :=
             (if \<not> autoRefresh r \<or> page r \<noteq> 0 \<or> liveUnavailable r \<or> validatedFilter r \<noteq> Some (filterText r)
              then None
              else Some \<lparr>strm_filter = filterText r, strm_hosts = selectedHosts r,
                         strm_limit = calculatedLimit r\<rparr>)\<rparr>
      else s)"

definition run_effects :: "host_env \<Rightarrow> app \<Rightarrow> app" where
  "run_effects env r =
     (let s = effect_storage r r;
          s = effect_fit env r s;
          s = effect_debounce r s;
          s = effect_refresh r s;
          s = effect_live_off r s;
          s = effect_stream r s
      in s\<lparr>committed := Some (dependencies_of r)\<rparr>)"

text \<open>No effect is left to run.\<close>

definition quiet :: "app \<Rightarrow> bool" where
  "quiet s \<longleftrightarrow> committed s = Some (dependencies_of s)"

text \<open>React renders and runs effects until none is left.\<close>

definition settle_loop :: "host_env \<Rightarrow> app \<Rightarrow> app option" where
  "settle_loop env s = while_option (\<lambda>s. \<not> quiet s) (run_effects env) s"

text \<open>Four rounds always do (\<open>settle_loop_settle\<close> in \<open>App_Effects\<close>).\<close>

definition settle :: "host_env \<Rightarrow> app \<Rightarrow> app" where
  "settle env s = (run_effects env ^^ 4) s"

end
