(* ===== verification/App_Handlers.thy ===== *)
theory App_Handlers
  imports App_Model
begin

text \<open>
  The handlers of \<open>App\<close>: one definition per callback, listener or continuation, and the
  events that run them. A handler runs with the values of the last render; the
  continuations of an import, of a page request and of the event source run with the values
  their closures captured.
\<close>

section \<open>User actions\<close>

definition navigate :: "string \<Rightarrow> app \<Rightarrow> app" where
  "navigate path s = s\<lparr>route := path\<rparr>"

definition onFilterInput :: "string \<Rightarrow> app \<Rightarrow> app" where
  "onFilterInput value s = s\<lparr>filterInput := value\<rparr>"

definition onEvidence :: "string \<Rightarrow> app \<Rightarrow> app" where
  "onEvidence i s = navigate ''/'' (s\<lparr>filterInput := i, page := 0\<rparr>)"

definition toggleHostMenu :: "app \<Rightarrow> app" where
  "toggleHostMenu s = s\<lparr>hostMenuOpen := \<not> hostMenuOpen s\<rparr>"

definition clearHosts :: "app \<Rightarrow> app" where
  "clearHosts s = s\<lparr>page := 0, selectedHosts := [], hostsIdentity := Suc (hostsIdentity s)\<rparr>"

definition toggled :: "host_env \<Rightarrow> string \<Rightarrow> string list \<Rightarrow> string list" where
  "toggled env host current =
     (if host \<in> set current then filter (\<lambda>value. value \<noteq> host) current
      else sortedUniqueHosts (localeCompare env) (current @ [host]))"

definition toggleHost :: "host_env \<Rightarrow> string \<Rightarrow> app \<Rightarrow> app" where
  "toggleHost env host s =
     s\<lparr>page := 0, selectedHosts := toggled env host (selectedHosts s),
       hostsIdentity := Suc (hostsIdentity s)\<rparr>"

definition onSwitchLive :: "bool \<Rightarrow> app \<Rightarrow> app" where
  "onSwitchLive checked s = (if \<not> liveDisabled s then s\<lparr>autoRefresh := checked\<rparr> else s)"

definition onToggleLive :: "app \<Rightarrow> app" where
  "onToggleLive s = (if \<not> liveDisabled s then s\<lparr>autoRefresh := \<not> autoRefresh s\<rparr> else s)"

definition previousPage :: "app \<Rightarrow> app" where
  "previousPage s = s\<lparr>page := max 0 (page s - 1)\<rparr>"

definition nextPage :: "app \<Rightarrow> app" where
  "nextPage s = s\<lparr>page := page s + 1\<rparr>"

text \<open>The values of the page-size menu; \<open>Number\<close> of such a value is the number it spells.\<close>

definition page_size_values :: "string list" where
  "page_size_values = [''25'', ''50'', ''100'', ''250'', ''500'', ''auto'']"

definition selectPageSize :: "string \<Rightarrow> app \<Rightarrow> app" where
  "selectPageSize val s =
     s\<lparr>pageSizeSetting := (if val = ''auto'' then Auto else Rows (int (undec val))), page := 0\<rparr>"

definition clickRefresh :: "app \<Rightarrow> app" where
  "clickRefresh s = start_refresh False (refresh_params s) s"

definition handleExport :: "host_env \<Rightarrow> int \<Rightarrow> app \<Rightarrow> app" where
  "handleExport env now s =
     (if messages s = [] then s
      else s\<lparr>downloads := downloads s @ [(export_name (isoText env now), export_body (messages s))]\<rparr>)"

definition handleSendTestEvent :: "app \<Rightarrow> app" where
  "handleSendTestEvent s = s\<lparr>sendingTest := True, errorText := None, noticeText := None\<rparr>"

definition handleTestNotification :: "app \<Rightarrow> app" where
  "handleTestNotification s = s\<lparr>sendingNotification := True, notificationResult := None\<rparr>"

definition handleImportFile :: "upload option \<Rightarrow> app \<Rightarrow> app" where
  "handleImportFile chosen s =
     (case chosen of
        None \<Rightarrow> s
      | Some f \<Rightarrow>
          s\<lparr>importing := True, errorText := None, noticeText := None,
            importCalls := importCalls s @ [\<lparr>imp_id = nextId s, imp_page = page s, imp_params = refresh_params s\<rparr>],
            nextId := Suc (nextId s)\<rparr>)"

section \<open>Timers and the window\<close>

definition debounceFires :: "app \<Rightarrow> app" where
  "debounceFires s =
     (case debounce s of
        None \<Rightarrow> s
      | Some value \<Rightarrow> s\<lparr>filterText := value, page := 0, debounce := None\<rparr>)"

text \<open>\<open>updateSize\<close>, called again on a resize and once 100 ms after the effect ran.\<close>

definition updateSize :: "host_env \<Rightarrow> app \<Rightarrow> app" where
  "updateSize env s = (if fitListening s then s\<lparr>calculatedLimit := fit_count (layoutOf env s)\<rparr> else s)"

definition handlePopState :: "string \<Rightarrow> app \<Rightarrow> app" where
  "handlePopState pathname s = s\<lparr>route := pathname\<rparr>"

definition incidentTick :: "app \<Rightarrow> app" where
  "incidentTick s = s\<lparr>incidentRequests := Suc (incidentRequests s)\<rparr>"

section \<open>Ends of calls\<close>

definition refreshDone :: "host_env \<Rightarrow> int \<Rightarrow> nat \<Rightarrow> js_error + MessagesResponse \<Rightarrow> app \<Rightarrow> app" where
  "refreshDone env now i out s =
     (case find (\<lambda>q. req_id q = i) (requests s) of
        None \<Rightarrow> s
      | Some q \<Rightarrow> finish_refresh env now q out (s\<lparr>requests := filter (\<lambda>q. req_id q \<noteq> i) (requests s)\<rparr>))"

definition testEventDone :: "js_error + unit \<Rightarrow> app \<Rightarrow> app" where
  "testEventDone out s =
     (case out of
        Inr _ \<Rightarrow> s
      | Inl err \<Rightarrow> s\<lparr>errorText := Some (error_message ''Request failed'' err)\<rparr>)\<lparr>sendingTest := False\<rparr>"

definition notificationDone :: "js_error + unit \<Rightarrow> app \<Rightarrow> app" where
  "notificationDone out s =
     s\<lparr>notificationResult :=
         Some (case out of
                 Inr _ \<Rightarrow> Passed ''Test notification sent.''
               | Inl err \<Rightarrow> Failed (error_message ''Test notification failed'' err)),
       sendingNotification := False\<rparr>"

definition import_notice :: "ImportMessagesResponse \<Rightarrow> string" where
  "import_notice r =
     ''Imported '' @ dec (imported r) @ '' messages, skipped '' @ dec (skipped r) @ '' blank lines''"

definition importDone :: "nat \<Rightarrow> js_error + ImportMessagesResponse \<Rightarrow> app \<Rightarrow> app" where
  "importDone i out s =
     (case find (\<lambda>c. imp_id c = i) (importCalls s) of
        None \<Rightarrow> s
      | Some c \<Rightarrow>
          let s = s\<lparr>importCalls := filter (\<lambda>c. imp_id c \<noteq> i) (importCalls s)\<rparr>;
              s = (case out of
                     Inr resp \<Rightarrow>
                       let s = s\<lparr>noticeText := Some (import_notice resp)\<rparr>
                       in if imp_page c = 0 then start_refresh False (imp_params c) s else s\<lparr>page := 0\<rparr>
                   | Inl err \<Rightarrow> s\<lparr>errorText := Some (error_message ''Request failed'' err)\<rparr>)
          in s\<lparr>importing := False\<rparr>)"

type_synonym incident_answers =
  "IncidentsResponse \<times> IncidentsResponse \<times> IncidentsResponse \<times> IncidentHealth"

text \<open>
  \<open>Promise.all\<close> over the four calls of \<open>refreshIncidents\<close>: the rejection that came first, by
  the order in which the calls ended, or the four values.
\<close>

definition refreshIncidents_requests :: "http_request list" where
  "refreshIncidents_requests =
     [listIncidents_request Only_pending_failure, listIncidents_request Only_active,
      listIncidents_request Only_resolved, getIncidentHealth_request]"

definition rejection :: "js_error + 'a \<Rightarrow> js_error option" where
  "rejection out = (case out of Inl e \<Rightarrow> Some e | Inr _ \<Rightarrow> None)"

definition promise_all ::
  "nat list \<Rightarrow> js_error + IncidentsResponse \<Rightarrow> js_error + IncidentsResponse
   \<Rightarrow> js_error + IncidentsResponse \<Rightarrow> js_error + IncidentHealth \<Rightarrow> js_error + incident_answers" where
  "promise_all ended p a r h =
     (let errors = [rejection p, rejection a, rejection r, rejection h];
          in_order = map (\<lambda>i. errors ! i) (filter (\<lambda>i. i < 4) ended)
      in case find (\<lambda>x. x \<noteq> None) (in_order @ errors) of
           Some (Some e) \<Rightarrow> Inl e
         | _ \<Rightarrow> Inr (projr p, projr a, projr r, projr h))"

definition refreshIncidentsDone :: "js_error + incident_answers \<Rightarrow> app \<Rightarrow> app" where
  "refreshIncidentsDone out s =
     (let s = s\<lparr>incidentRequests := incidentRequests s - 1\<rparr>
      in case out of
           Inr (pend, act, res, health) \<Rightarrow>
             s\<lparr>incidents := incidents_data pend @ incidents_data act @ incidents_data res,
               incidentHealth := Some health, incidentLoadError := None\<rparr>
         | Inl err \<Rightarrow>
             if is_abort err then s
             else s\<lparr>incidentLoadError := Some (error_message ''Incident refresh failed'' err)\<rparr>)"

definition buildIdDone :: "js_error + string \<Rightarrow> app \<Rightarrow> app" where
  "buildIdDone out s = (case out of Inr b \<Rightarrow> s\<lparr>buildId := b\<rparr> | Inl _ \<Rightarrow> s)"

section \<open>The event source\<close>

definition host_or_empty :: "SyslogMessage \<Rightarrow> string" where
  "host_or_empty m = (case hostname m of None \<Rightarrow> [] | Some h \<Rightarrow> h)"

text \<open>\<open>handleMessage\<close>: the payload is the parsed event, absent when it is not JSON.\<close>

definition handleMessage ::
  "host_env \<Rightarrow> int \<Rightarrow> live_stream \<Rightarrow> SyslogMessage option \<Rightarrow> app \<Rightarrow> app" where
  "handleMessage env now st payload s =
     (case payload of
        None \<Rightarrow> s\<lparr>errorText := Some ''Received an invalid live message event''\<rparr>
      | Some m \<Rightarrow>
          let s = s\<lparr>knownHosts := sortedUniqueHosts (localeCompare env) (knownHosts s @ [host_or_empty m]),
                    lastUpdated := Some now\<rparr>
          in if strm_hosts st \<noteq> [] \<and> host_or_empty m \<notin> set (strm_hosts st) then s
             else let nxt = nextMessages (dateParse env) (strm_limit st) m (messagesRef s);
                      full = strm_limit st < int (length (merged (dateParse env) m (messagesRef s)))
                  in s\<lparr>messagesRef := nxt, messages := nxt,
                       hasMore := (if full then True else hasMore s)\<rparr>)"

definition stream_failed :: string where
  "stream_failed =
     ''Live updates disabled because the SSE connection failed. Use Refresh for manual updates.''"

definition handleError :: "app \<Rightarrow> app" where
  "handleError s =
     s\<lparr>autoRefresh := False, liveUnavailable := True, errorText := Some stream_failed, stream := None\<rparr>"

section \<open>Events\<close>

datatype event =
    FilterInput string
  | Evidence string
  | HostMenu
  | ClearHosts
  | ToggleHost string
  | SwitchLive bool
  | ToggleLive
  | PreviousPage
  | NextPage
  | SelectPageSize string
  | ClickRefresh
  | Export int
  | SendTestEvent
  | TestNotification
  | ImportFile "upload option"
  | Navigate string
  | DebounceFires
  | Resized
  | PopState string
  | IncidentTick
  | RefreshDone int nat "MessagesResponse fetch_outcome"
  | TestEventDone "unit fetch_outcome"
  | NotificationDone "unit fetch_outcome"
  | ImportDone nat "ImportMessagesResponse fetch_outcome"
  | IncidentsDone "nat list" "IncidentsResponse fetch_outcome" "IncidentsResponse fetch_outcome"
      "IncidentsResponse fetch_outcome" "IncidentHealth fetch_outcome"
  | BuildIdDone "string option fetch_outcome"
  | StreamMessage int "SyslogMessage option"
  | StreamError

fun handle :: "host_env \<Rightarrow> event \<Rightarrow> app \<Rightarrow> app" where
  "handle env (FilterInput v) s = onFilterInput v s"
| "handle env (Evidence i) s = onEvidence i s"
| "handle env HostMenu s = toggleHostMenu s"
| "handle env ClearHosts s = clearHosts s"
| "handle env (ToggleHost h) s = toggleHost env h s"
| "handle env (SwitchLive b) s = onSwitchLive b s"
| "handle env ToggleLive s = onToggleLive s"
| "handle env PreviousPage s = previousPage s"
| "handle env NextPage s = nextPage s"
| "handle env (SelectPageSize v) s = selectPageSize v s"
| "handle env ClickRefresh s = clickRefresh s"
| "handle env (Export now) s = handleExport env now s"
| "handle env SendTestEvent s = handleSendTestEvent s"
| "handle env TestNotification s = handleTestNotification s"
| "handle env (ImportFile f) s = handleImportFile f s"
| "handle env (Navigate p) s = navigate p s"
| "handle env DebounceFires s = debounceFires s"
| "handle env Resized s = updateSize env s"
| "handle env (PopState p) s = handlePopState p s"
| "handle env IncidentTick s = incidentTick s"
| "handle env (RefreshDone now i out) s =
     refreshDone env now i (settle_with listMessages_response out) s"
| "handle env (TestEventDone out) s = testEventDone (settle_with sendTestEvent_response out) s"
| "handle env (NotificationDone out) s =
     notificationDone (settle_with sendTestNotification_response out) s"
| "handle env (ImportDone i out) s = importDone i (settle_with importMessages_response out) s"
| "handle env (IncidentsDone ended p a r h) s =
     refreshIncidentsDone
       (promise_all ended (settle_with checkedJSON p) (settle_with checkedJSON a)
          (settle_with checkedJSON r) (settle_with checkedJSON h)) s"
| "handle env (BuildIdDone out) s = buildIdDone (settle_with fetchBuildID_response out) s"
| "handle env (StreamMessage now payload) s =
     (case stream s of None \<Rightarrow> s | Some st \<Rightarrow> handleMessage env now st payload s)"
| "handle env StreamError s = (case stream s of None \<Rightarrow> s | Some _ \<Rightarrow> handleError s)"

definition app_step :: "host_env \<Rightarrow> event \<Rightarrow> app \<Rightarrow> app" where
  "app_step env e s = settle env (handle env e s)"

text \<open>The page is opened: the first render and its effects.\<close>

definition mount :: "host_env \<Rightarrow> (string \<rightharpoonup> string) \<Rightarrow> string \<Rightarrow> app" where
  "mount env st path = settle env (initial st path)"

end
