(* ===== verification/App_View.thy ===== *)
theory App_View
  imports App_Handlers
begin

text \<open>
  What \<open>App\<close> renders: the texts, the flags of the controls, and the rows of the tables, as
  functions of the state; and which events a rendered page offers (\<open>enabled\<close>).
\<close>

definition present :: "string option \<Rightarrow> bool" where
  "present v \<longleftrightarrow> v \<noteq> None \<and> v \<noteq> Some []"

definition text_of :: "string option \<Rightarrow> string" where
  "text_of v = (case v of None \<Rightarrow> [] | Some t \<Rightarrow> t)"

definition plural :: "int \<Rightarrow> string" where
  "plural n = (if n = 1 then [] else ''s'')"

definition dash :: string where
  "dash = [CHR 0xE2, CHR 0x80, CHR 0x94]"

definition middle_dot :: string where
  "middle_dot = [CHR 0xC2, CHR 0xB7]"

section \<open>Incidents\<close>

fun stateLabel :: "incident_state \<Rightarrow> string" where
  "stateLabel pending_failure = ''Confirming failure''"
| "stateLabel pending_recovery = ''Confirming recovery''"
| "stateLabel active = ''Outage active''"
| "stateLabel resolved = ''Resolved''"

text \<open>\<open>now\<close> is \<open>Date.now()\<close>. A missing or empty end counts as now.\<close>

definition durationBetween :: "(string \<Rightarrow> int option) \<Rightarrow> int \<Rightarrow> string \<Rightarrow> string option \<Rightarrow> string" where
  "durationBetween dp now start end_text =
     (case (if present end_text then dp (text_of end_text) else Some now, dp start) of
        (Some e, Some b) \<Rightarrow>
          let milliseconds = e - b; minutes = milliseconds div 60000; hours = minutes div 60
          in if milliseconds < 0 then []
             else if hours > 0 then dec hours @ ''h '' @ dec (minutes mod 60) @ ''m''
             else dec minutes @ ''m''
      | _ \<Rightarrow> [])"

definition deliveryLabel :: "Incident \<Rightarrow> string" where
  "deliveryLabel i =
     (if list_ex (\<lambda>d. present (last_error d) \<and> \<not> present (sent_at d)) (deliveries i) then ''Delivery failed''
      else if list_ex (\<lambda>d. \<not> present (sent_at d)) (deliveries i) then ''Delivery pending''
      else if length (deliveries i) > 0 then ''Delivered''
      else ''No notification'')"

definition pendingIncidents :: "app \<Rightarrow> Incident list" where
  "pendingIncidents s = filter (\<lambda>i. state i = pending_failure) (incidents s)"

definition activeIncidents :: "app \<Rightarrow> Incident list" where
  "activeIncidents s = filter (\<lambda>i. state i = active \<or> state i = pending_recovery) (incidents s)"

definition resolvedIncidents :: "app \<Rightarrow> Incident list" where
  "resolvedIncidents s = filter (\<lambda>i. state i = resolved) (incidents s)"

definition currentIncidents :: "app \<Rightarrow> Incident list" where
  "currentIncidents s = activeIncidents s @ pendingIncidents s"

definition showingIncidents :: "app \<Rightarrow> bool" where
  "showingIncidents s \<longleftrightarrow> route s = ''/incidents''"

text \<open>One row of \<open>IncidentTable\<close>; the evidence button is disabled without evidence.\<close>

record incident_row =
  cell_host :: string
  cell_interface :: string
  cell_state :: string
  cell_detected :: string
  cell_confirmed :: string
  cell_recovered :: string
  cell_duration :: string
  cell_notification :: string
  cell_evidence :: string
  evidence_disabled :: bool

definition incident_row_of ::
  "(string \<Rightarrow> int option) \<Rightarrow> (int \<Rightarrow> string) \<Rightarrow> int \<Rightarrow> Incident \<Rightarrow> incident_row" where
  "incident_row_of dp ls now i =
     \<lparr>cell_host = incident_hostname i, cell_interface = interface i, cell_state = stateLabel (state i),
      cell_detected = formatDate dp ls (Some (started_at i)),
      cell_confirmed = (if present (activated_at i) then formatDate dp ls (activated_at i) else dash),
      cell_recovered = (if present (resolved_at i) then formatDate dp ls (resolved_at i) else dash),
      cell_duration = durationBetween dp now (started_at i) (resolved_at i),
      cell_notification = deliveryLabel i,
      cell_evidence =
        dec (int (length (evidence_ids i))) @ '' event'' @ plural (int (length (evidence_ids i))),
      evidence_disabled = (length (evidence_ids i) = 0)\<rparr>"

text \<open>The head of the incidents page.\<close>

definition analysis_healthy :: "app \<Rightarrow> bool" where
  "analysis_healthy s =
     (case incidentHealth s of
        None \<Rightarrow> False
      | Some h \<Rightarrow> running h \<and> \<not> stale h \<and> \<not> present (health_error h))"

definition analysis_status :: "app \<Rightarrow> string" where
  "analysis_status s =
     (if present (incidentLoadError s) then ''Incident status unavailable''
      else (case incidentHealth s of
              None \<Rightarrow> ''Incident analysis is stopped''
            | Some h \<Rightarrow>
                if present (health_error h) then ''Incident analysis failed''
                else if stale h then ''Incident analysis is stale''
                else if running h then ''Incident analysis is healthy''
                else ''Incident analysis is stopped''))"

definition queued_text :: "IncidentHealth option \<Rightarrow> string" where
  "queued_text h =
     (case h of
        None \<Rightarrow> ''0 notifications queued''
      | Some h \<Rightarrow> dec (pending_jobs h) @ '' notification'' @ plural (pending_jobs h) @ '' queued'')"

definition analysis_detail :: "app \<Rightarrow> string" where
  "analysis_detail s =
     (if present (incidentLoadError s) then text_of (incidentLoadError s)
      else (case incidentHealth s of
              Some h \<Rightarrow> if present (health_error h) then text_of (health_error h)
                        else queued_text (incidentHealth s)
            | None \<Rightarrow> queued_text (incidentHealth s)))"

record incidents_page =
  page_status :: string
  page_healthy :: bool
  page_detail :: string
  page_result :: "(string \<times> string) option"
  current_badge :: "int \<times> bool"
  current_rows :: "incident_row list"
  history_badge :: int
  history_rows :: "incident_row list"

definition incidents_page_of ::
  "(string \<Rightarrow> int option) \<Rightarrow> (int \<Rightarrow> string) \<Rightarrow> int \<Rightarrow> app \<Rightarrow> incidents_page" where
  "incidents_page_of dp ls now s =
     \<lparr>page_status = analysis_status s, page_healthy = analysis_healthy s, page_detail = analysis_detail s,
      page_result = map_option (\<lambda>r. case r of
          Passed m \<Rightarrow> (''Notification test passed'', m)
        | Failed m \<Rightarrow> (''Notification test failed'', m)) (notificationResult s),
      current_badge = (int (length (currentIncidents s)), length (currentIncidents s) > 0),
      current_rows = map (incident_row_of dp ls now) (currentIncidents s),
      history_badge = int (length (resolvedIncidents s)),
      history_rows = map (incident_row_of dp ls now) (resolvedIncidents s)\<rparr>"

text \<open>The summary above the message table.\<close>

definition summary_title :: "app \<Rightarrow> string" where
  "summary_title s =
     (let n = int (length (currentIncidents s))
      in if present (incidentLoadError s) then ''Connectivity status unavailable''
         else if n > 0 then dec n @ '' current connectivity incident'' @ plural n
         else ''Primary WAN and monitored backups are healthy'')"

definition summary_detail :: "app \<Rightarrow> string" where
  "summary_detail s =
     (if present (incidentLoadError s) then ''Open the incidents page for the error details.''
      else if length (currentIncidents s) > 0 then ''Current outage status from the incident analyser.''
      else ''No outage is active or being confirmed.'')"

definition summary_row :: "(string \<Rightarrow> int option) \<Rightarrow> (int \<Rightarrow> string) \<Rightarrow> int \<Rightarrow> Incident \<Rightarrow> string list" where
  "summary_row dp ls now i =
     [incident_hostname i @ '' '' @ middle_dot @ '' '' @ interface i, stateLabel (state i),
      ''Detected '' @ formatDate dp ls (Some (started_at i)),
      durationBetween dp now (started_at i) (resolved_at i)]"

section \<open>Messages\<close>

definition latestReceived :: "(string \<Rightarrow> int option) \<Rightarrow> (int \<Rightarrow> string) \<Rightarrow> app \<Rightarrow> string" where
  "latestReceived dp ls s =
     (case messages s of [] \<Rightarrow> [] | m # _ \<Rightarrow> formatDate dp ls (Some (received_at m)))"

text \<open>The top bar: the latest message's time, the build, which page is marked, the last update
  (\<open>lt\<close> is \<open>Date.prototype.toLocaleTimeString\<close>).\<close>

record top_bar =
  bar_latest :: string
  bar_build :: "string option"
  bar_incidents :: bool
  bar_updated :: string

definition top_bar_of ::
  "(string \<Rightarrow> int option) \<Rightarrow> (int \<Rightarrow> string) \<Rightarrow> (int \<Rightarrow> string) \<Rightarrow> app \<Rightarrow> top_bar" where
  "top_bar_of dp ls lt s =
     \<lparr>bar_latest = (if latestReceived dp ls s \<noteq> [] then latestReceived dp ls s else ''No messages received''),
      bar_build = (if buildId s \<noteq> [] then Some (''Build: '' @ buildId s) else None),
      bar_incidents = showingIncidents s,
      bar_updated = (case lastUpdated s of None \<Rightarrow> [] | Some t \<Rightarrow> lt t)\<rparr>"

definition message_row :: "(string \<Rightarrow> int option) \<Rightarrow> (int \<Rightarrow> string) \<Rightarrow> SyslogMessage \<Rightarrow> string list" where
  "message_row dp ls m =
     [formatDate dp ls (Some (received_at m)), formatDate dp ls (timestamp m), text_of (hostname m),
      text_of (app_name m), text_of (proc_id m), text_of (msg_id m), numberText (facility m),
      numberText (severity m), numberText (priority m), text_of (tag m), text_of (source m),
      text_of (transport m), formatJSON (structured_data m), text_of (message m)]"

definition table_rows :: "(string \<Rightarrow> int option) \<Rightarrow> (int \<Rightarrow> string) \<Rightarrow> app \<Rightarrow> string list list" where
  "table_rows dp ls s =
     map (message_row dp ls) (messages s) @ (if messages s = [] then [[''No matching messages'']] else [])"

definition hostOptions :: "host_env \<Rightarrow> app \<Rightarrow> string list" where
  "hostOptions env s = sortedUniqueHosts (localeCompare env) (knownHosts s @ selectedHosts s)"

definition liveTitle :: "app \<Rightarrow> string" where
  "liveTitle s =
     (if liveUnavailable s then ''Live updates unavailable''
      else if page s \<noteq> 0 then ''Live updates are only available on page 1''
      else if autoRefresh s then ''Pause live updates''
      else ''Resume live updates'')"

text \<open>The toolbar. The open host menu lists its options with their check marks, first "All hosts".\<close>

record toolbar =
  host_button :: string
  host_menu :: "(string \<times> bool) list option"
  no_hosts :: bool
  filter_value :: string
  live_checked :: bool
  live_disabled :: bool
  test_disabled :: bool
  export_disabled :: bool
  import_disabled :: bool
  previous_disabled :: bool
  page_label :: string
  next_disabled :: bool
  size_value :: string
  live_title :: string
  shows_pause :: bool
  error_banner :: "string option"
  notice_banner :: "string option"

definition toolbar_of :: "host_env \<Rightarrow> app \<Rightarrow> toolbar" where
  "toolbar_of env s =
     \<lparr>host_button = hostLabel (selectedHosts s),
      host_menu =
        (if hostMenuOpen s
         then Some ((''All hosts'', length (selectedHosts s) = 0)
                    # map (\<lambda>h. (h, h \<in> set (selectedHosts s))) (hostOptions env s))
         else None),
      no_hosts = (hostMenuOpen s \<and> length (hostOptions env s) = 0),
      filter_value = filterInput s,
      live_checked = (autoRefresh s \<and> \<not> liveDisabled s), live_disabled = liveDisabled s,
      test_disabled = sendingTest s, export_disabled = (length (messages s) = 0),
      import_disabled = importing s, previous_disabled = (page s = 0),
      page_label = ''Page '' @ dec (page s + 1), next_disabled = (\<not> hasMore s),
      size_value = page_size_text (pageSizeSetting s), live_title = liveTitle s,
      shows_pause = (autoRefresh s \<and> \<not> liveDisabled s),
      error_banner = (if present (errorText s) then errorText s else None),
      notice_banner = (if present (noticeText s) then noticeText s else None)\<rparr>"

section \<open>What can happen next\<close>

text \<open>
  A user action is possible when its control is on the page and not disabled; a timer when it
  is set; the end of a call when the call is in flight.
\<close>

definition enabled :: "host_env \<Rightarrow> app \<Rightarrow> event \<Rightarrow> bool" where
  "enabled env s e =
     (let bar = toolbar_of env s; timeline = \<not> showingIncidents s
      in case e of
           FilterInput v \<Rightarrow> timeline
         | Evidence i \<Rightarrow> showingIncidents s \<and>
             list_ex (\<lambda>x. evidence_ids x \<noteq> [] \<and> i = hd (evidence_ids x)) (currentIncidents s @ resolvedIncidents s)
         | HostMenu \<Rightarrow> timeline
         | ClearHosts \<Rightarrow> timeline \<and> hostMenuOpen s
         | ToggleHost h \<Rightarrow> timeline \<and> hostMenuOpen s \<and> h \<in> set (hostOptions env s)
         | SwitchLive b \<Rightarrow> timeline \<and> \<not> live_disabled bar \<and> b \<noteq> live_checked bar
         | ToggleLive \<Rightarrow> timeline \<and> \<not> live_disabled bar
         | PreviousPage \<Rightarrow> timeline \<and> \<not> previous_disabled bar
         | NextPage \<Rightarrow> timeline \<and> \<not> next_disabled bar
         | SelectPageSize v \<Rightarrow> timeline \<and> v \<in> set page_size_values
         | ClickRefresh \<Rightarrow> timeline
         | Export now \<Rightarrow> timeline \<and> \<not> export_disabled bar
         | SendTestEvent \<Rightarrow> timeline \<and> \<not> test_disabled bar
         | TestNotification \<Rightarrow> showingIncidents s \<and> \<not> sendingNotification s
         | ImportFile f \<Rightarrow> timeline \<and> \<not> import_disabled bar
         | Navigate p \<Rightarrow> p = ''/'' \<or> p = ''/incidents''
         | DebounceFires \<Rightarrow> debounce s \<noteq> None
         | Resized \<Rightarrow> fitListening s
         | PopState p \<Rightarrow> True
         | IncidentTick \<Rightarrow> True
         | RefreshDone now i out \<Rightarrow> i \<in> set (map req_id (requests s))
         | TestEventDone out \<Rightarrow> sendingTest s
         | NotificationDone out \<Rightarrow> sendingNotification s
         | ImportDone i out \<Rightarrow> i \<in> set (map imp_id (importCalls s))
         | IncidentsDone ended p a r h \<Rightarrow> incidentRequests s > 0
         | BuildIdDone out \<Rightarrow> True
         | StreamMessage now payload \<Rightarrow> stream s \<noteq> None
         | StreamError \<Rightarrow> stream s \<noteq> None)"

end
