(* ===== verification/Machine.thy ===== *)
theory Machine
  imports "HOL-Library.While_Combinator"
begin

text \<open>
  Machines: the states a machine reaches by allowed events, invariants of them, and loops
  that run a body until the state is quiet. The components interpret the two locales with
  their own states and steps.
\<close>

section \<open>Reachable states\<close>

inductive reach :: "('s \<Rightarrow> bool) \<Rightarrow> ('e \<Rightarrow> 's \<Rightarrow> 's) \<Rightarrow> ('s \<Rightarrow> 'e \<Rightarrow> bool) \<Rightarrow> 's \<Rightarrow> bool"
  for start step allowed where
  start: "start s \<Longrightarrow> reach start step allowed s"
| step: "reach start step allowed s \<Longrightarrow> allowed s e \<Longrightarrow> reach start step allowed (step e s)"

text \<open>A run of events, each allowed where it happens.\<close>

fun run :: "('e \<Rightarrow> 's \<Rightarrow> 's) \<Rightarrow> 'e list \<Rightarrow> 's \<Rightarrow> 's" where
  "run step [] s = s"
| "run step (e # es) s = run step es (step e s)"

fun allowed_run :: "('e \<Rightarrow> 's \<Rightarrow> 's) \<Rightarrow> ('s \<Rightarrow> 'e \<Rightarrow> bool) \<Rightarrow> 'e list \<Rightarrow> 's \<Rightarrow> bool" where
  "allowed_run step allowed [] s = True"
| "allowed_run step allowed (e # es) s = (allowed s e \<and> allowed_run step allowed es (step e s))"

lemma reach_run:
  "reach start step allowed s \<Longrightarrow> allowed_run step allowed es s \<Longrightarrow> reach start step allowed (run step es s)"
  by (induction es arbitrary: s) (auto intro: reach.step)

lemma allowed_run_split:
  "allowed_run step (\<lambda>s e. P e \<and> Q s e) es s \<longleftrightarrow> list_all P es \<and> allowed_run step Q es s"
  by (induction es arbitrary: s) auto

lemma run_append: "run step (es @ fs) s = run step fs (run step es s)"
  by (induction es arbitrary: s) auto

locale invariant_machine =
  fixes start :: "'s \<Rightarrow> bool" and step :: "'e \<Rightarrow> 's \<Rightarrow> 's" and allowed :: "'s \<Rightarrow> 'e \<Rightarrow> bool"
    and inv :: "'s \<Rightarrow> bool"
  assumes inv_start: "start s \<Longrightarrow> inv s"
    and inv_step: "inv s \<Longrightarrow> allowed s e \<Longrightarrow> inv (step e s)"
begin

lemma reach_inv: "reach start step allowed s \<Longrightarrow> inv s"
  by (induction rule: reach.induct) (auto intro: inv_start inv_step)

lemma run_inv: "inv s \<Longrightarrow> allowed_run step allowed es s \<Longrightarrow> inv (run step es s)"
  by (induction es arbitrary: s) (auto intro: inv_step)

end

section \<open>Loops that run until quiet\<close>

locale quiet_loop =
  fixes quiet :: "'s \<Rightarrow> bool" and body :: "'s \<Rightarrow> 's"
  assumes idle: "quiet s \<Longrightarrow> body s = s"
begin

lemma idle_pow: "quiet s \<Longrightarrow> (body ^^ n) s = s"
  by (induction n) (simp_all add: idle)

lemma loop_result:
  "quiet ((body ^^ n) s) \<Longrightarrow> while_option (\<lambda>s. \<not> quiet s) body s = Some ((body ^^ n) s)"
proof (induction n arbitrary: s)
  case 0
  then show ?case by (simp add: while_option_unfold)
next
  case (Suc n)
  show ?case
  proof (cases "quiet s")
    case True
    then show ?thesis using idle_pow[OF True, of "Suc n"] by (simp add: while_option_unfold del: funpow.simps)
  next
    case False
    have "(body ^^ Suc n) s = (body ^^ n) (body s)" by (simp add: funpow_swap1)
    with Suc.IH[of "body s"] Suc.prems False show ?thesis by (simp add: while_option_unfold[of _ _ s] del: funpow.simps)
  qed
qed

lemma quiet_later: "quiet ((body ^^ n) s) \<Longrightarrow> (body ^^ (n + m)) s = (body ^^ n) s"
  by (subst add.commute) (simp add: funpow_add idle_pow)

end

end
