(* ===== verification/App_Effects.thy ===== *)
theory App_Effects
  imports App_Handlers Machine
begin

text \<open>
  The effect loop: what one round leaves alone, what it changes, and that four rounds leave no
  effect to run, whatever the state, the page's geometry and the collation.
\<close>

named_theorems effects \<open>unfolds one round of effects\<close>

lemmas effect_defs [effects] =
  run_effects_def effect_storage_def effect_fit_def effect_debounce_def effect_refresh_def
  effect_live_off_def effect_stream_def start_refresh_def Let_def

lemma effects_frame [simp]:
  "messages (run_effects env r) = messages r"
  "messagesRef (run_effects env r) = messagesRef r"
  "filterInput (run_effects env r) = filterInput r"
  "filterText (run_effects env r) = filterText r"
  "validatedFilter (run_effects env r) = validatedFilter r"
  "selectedHosts (run_effects env r) = selectedHosts r"
  "knownHosts (run_effects env r) = knownHosts r"
  "hostsIdentity (run_effects env r) = hostsIdentity r"
  "page (run_effects env r) = page r"
  "hasMore (run_effects env r) = hasMore r"
  "liveUnavailable (run_effects env r) = liveUnavailable r"
  "noticeText (run_effects env r) = noticeText r"
  "pageSizeSetting (run_effects env r) = pageSizeSetting r"
  "importCalls (run_effects env r) = importCalls r"
  "route (run_effects env r) = route r"
  "incidents (run_effects env r) = incidents r"
  by (simp_all add: effects split: page_size.splits)

lemma committed_run_effects [simp]: "committed (run_effects env r) = Some (dependencies_of r)"
  by (simp add: effects)

abbreviation fit_deps :: "dependencies \<Rightarrow> page_size \<times> string \<times> string" where
  "fit_deps d \<equiv> (dep_size d, dep_error d, dep_notice d)"

abbreviation refresh_deps :: "dependencies \<Rightarrow> string \<times> int \<times> nat \<times> int" where
  "refresh_deps d \<equiv> (dep_filter d, dep_offset d, dep_hosts d, dep_limit d)"

abbreviation live_deps :: "dependencies \<Rightarrow> bool \<times> bool" where
  "live_deps d \<equiv> (dep_auto d, dep_page d \<noteq> 0 \<or> dep_unavailable d)"

abbreviation stream_deps ::
  "dependencies \<Rightarrow> bool \<times> string option \<times> string \<times> bool \<times> int \<times> nat \<times> int" where
  "stream_deps d \<equiv> (dep_auto d, dep_validated d, dep_filter d, dep_unavailable d, dep_page d,
                      dep_hosts d, dep_limit d)"

definition fitted :: "host_env \<Rightarrow> app \<Rightarrow> int" where
  "fitted env r = (case pageSizeSetting r of Rows n \<Rightarrow> n | Auto \<Rightarrow> fit_count (layoutOf env r))"

definition wanted_stream :: "app \<Rightarrow> live_stream option" where
  "wanted_stream r =
     (if autoRefresh r \<and> page r = 0 \<and> \<not> liveUnavailable r \<and> validatedFilter r = Some (filterText r)
      then Some \<lparr>strm_filter = filterText r, strm_hosts = selectedHosts r, strm_limit = calculatedLimit r\<rparr>
      else None)"

lemma effects_changes [simp]:
  "calculatedLimit (run_effects env r) = (if changed r fit_deps then fitted env r else calculatedLimit r)"
  "fitListening (run_effects env r) =
     (if changed r fit_deps then pageSizeSetting r = Auto else fitListening r)"
  "errorText (run_effects env r) = (if changed r refresh_deps then None else errorText r)"
  "autoRefresh (run_effects env r) =
     (if changed r live_deps \<and> liveDisabled r then False else autoRefresh r)"
  "stream (run_effects env r) = (if changed r stream_deps then wanted_stream r else stream r)"
  "debounce (run_effects env r) = (if changed r dep_input then Some (filterInput r) else debounce r)"
  "storage (run_effects env r) =
     (if changed r dep_size then (storage r)(storageKey \<mapsto> page_size_text (pageSizeSetting r)) else storage r)"
  "requests (run_effects env r) =
     (if changed r refresh_deps
      then raise_signals (requests r) @
           [\<lparr>req_id = nextId r, req_params = refresh_params r, signalled = True, aborted = False\<rparr>]
      else requests r)"
  "nextId (run_effects env r) = (if changed r refresh_deps then Suc (nextId r) else nextId r)"
  "loading (run_effects env r) = (if changed r refresh_deps then True else loading r)"
  by (simp_all add: effects fitted_def wanted_stream_def split: page_size.splits)

lemma changed_quiet: "quiet s \<Longrightarrow> \<not> changed s f"
  by (simp add: quiet_def changed_def)

lemma run_effects_idle: "quiet s \<Longrightarrow> run_effects env s = s"
  by (simp add: run_effects_def effect_storage_def effect_fit_def effect_debounce_def
      effect_refresh_def effect_live_off_def effect_stream_def changed_quiet)
    (simp add: quiet_def)

lemma changed_run_effects:
  "changed (run_effects env r) f \<longleftrightarrow> f (dependencies_of r) \<noteq> f (dependencies_of (run_effects env r))"
  by (simp add: changed_def)

lemma dependencies_eq_iff:
  "dependencies_of s = dependencies_of t \<longleftrightarrow>
     pageSizeSetting s = pageSizeSetting t
   \<and> (case errorText s of None \<Rightarrow> [] | Some e \<Rightarrow> e) = (case errorText t of None \<Rightarrow> [] | Some e \<Rightarrow> e)
   \<and> (case noticeText s of None \<Rightarrow> [] | Some e \<Rightarrow> e) = (case noticeText t of None \<Rightarrow> [] | Some e \<Rightarrow> e)
   \<and> filterInput s = filterInput t \<and> filterText s = filterText t \<and> offsetOf s = offsetOf t
   \<and> hostsIdentity s = hostsIdentity t \<and> calculatedLimit s = calculatedLimit t
   \<and> autoRefresh s = autoRefresh t \<and> validatedFilter s = validatedFilter t
   \<and> liveUnavailable s = liveUnavailable t \<and> page s = page t"
  by (simp add: dependencies_of_def)

interpretation effect_loop: quiet_loop quiet "run_effects env" for env
  by unfold_locales (rule run_effects_idle)

text \<open>
  The limit may change in the first round, the error banner in the second (a new request clears
  it), the limit again in the third (the page has room for more rows), and then nothing.
\<close>

lemma settled: "quiet (settle env s)"
proof -
  define s1 where "s1 = run_effects env s"
  define s2 where "s2 = run_effects env s1"
  define s3 where "s3 = run_effects env s2"
  define s4 where "s4 = run_effects env s3"
  note defs = s1_def s2_def s3_def s4_def
  let ?e = "\<lambda>s. case errorText s of None \<Rightarrow> [] | Some e \<Rightarrow> e"
  have limits: "calculatedLimit (run_effects env (run_effects env r)) = calculatedLimit (run_effects env r)"
    if "?e r = ?e (run_effects env r)" for r
    using that by (auto simp: changed_run_effects dependencies_of_def)
  have errors: "?e (run_effects env (run_effects env r)) = ?e (run_effects env r)"
    if "calculatedLimit r = calculatedLimit (run_effects env r) \<or> ?e (run_effects env r) = []" for r
    using that by (auto simp: changed_run_effects dependencies_of_def)
  have cleared: "?e (run_effects env r) = ?e r \<or> ?e (run_effects env r) = []" for r
    by auto
  have autos: "autoRefresh (run_effects env (run_effects env r)) = autoRefresh (run_effects env r)" for r
    by (auto simp: changed_run_effects dependencies_of_def)
  have "calculatedLimit s4 = calculatedLimit s3 \<and> ?e s4 = ?e s3"
    using limits[of s] limits[of s1] limits[of s2] errors[of s] errors[of s1] errors[of s2]
      cleared[of s] cleared[of s1] cleared[of s2] cleared[of s3]
    unfolding defs[symmetric] by metis
  moreover have "autoRefresh s4 = autoRefresh s3"
    using autos[of s2] by (simp only: defs)
  ultimately have "dependencies_of s3 = dependencies_of s4"
    unfolding dependencies_eq_iff by (simp add: s4_def)
  then have "quiet s4" by (simp add: quiet_def s4_def)
  moreover have "settle env s = s4"
    by (simp add: settle_def defs eval_nat_numeral)
  ultimately show ?thesis by simp
qed

lemma settle_loop_settle: "settle_loop env s = Some (settle env s)"
  unfolding settle_loop_def settle_def
  by (rule effect_loop.loop_result) (simp add: settled[unfolded settle_def])

text \<open>The form in which a run evaluates.\<close>

lemma settle_code [code]:
  "settle env s = run_effects env (run_effects env (run_effects env (run_effects env s)))"
  by (simp add: settle_def eval_nat_numeral)

lemma settle_inv: "(\<And>r. P r \<Longrightarrow> P (run_effects env r)) \<Longrightarrow> P s \<Longrightarrow> P (settle env s)"
  by (simp add: settle_code)

end
