(* ===== verification/App_Invariants.thy ===== *)
theory App_Invariants
  imports App_View App_Effects
begin

text \<open>
  Invariants of the page. Each says what holds of a resource (the event source, the requests,
  the debounce timer, the page size, local storage) once the effects that manage it have
  run for the current values; it is kept by a round of effects and by every handler, so it
  holds of every state the page reaches.
\<close>

section \<open>The invariants and their preservation\<close>

named_theorems handlers \<open>unfolds the handlers\<close>

lemmas handler_defs [handlers] =
  navigate_def onFilterInput_def onEvidence_def toggleHostMenu_def clearHosts_def toggleHost_def
  onSwitchLive_def onToggleLive_def previousPage_def nextPage_def selectPageSize_def
  clickRefresh_def handleExport_def handleSendTestEvent_def handleTestNotification_def
  handleImportFile_def debounceFires_def updateSize_def handlePopState_def incidentTick_def
  refreshDone_def finish_refresh_def testEventDone_def notificationDone_def importDone_def
  refreshIncidentsDone_def buildIdDone_def handleMessage_def handleError_def start_refresh_def
  Let_def

lemma handle_committed [simp]: "committed (handle env e s) = committed s"
  by (cases e) (auto simp: handlers split: option.splits sum.splits)

lemma changed_handle:
  "quiet s \<Longrightarrow> changed (handle env e s) f \<longleftrightarrow> f (dependencies_of s) \<noteq> f (dependencies_of (handle env e s))"
  by (simp add: changed_def quiet_def)

definition live :: "request \<Rightarrow> bool" where
  "live q \<longleftrightarrow> signalled q \<and> \<not> aborted q"

definition stream_inv :: "app \<Rightarrow> bool" where
  "stream_inv s \<longleftrightarrow> (\<not> changed s stream_deps \<longrightarrow> stream s = wanted_stream s)"

lemma stream_inv_effects: "stream_inv s \<Longrightarrow> stream_inv (run_effects env s)"
  by (auto simp: stream_inv_def changed_run_effects dependencies_of_def wanted_stream_def)

lemma stream_inv_handle:
  assumes "quiet s" "stream_inv s"
  shows "stream_inv (handle env e s)"
proof -
  have "stream s = wanted_stream s"
    using assms by (simp add: stream_inv_def changed_quiet)
  then show ?thesis
    unfolding stream_inv_def changed_handle[OF assms(1)]
    by (cases e) (auto simp: handlers wanted_stream_def dependencies_of_def split: option.splits sum.splits)
qed


definition live_off_inv :: "app \<Rightarrow> bool" where
  "live_off_inv s \<longleftrightarrow> (\<not> changed s live_deps \<longrightarrow> \<not> (liveDisabled s \<and> autoRefresh s))"

definition debounce_inv :: "app \<Rightarrow> bool" where
  "debounce_inv s \<longleftrightarrow>
     (\<not> changed s dep_input \<longrightarrow>
        debounce s = Some (filterInput s) \<or> debounce s = None \<and> filterText s = filterInput s)"

definition fit_inv :: "app \<Rightarrow> bool" where
  "fit_inv s \<longleftrightarrow>
     (\<not> changed s fit_deps \<longrightarrow>
        (case pageSizeSetting s of
           Rows n \<Rightarrow> calculatedLimit s = n \<and> \<not> fitListening s
         | Auto \<Rightarrow> 10 \<le> calculatedLimit s \<and> fitListening s))"

definition storage_inv :: "app \<Rightarrow> bool" where
  "storage_inv s \<longleftrightarrow>
     (\<not> changed s dep_size \<longrightarrow> storage s storageKey = Some (page_size_text (pageSizeSetting s)))"

definition request_inv :: "app \<Rightarrow> bool" where
  "request_inv s \<longleftrightarrow>
     (\<not> changed s refresh_deps \<longrightarrow> (\<forall>q \<in> set (requests s). live q \<longrightarrow> req_params q = refresh_params s))
   \<and> length (filter live (requests s)) \<le> 1
   \<and> distinct (map req_id (requests s)) \<and> (\<forall>q \<in> set (requests s). req_id q < nextId s)"

definition plain_inv :: "app \<Rightarrow> bool" where
  "plain_inv s \<longleftrightarrow> messagesRef s = messages s \<and> 0 \<le> page s \<and> clean_hosts (selectedHosts s)"

lemma live_off_inv_effects: "live_off_inv s \<Longrightarrow> live_off_inv (run_effects env s)"
  by (auto simp: live_off_inv_def changed_run_effects dependencies_of_def)

lemma debounce_inv_effects: "debounce_inv s \<Longrightarrow> debounce_inv (run_effects env s)"
  by (auto simp: debounce_inv_def changed_run_effects dependencies_of_def)

lemma fit_count_ge: "10 \<le> fit_count l"
  by (simp add: fit_count_def Let_def)

lemma fit_inv_effects: "fit_inv s \<Longrightarrow> fit_inv (run_effects env s)"
  by (auto simp: fit_inv_def fitted_def fit_count_ge split: page_size.splits)

lemma storage_inv_effects: "storage_inv s \<Longrightarrow> storage_inv (run_effects env s)"
  by (auto simp: storage_inv_def)

lemma plain_inv_effects: "plain_inv s \<Longrightarrow> plain_inv (run_effects env s)"
  by (simp add: plain_inv_def)

lemma live_raise_signals: "filter live (raise_signals rqs) = []"
  by (induction rqs) (auto simp: raise_signals_def live_def)

lemma raise_signals_ids [simp]: "map req_id (raise_signals rqs) = map req_id rqs"
  by (auto simp: raise_signals_def)

lemma refresh_params_effects:
  "refresh_deps (dependencies_of s) = refresh_deps (dependencies_of (run_effects env s)) \<Longrightarrow>
   refresh_params (run_effects env s) = refresh_params s"
  by (auto simp: refresh_params_def dependencies_of_def)

lemma request_inv_effects:
  assumes "request_inv s"
  shows "request_inv (run_effects env s)"
proof -
  have ids: "\<forall>q \<in> set (raise_signals (requests s)). req_id q < nextId s"
    using assms unfolding request_inv_def
    by (metis (no_types, lifting) image_iff list.set_map raise_signals_ids)
  moreover have "\<forall>q \<in> set (raise_signals (requests s)). \<not> live q"
    using live_raise_signals[of "requests s"] by (auto simp: filter_empty_conv)
  moreover have "nextId s \<notin> req_id ` set (raise_signals (requests s))"
    using ids by auto
  ultimately show ?thesis
    using assms refresh_params_effects[of s env]
    by (auto simp: request_inv_def changed_run_effects live_raise_signals less_SucI)
qed

lemma live_off_inv_handle:
  assumes "quiet s" "live_off_inv s"
  shows "live_off_inv (handle env e s)"
proof -
  have "\<not> (liveDisabled s \<and> autoRefresh s)"
    using assms by (simp add: live_off_inv_def changed_quiet)
  then show ?thesis
    unfolding live_off_inv_def changed_handle[OF assms(1)]
    by (cases e) (auto simp: handlers dependencies_of_def split: option.splits sum.splits)
qed

lemma debounce_inv_handle:
  assumes "quiet s" "debounce_inv s"
  shows "debounce_inv (handle env e s)"
proof -
  have "debounce s = Some (filterInput s) \<or> debounce s = None \<and> filterText s = filterInput s"
    using assms by (simp add: debounce_inv_def changed_quiet)
  then show ?thesis
    unfolding debounce_inv_def changed_handle[OF assms(1)]
    by (cases e) (auto simp: handlers dependencies_of_def split: option.splits sum.splits)
qed

lemma fit_inv_handle:
  assumes "quiet s" "fit_inv s"
  shows "fit_inv (handle env e s)"
proof -
  have "case pageSizeSetting s of
           Rows n \<Rightarrow> calculatedLimit s = n \<and> \<not> fitListening s
         | Auto \<Rightarrow> 10 \<le> calculatedLimit s \<and> fitListening s"
    using assms by (simp add: fit_inv_def changed_quiet)
  then show ?thesis
    unfolding fit_inv_def changed_handle[OF assms(1)]
    by (cases e) (auto simp: handlers dependencies_of_def fit_count_ge split: option.splits sum.splits page_size.splits)
qed

lemma storage_inv_handle:
  assumes "quiet s" "storage_inv s"
  shows "storage_inv (handle env e s)"
proof -
  have "storage s storageKey = Some (page_size_text (pageSizeSetting s))"
    using assms by (simp add: storage_inv_def changed_quiet)
  then show ?thesis
    unfolding storage_inv_def changed_handle[OF assms(1)]
    by (cases e) (auto simp: handlers dependencies_of_def split: option.splits sum.splits)
qed

lemma clean_toggled: "clean_hosts hs \<Longrightarrow> clean_hosts (toggled env h hs)"
  using clean_sortedUniqueHosts by (auto simp: toggled_def clean_hosts_def)

lemma plain_inv_handle: "plain_inv s \<Longrightarrow> plain_inv (handle env e s)"
  by (cases e) (auto simp: handlers plain_inv_def clean_toggled split: option.splits sum.splits,
     simp_all add: clean_hosts_def)


text \<open>What a handler does to the requests: it removes some, or adds one without a signal.\<close>

lemma handle_requests:
  "(\<exists>P. requests (handle env e s) = filter P (requests s)) \<and> nextId s \<le> nextId (handle env e s)
   \<or> (\<exists>q. requests (handle env e s) = requests s @ [q] \<and> \<not> signalled q \<and> req_id q = nextId s
         \<and> nextId (handle env e s) = Suc (nextId s))"
proof -
  have kept: ?thesis if "requests (handle env e s) = requests s" "nextId s \<le> nextId (handle env e s)"
    using that by (intro disjI1 conjI exI[of _ "\<lambda>_. True"]) simp_all
  show ?thesis
  proof (cases e)
    case (RefreshDone now i out)
    then show ?thesis
      by (intro disjI1 conjI) (auto simp: handlers filter_empty_conv split: option.splits sum.splits
          intro: exI[of _ "\<lambda>q. req_id q \<noteq> i"] exI[of _ "\<lambda>_. True"])
  next
    case ClickRefresh
    then show ?thesis by (intro disjI2) (simp add: handlers)
  next
    case (ImportDone i out)
    show ?thesis
    proof (cases "requests (handle env e s) = requests s")
      case True
      with ImportDone show ?thesis
        by (intro kept) (auto simp: handlers split: option.splits sum.splits)
    next
      case False
      with ImportDone show ?thesis
        by (intro disjI2) (auto simp: handlers split: option.splits sum.splits if_splits)
    qed
  qed (intro kept; simp add: handlers split: option.split sum.split)+
qed

lemma length_live_filter: "length (filter live (filter P rqs)) \<le> length (filter live rqs)"
  by (induction rqs) auto

text \<open>The chosen hosts change only with their identity.\<close>

lemma handle_hosts:
  "selectedHosts (handle env e s) = selectedHosts s \<or> hostsIdentity (handle env e s) = Suc (hostsIdentity s)"
  by (cases e) (auto simp: handlers split: option.splits sum.splits)

lemma handle_refresh_params:
  "refresh_deps (dependencies_of s) = refresh_deps (dependencies_of (handle env e s)) \<Longrightarrow>
   refresh_params (handle env e s) = refresh_params s"
  using handle_hosts[of env e s] by (auto simp: refresh_params_def dependencies_of_def)

lemma request_inv_handle:
  assumes "quiet s" "request_inv s"
  shows "request_inv (handle env e s)"
proof -
  have cur: "\<forall>q \<in> set (requests s). live q \<longrightarrow> req_params q = refresh_params s"
    and one: "length (filter live (requests s)) \<le> 1" and ids: "distinct (map req_id (requests s))"
    and bound: "\<forall>q \<in> set (requests s). req_id q < nextId s"
    using assms by (simp_all add: request_inv_def changed_quiet)
  have fresh: "nextId s \<notin> req_id ` set (requests s)" using bound by auto
  from handle_requests[of env e s] show ?thesis
  proof (elim disjE exE conjE)
    fix P
    assume eq: "requests (handle env e s) = filter P (requests s)"
      and le: "nextId s \<le> nextId (handle env e s)"
    have "length (filter live (filter P (requests s))) \<le> 1"
      using length_live_filter[of P "requests s"] one by linarith
    moreover have "distinct (map req_id (filter P (requests s)))"
      using ids by (simp add: distinct_map_filter)
    ultimately show ?thesis
      unfolding request_inv_def changed_handle[OF assms(1)] eq
      using cur bound le handle_refresh_params[of s env e] by (auto intro: less_le_trans)
  next
    fix q
    assume "requests (handle env e s) = requests s @ [q]" "\<not> signalled q" "req_id q = nextId s"
      "nextId (handle env e s) = Suc (nextId s)"
    then show ?thesis
      unfolding request_inv_def changed_handle[OF assms(1)]
      using cur one ids bound fresh handle_refresh_params[of s env e]
      by (auto simp: live_def less_SucI)
  qed
qed

section \<open>Reachable states\<close>

definition app_inv :: "app \<Rightarrow> bool" where
  "app_inv s \<longleftrightarrow> quiet s \<and> stream_inv s \<and> live_off_inv s \<and> debounce_inv s \<and> fit_inv s
               \<and> storage_inv s \<and> request_inv s \<and> plain_inv s"

lemma app_inv_settle:
  assumes "stream_inv s" "live_off_inv s" "debounce_inv s" "fit_inv s" "storage_inv s" "request_inv s" "plain_inv s"
  shows "app_inv (settle env s)"
  unfolding app_inv_def
  by (intro conjI settled settle_inv[where P = stream_inv, OF stream_inv_effects assms(1)]
      settle_inv[where P = live_off_inv, OF live_off_inv_effects assms(2)]
      settle_inv[where P = debounce_inv, OF debounce_inv_effects assms(3)]
      settle_inv[where P = fit_inv, OF fit_inv_effects assms(4)]
      settle_inv[where P = storage_inv, OF storage_inv_effects assms(5)]
      settle_inv[where P = request_inv, OF request_inv_effects assms(6)]
      settle_inv[where P = plain_inv, OF plain_inv_effects assms(7)])

lemma app_inv_mount: "app_inv (mount env st path)"
  unfolding mount_def
  by (rule app_inv_settle)
    (simp_all add: stream_inv_def live_off_inv_def debounce_inv_def fit_inv_def storage_inv_def
      request_inv_def plain_inv_def initial_def changed_def clean_hosts_def)

lemma app_inv_step: "app_inv s \<Longrightarrow> app_inv (app_step env e s)"
  unfolding app_step_def
  by (rule app_inv_settle)
    (simp_all add: app_inv_def stream_inv_handle live_off_inv_handle debounce_inv_handle
      fit_inv_handle storage_inv_handle request_inv_handle plain_inv_handle)

text \<open>Where the page starts, and the states it reaches by the events it offers.\<close>

definition opened :: "host_env \<Rightarrow> app \<Rightarrow> bool" where
  "opened env s \<longleftrightarrow> (\<exists>st path. s = mount env st path)"

abbreviation reachable :: "host_env \<Rightarrow> app \<Rightarrow> bool" where
  "reachable env \<equiv> reach (opened env) (app_step env) (enabled env)"

interpretation page_machine: invariant_machine "opened env" "app_step env" "enabled env" app_inv for env
  by unfold_locales (auto simp: opened_def app_inv_mount app_inv_step)

text \<open>What the invariants say of a page with no effect left to run.\<close>

lemma reachable_quiet: "reachable env s \<Longrightarrow> quiet s"
  using page_machine.reach_inv by (auto simp: app_inv_def)

lemma reachable_stream: "reachable env s \<Longrightarrow> stream s = wanted_stream s"
  using page_machine.reach_inv by (auto simp: app_inv_def stream_inv_def changed_quiet)

lemma reachable_live: "reachable env s \<Longrightarrow> autoRefresh s \<Longrightarrow> \<not> liveDisabled s"
  using page_machine.reach_inv[of env s] by (auto simp: app_inv_def live_off_inv_def changed_quiet)

lemma reachable_debounce:
  "reachable env s \<Longrightarrow> debounce s = Some (filterInput s) \<or> debounce s = None \<and> filterText s = filterInput s"
  using page_machine.reach_inv by (auto simp: app_inv_def debounce_inv_def changed_quiet)

lemma reachable_fit:
  "reachable env s \<Longrightarrow>
   (case pageSizeSetting s of
      Rows n \<Rightarrow> calculatedLimit s = n \<and> \<not> fitListening s
    | Auto \<Rightarrow> 10 \<le> calculatedLimit s \<and> fitListening s)"
  using page_machine.reach_inv by (auto simp: app_inv_def fit_inv_def changed_quiet)

lemma reachable_storage:
  "reachable env s \<Longrightarrow> storage s storageKey = Some (page_size_text (pageSizeSetting s))"
  using page_machine.reach_inv by (auto simp: app_inv_def storage_inv_def changed_quiet)

lemma reachable_requests:
  "reachable env s \<Longrightarrow> (\<forall>q \<in> set (requests s). live q \<longrightarrow> req_params q = refresh_params s)
     \<and> length (filter live (requests s)) \<le> 1
     \<and> distinct (map req_id (requests s)) \<and> (\<forall>q \<in> set (requests s). req_id q < nextId s)"
  using page_machine.reach_inv by (auto simp: app_inv_def request_inv_def changed_quiet)

lemma reachable_plain:
  "reachable env s \<Longrightarrow> messagesRef s = messages s \<and> 0 \<le> page s \<and> clean_hosts (selectedHosts s)"
  using page_machine.reach_inv by (auto simp: app_inv_def plain_inv_def)

lemma reachable_mount [intro]: "reachable env (mount env st path)"
  by (rule reach.start) (auto simp: opened_def)

section \<open>The effects after one event\<close>

text \<open>What survives the effects of an event.\<close>

lemma settle_frame [simp]:
  "messages (settle env r) = messages r"
  "messagesRef (settle env r) = messagesRef r"
  "filterInput (settle env r) = filterInput r"
  "filterText (settle env r) = filterText r"
  "validatedFilter (settle env r) = validatedFilter r"
  "selectedHosts (settle env r) = selectedHosts r"
  "knownHosts (settle env r) = knownHosts r"
  "hostsIdentity (settle env r) = hostsIdentity r"
  "page (settle env r) = page r"
  "hasMore (settle env r) = hasMore r"
  "liveUnavailable (settle env r) = liveUnavailable r"
  "noticeText (settle env r) = noticeText r"
  "pageSizeSetting (settle env r) = pageSizeSetting r"
  "importCalls (settle env r) = importCalls r"
  "route (settle env r) = route r"
  "incidents (settle env r) = incidents r"
  by (simp_all add: settle_def eval_nat_numeral)

lemma settle_idle: "quiet s \<Longrightarrow> settle env s = s"
  by (simp add: settle_def effect_loop.idle_pow)

lemma reachable_step: "reachable env s \<Longrightarrow> enabled env s e \<Longrightarrow> reachable env (app_step env e s)"
  by (rule reach.step)

end
