(* ===== verification/App_Properties.thy ===== *)
theory App_Properties
  imports App_Invariants
begin

text \<open>
  The properties of the page, over every state it reaches, with runs of it on concrete inputs.
\<close>

section \<open>A concrete host and concrete runs\<close>

fun bytes_before :: "string \<Rightarrow> string \<Rightarrow> int" where
  "bytes_before [] [] = 0"
| "bytes_before [] (y # ys) = - 1"
| "bytes_before (x # xs) [] = 1"
| "bytes_before (x # xs) (y # ys) =
     (if x = y then bytes_before xs ys else if of_char x < (of_char y :: nat) then - 1 else 1)"

definition sample_layout :: "app \<Rightarrow> layout" where
  "sample_layout s =
     \<lparr>innerHeight = 1000, topbarHeight = None, toolbarHeight = None,
      errorHeight = (if present (errorText s) then Some 40 else None), noticeHeight = None\<rparr>"

text \<open>Dates are numerals here.\<close>

definition sample_env :: host_env where
  "sample_env =
     \<lparr>localeCompare = bytes_before,
      dateParse = (\<lambda>t. if t \<noteq> [] \<and> list_all is_digit t then Some (int (undec t)) else None),
      isoText = (\<lambda>t. ''2026-01-01T00:00:00.000Z''), layoutOf = sample_layout\<rparr>"

definition sample_message :: "string \<Rightarrow> string \<Rightarrow> string \<Rightarrow> SyslogMessage" where
  "sample_message i host t =
     \<lparr>msg_key = i, received_at = t, timestamp = None, transport = None, source = None,
      priority = None, facility = None, severity = None, hostname = Some host, app_name = None,
      proc_id = None, msg_id = None, tag = None, message = Some ''up'', structured_data = None,
      raw = None\<rparr>"

definition answer :: "SyslogMessage list \<Rightarrow> MessagesResponse fetch_outcome" where
  "answer ms =
     Responded \<lparr>status = 200,
       json = Inr \<lparr>messages_data = ms,
                   messages_meta = \<lparr>count = int (length ms), meta_limit = 100, meta_offset = 0, has_more = False\<rparr>\<rparr>,
       json_error = None\<rparr>"

definition sample_run :: "event list \<Rightarrow> app" where
  "sample_run es = run (app_step sample_env) es (mount sample_env Map.empty ''/'')"

definition sample_allowed :: "event list \<Rightarrow> bool" where
  "sample_allowed es = allowed_run (app_step sample_env) (enabled sample_env) es (mount sample_env Map.empty ''/'')"

lemma sample_reachable: "sample_allowed es \<Longrightarrow> reachable sample_env (sample_run es)"
  unfolding sample_allowed_def sample_run_def by (rule reach_run[OF reachable_mount])

definition first_answer :: "event list" where
  "first_answer = [RefreshDone 5 0 (answer [sample_message ''b'' ''web'' ''20'', sample_message ''a'' ''db'' ''10''])]"






lemma first_answer_allowed: "sample_allowed first_answer"
  by code_simp

section \<open>The event source\<close>

text \<open>C1: In every state the page reaches, the event source is open exactly when live updates are
  on, the first page is shown, the stream has not failed, and the last answer was for the
  current filter; and it is opened for the current filter, hosts and limit.\<close>

theorem stream_as_wanted:
  assumes "reachable env s"
  shows "stream s =
    (if autoRefresh s \<and> page s = 0 \<and> \<not> liveUnavailable s \<and> validatedFilter s = Some (filterText s)
     then Some \<lparr>strm_filter = filterText s, strm_hosts = selectedHosts s, strm_limit = calculatedLimit s\<rparr>
     else None)"
  using reachable_stream[OF assms] by (simp add: wanted_stream_def)

theorem stream_as_wanted_witness:
  "stream (sample_run first_answer) = Some \<lparr>strm_filter = [], strm_hosts = [], strm_limit = 100\<rparr>"
proof -
  have "autoRefresh (sample_run first_answer) \<and> page (sample_run first_answer) = 0
      \<and> \<not> liveUnavailable (sample_run first_answer)
      \<and> validatedFilter (sample_run first_answer) = Some [] \<and> filterText (sample_run first_answer) = []
      \<and> selectedHosts (sample_run first_answer) = [] \<and> calculatedLimit (sample_run first_answer) = 100"
    by code_simp
  then show ?thesis
    using stream_as_wanted[OF sample_reachable[OF first_answer_allowed]] by simp
qed

lemma latch_step: "liveUnavailable s \<Longrightarrow> liveUnavailable (app_step env e s)"
  by (cases e) (auto simp: app_step_def handlers split: option.splits sum.splits)

interpretation stream_latch: invariant_machine liveUnavailable "app_step env" "enabled env" liveUnavailable
  for env
  by unfold_locales (simp_all add: latch_step)

text \<open>Once the event source has failed, live updates stay off whatever happens later: the
  latch is never reset, no stream is opened again, and the live switch stays disabled and
  unchecked.\<close>

theorem stream_failure_is_final:
  assumes "reachable env s" "stream s \<noteq> None"
    and "allowed_run (app_step env) (enabled env) es (app_step env StreamError s)"
  defines "t \<equiv> run (app_step env) es (app_step env StreamError s)"
  shows "liveUnavailable t \<and> stream t = None \<and> \<not> autoRefresh t
       \<and> live_disabled (toolbar_of env t) \<and> \<not> live_checked (toolbar_of env t)"
proof -
  have start: "reachable env (app_step env StreamError s)"
    using assms(1,2) by (intro reachable_step) (simp_all add: enabled_def Let_def)
  have failed: "liveUnavailable (app_step env StreamError s)"
    using assms(2) by (auto simp: app_step_def handleError_def)
  have "liveUnavailable t"
    unfolding t_def by (rule stream_latch.run_inv[OF failed assms(3)])
  moreover have "reachable env t"
    unfolding t_def by (rule reach_run[OF start assms(3)])
  ultimately show ?thesis
    using reachable_stream[of env t] reachable_live[of env t]
    by (auto simp: wanted_stream_def toolbar_of_def)
qed

theorem stream_failure_is_final_witness:
  "stream (sample_run first_answer) \<noteq> None \<and>
   stream (run (app_step sample_env) [HostMenu, ToggleHost ''db'', ClickRefresh]
     (app_step sample_env StreamError (sample_run first_answer))) = None"
proof -
  have opened: "stream (sample_run first_answer) \<noteq> None"
    by code_simp
  have "allowed_run (app_step sample_env) (enabled sample_env) [HostMenu, ToggleHost ''db'', ClickRefresh]
      (app_step sample_env StreamError (sample_run first_answer))"
    by code_simp
  then show ?thesis
    using opened stream_failure_is_final[OF sample_reachable[OF first_answer_allowed] opened] by blast
qed

section \<open>The requests\<close>

lemma live_eq: "live = (\<lambda>q. signalled q \<and> \<not> aborted q)"
  by (simp add: live_def fun_eq_iff)

text \<open>C11: At most one request that carries the effect's signal is not aborted, and it asks for
  exactly what the page shows now: its filter, hosts, limit and offset.\<close>

theorem live_request_is_current:
  assumes "reachable env s"
  shows "length (filter (\<lambda>q. signalled q \<and> \<not> aborted q) (requests s)) \<le> 1
       \<and> (\<forall>q \<in> set (requests s). signalled q \<and> \<not> aborted q \<longrightarrow>
            req_params q = \<lparr>query = filterText s, hosts = selectedHosts s, limit = calculatedLimit s,
                            offset = page s * calculatedLimit s\<rparr>)"
  using reachable_requests[OF assms] by (simp add: live_eq refresh_params_def)

definition retyped :: "event list" where
  "retyped = [FilterInput ''link'', DebounceFires]"

theorem live_request_is_current_witness:
  "map (\<lambda>q. (query (req_params q), aborted q)) (requests (sample_run retyped)) = [([], True), (''link'', False)]
   \<and> length (filter (\<lambda>q. signalled q \<and> \<not> aborted q) (requests (sample_run retyped))) \<le> 1"
proof -
  have "sample_allowed retyped" by code_simp
  moreover have "map (\<lambda>q. (query (req_params q), aborted q)) (requests (sample_run retyped))
      = [([], True), (''link'', False)]"
    by code_simp
  ultimately show ?thesis
    using live_request_is_current[OF sample_reachable, of retyped] by blast
qed

lemma find_id:
  "distinct (map req_id rqs) \<Longrightarrow> q \<in> set rqs \<Longrightarrow> find (\<lambda>x. req_id x = req_id q) rqs = Some q"
  by (induction rqs) auto

lemma settle_live: "\<not> liveDisabled s \<Longrightarrow> autoRefresh (settle env s) = autoRefresh s"
  by (simp add: settle_code)

text \<open>The answer to a request that was not aborted becomes the page: its messages and its
  has-more flag are shown, the filter counts as validated, and if live updates are on the event
  source is open for that filter.\<close>

theorem current_answer_is_shown:
  fixes now :: int
  assumes "reachable env s" "q \<in> set (requests s)" "signalled q" "\<not> aborted q"
    and "200 \<le> status r" "status r \<le> 299" "json r = Inr resp"
  defines "t \<equiv> app_step env (RefreshDone now (req_id q) (Responded r)) s"
  shows "messages t = messages_data resp \<and> hasMore t = has_more (messages_meta resp)
       \<and> validatedFilter t = Some (filterText t) \<and> filterText t = filterText s
       \<and> autoRefresh t = autoRefresh s
       \<and> (autoRefresh s \<longrightarrow>
            stream t = Some \<lparr>strm_filter = filterText s, strm_hosts = selectedHosts s,
                              strm_limit = calculatedLimit t\<rparr>)"
proof -
  note reqs = reachable_requests[OF assms(1)]
  have current: "req_params q = refresh_params s"
    using reqs assms(2-4) by (auto simp: live_def)
  have found: "find (\<lambda>x. req_id x = req_id q) (requests s) = Some q"
    using reqs assms(2) by (simp add: find_id)
  have answered: "settle_with listMessages_response (Responded r) = Inr resp"
    using assms(5-7) unfolding list_client.value_iff by (auto simp: ok_def)
  define u where "u = handle env (RefreshDone now (req_id q) (Responded r)) s"
  have u: "messages u = messages_data resp" "hasMore u = has_more (messages_meta resp)"
    "validatedFilter u = Some (filterText s)" "filterText u = filterText s"
    "autoRefresh u = autoRefresh s" "selectedHosts u = selectedHosts s" "liveDisabled u = liveDisabled s"
    unfolding u_def
    by (simp_all add: answered refreshDone_def found finish_refresh_def assms(4) current refresh_params_def
        Let_def del: settle_with.simps)
  have t: "t = settle env u" by (simp add: t_def u_def app_step_def)
  have live: "autoRefresh s \<Longrightarrow> \<not> liveDisabled u"
    using reachable_live[OF assms(1)] u by simp
  have auto: "autoRefresh t = autoRefresh s"
    using live u(5) by (cases "autoRefresh s") (auto simp: t settle_live settle_code)
  have "reachable env t"
    unfolding t_def using assms(1,2) by (intro reachable_step) (auto simp: enabled_def Let_def)
  then show ?thesis
    using reachable_stream[of env t] live u auto by (auto simp: t wanted_stream_def)
qed

theorem current_answer_is_shown_witness:
  "map msg_key (messages (app_step sample_env (RefreshDone 5 0 (answer [sample_message ''a'' ''db'' ''10''])) (sample_run [])))
   = [''a'']"
proof -
  let ?q = "\<lparr>req_id = 0, req_params = \<lparr>query = [], hosts = [], limit = 100, offset = 0\<rparr>, signalled = True, aborted = False\<rparr>"
  have "sample_allowed []" by code_simp
  moreover have "requests (sample_run []) = [?q]" by code_simp
  ultimately show ?thesis
    using current_answer_is_shown[OF sample_reachable, of "[]" ?q] by (simp add: answer_def sample_message_def)
qed

lemma quiet_changes:
  assumes "quiet s" "dependencies_of t = dependencies_of s" "committed t = committed s"
  shows "quiet t"
  using assms by (simp add: quiet_def)

text \<open>The end of an aborted request, whatever it is, changes nothing but the list of requests
  and the loading flag. The flag is cleared even when the request that replaced it has yet to
  be answered.\<close>

theorem aborted_answer_is_ignored:
  assumes "reachable env s" "q \<in> set (requests s)" "aborted q"
  shows "app_step env (RefreshDone now (req_id q) out) s =
    s\<lparr>requests := filter (\<lambda>x. req_id x \<noteq> req_id q) (requests s), loading := False\<rparr>"
proof -
  let ?t = "s\<lparr>requests := filter (\<lambda>x. req_id x \<noteq> req_id q) (requests s), loading := False\<rparr>"
  have "find (\<lambda>x. req_id x = req_id q) (requests s) = Some q"
    using reachable_requests[OF assms(1)] assms(2) by (simp add: find_id)
  then have "handle env (RefreshDone now (req_id q) out) s = ?t"
    using assms(3) by (simp add: refreshDone_def finish_refresh_def)
  moreover have "quiet ?t"
    by (rule quiet_changes[OF reachable_quiet[OF assms(1)]]) (simp_all add: dependencies_of_def)
  ultimately show ?thesis by (simp add: app_step_def settle_idle)
qed

theorem aborted_answer_is_ignored_witness:
  "app_step sample_env (RefreshDone 5 0 (answer [sample_message ''a'' ''db'' ''10''])) (sample_run retyped)
   = (sample_run retyped)\<lparr>requests := filter (\<lambda>x. req_id x \<noteq> 0) (requests (sample_run retyped)), loading := False\<rparr>
   \<and> loading (sample_run retyped) \<and> map req_id (requests (sample_run retyped)) = [0, 1]"
proof -
  let ?q = "\<lparr>req_id = 0, req_params = \<lparr>query = [], hosts = [], limit = 100, offset = 0\<rparr>, signalled = True, aborted = True\<rparr>"
  have "sample_allowed retyped" by code_simp
  moreover have "hd (requests (sample_run retyped)) = ?q \<and> map req_id (requests (sample_run retyped)) = [0, 1]
      \<and> loading (sample_run retyped)"
    by code_simp
  moreover from this have "?q \<in> set (requests (sample_run retyped))"
    by (metis list.map_disc_iff list.set_sel(1) list.simps(3))
  ultimately show ?thesis
    using aborted_answer_is_ignored[OF sample_reachable, of retyped ?q] by simp
qed

text \<open>C26: The answer to a request without the signal (the Refresh button's, an import's) is taken
  whatever the page shows by then. When the filter has changed in between, the page shows
  another query's messages, the filter no longer counts as validated, and the event source is
  closed.\<close>

theorem late_answer_overwrites:
  fixes now :: int
  assumes "reachable env s" "q \<in> set (requests s)" "\<not> signalled q" "\<not> aborted q"
    and "query (req_params q) \<noteq> filterText s"
    and "200 \<le> status r" "status r \<le> 299" "json r = Inr resp"
  defines "t \<equiv> app_step env (RefreshDone now (req_id q) (Responded r)) s"
  shows "messages t = messages_data resp \<and> validatedFilter t \<noteq> Some (filterText t)
       \<and> stream t = None \<and> filterText t = filterText s"
proof -
  have found: "find (\<lambda>x. req_id x = req_id q) (requests s) = Some q"
    using reachable_requests[OF assms(1)] assms(2) by (simp add: find_id)
  have answered: "settle_with listMessages_response (Responded r) = Inr resp"
    using assms(6-8) unfolding list_client.value_iff by (auto simp: ok_def)
  have "messages t = messages_data resp" "validatedFilter t = Some (query (req_params q))"
    "filterText t = filterText s"
    by (simp_all add: t_def app_step_def answered refreshDone_def found finish_refresh_def assms(4)
        Let_def del: settle_with.simps)
  moreover have "reachable env t"
    unfolding t_def using assms(1,2) by (intro reachable_step) (auto simp: enabled_def Let_def)
  ultimately show ?thesis
    using reachable_stream[of env t] assms(5) by (auto simp: wanted_stream_def)
qed

text \<open>The user clicks Refresh, types a filter, and the two answers come back in the other order.\<close>

definition crossed :: "event list" where
  "crossed =
     [RefreshDone 5 0 (answer []), ClickRefresh, FilterInput ''link'', DebounceFires,
      RefreshDone 6 2 (answer [sample_message ''b'' ''web'' ''20''])]"

theorem late_answer_overwrites_witness:
  "map msg_key (messages (sample_run crossed)) = [''b''] \<and> stream (sample_run crossed) \<noteq> None \<and>
   stream (app_step sample_env
     (RefreshDone 7 1 (answer [sample_message ''a'' ''db'' ''10''])) (sample_run crossed)) = None"
proof -
  let ?q = "\<lparr>req_id = 1, req_params = \<lparr>query = [], hosts = [], limit = 100, offset = 0\<rparr>, signalled = False, aborted = False\<rparr>"
  have "sample_allowed crossed" by code_simp
  moreover have "requests (sample_run crossed) = [?q] \<and> filterText (sample_run crossed) = ''link''
      \<and> map msg_key (messages (sample_run crossed)) = [''b''] \<and> stream (sample_run crossed) \<noteq> None"
    by code_simp
  ultimately show ?thesis
    using late_answer_overwrites[OF sample_reachable, of crossed ?q] by (simp add: answer_def)
qed

section \<open>The filter, the page size, the controls\<close>

text \<open>The text in the filter box is the filter in force, or the timer that will put it in force
  is running with exactly that text; when the timer fires, the filter is the text in the box
  and the first page is shown.\<close>

theorem filter_catches_up:
  assumes "reachable env s"
  shows "debounce s \<in> {None, Some (filterInput s)}
       \<and> (debounce s = None \<longrightarrow> filterText s = filterInput s)
       \<and> (debounce s \<noteq> None \<longrightarrow>
            filterText (app_step env DebounceFires s) = filterInput s
          \<and> filterInput (app_step env DebounceFires s) = filterInput s
          \<and> page (app_step env DebounceFires s) = 0)"
  using reachable_debounce[OF assms] by (auto simp: app_step_def debounceFires_def)

theorem filter_catches_up_witness:
  "debounce (sample_run [FilterInput ''l'', FilterInput ''li'']) = Some ''li'' \<and>
   filterText (app_step sample_env DebounceFires (sample_run [FilterInput ''l'', FilterInput ''li''])) = ''li''"
proof -
  let ?es = "[FilterInput ''l'', FilterInput ''li'']"
  have "sample_allowed ?es" by code_simp
  moreover have "filterInput (sample_run ?es) = ''li'' \<and> debounce (sample_run ?es) = Some ''li''" by code_simp
  ultimately show ?thesis
    using filter_catches_up[OF sample_reachable, of ?es] by simp
qed

lemma dec_not_auto: "dec n \<noteq> ''auto'' \<and> dec n \<noteq> []"
proof -
  have "parseInt (dec n) = Some n" by simp
  moreover have "parseInt ''auto'' = None" "parseInt [] = None" by code_simp+
  ultimately show ?thesis by (metis option.distinct(1))
qed

lemma readPageSize_text: "st storageKey = Some (page_size_text z) \<Longrightarrow> readPageSize st = z"
  using dec_not_auto by (cases z) (simp_all add: readPageSize_def)

text \<open>What is saved is what is chosen: opening the page again with the storage of any reachable
  state restores its page size. A fixed size is the limit of the requests; a fitted one is at
  least ten rows and follows the window.\<close>

theorem page_size_is_kept:
  assumes "reachable env s"
  shows "readPageSize (storage s) = pageSizeSetting s
       \<and> pageSizeSetting (mount env (storage s) path) = pageSizeSetting s
       \<and> (\<forall>n. pageSizeSetting s = Rows n \<longrightarrow> calculatedLimit s = n)
       \<and> (pageSizeSetting s = Auto \<longrightarrow> 10 \<le> calculatedLimit s \<and> enabled env s Resized)"
  using readPageSize_text[of "storage s" "pageSizeSetting s"] reachable_storage[OF assms] reachable_fit[OF assms]
  by (auto simp: mount_def initial_def enabled_def Let_def)

theorem page_size_is_kept_witness:
  "readPageSize (storage (sample_run [SelectPageSize ''250''])) = Rows 250 \<and>
   calculatedLimit (sample_run [SelectPageSize ''250'']) = 250"
proof -
  have "sample_allowed [SelectPageSize ''250'']" by code_simp
  moreover have "pageSizeSetting (sample_run [SelectPageSize ''250'']) = Rows 250" by code_simp
  ultimately show ?thesis
    using page_size_is_kept[OF sample_reachable, of "[SelectPageSize ''250'']"] by simp
qed

text \<open>C27: React's loop of renders and effects always ends, in at most four rounds, whatever the
  state it starts from and whatever the page measures; and it ends with no effect left to run.\<close>

theorem effects_settle:
  "settle_loop env s = Some (settle env s) \<and> quiet (settle env s) \<and> settle_loop env (settle env s) = Some (settle env s)"
  by (simp add: settle_loop_settle settled settle_idle)

text \<open>The live switch never lies: it is checked, and the button pauses, exactly when live
  updates are on. The page number is never negative, so the previous-page button is on exactly
  from the second page; the chosen hosts are trimmed, non-empty and distinct; the ref the
  stream's listener merges into holds the messages shown.\<close>

theorem controls_agree:
  assumes "reachable env s"
  shows "live_checked (toolbar_of env s) = autoRefresh s
       \<and> shows_pause (toolbar_of env s) = autoRefresh s
       \<and> (autoRefresh s \<longrightarrow> liveTitle s = ''Pause live updates'')
       \<and> 0 \<le> page s \<and> (\<not> previous_disabled (toolbar_of env s) \<longleftrightarrow> 0 < page s)
       \<and> distinct (selectedHosts s) \<and> (\<forall>h \<in> set (selectedHosts s). h \<noteq> [] \<and> js_trim h = h)
       \<and> messagesRef s = messages s"
  using reachable_live[OF assms] reachable_plain[OF assms]
  by (auto simp: toolbar_of_def liveTitle_def clean_hosts_def)

definition paged :: "event list" where
  "paged =
     [RefreshDone 5 0 (Responded \<lparr>status = 200,
        json = Inr \<lparr>messages_data = [sample_message ''a'' ''db'' ''10''],
                    messages_meta = \<lparr>count = 1, meta_limit = 100, meta_offset = 0, has_more = True\<rparr>\<rparr>,
        json_error = None\<rparr>),
      NextPage]"

theorem controls_agree_witness:
  "autoRefresh (sample_run first_answer) \<and> page (sample_run paged) = 1
   \<and> \<not> live_checked (toolbar_of sample_env (sample_run paged)) \<and> \<not> previous_disabled (toolbar_of sample_env (sample_run paged))"
proof -
  have "sample_allowed paged" by code_simp
  moreover have "page (sample_run paged) = 1 \<and> autoRefresh (sample_run first_answer)
     \<and> \<not> autoRefresh (sample_run paged)"
    by code_simp
  ultimately show ?thesis
    using controls_agree[OF sample_reachable, of paged] by simp
qed

section \<open>Every change is fetched\<close>

definition fetched :: "ListMessagesParams \<Rightarrow> app \<Rightarrow> bool" where
  "fetched p r \<longleftrightarrow> changed r refresh_deps \<or> refresh_params r = p
     \<or> (\<exists>q \<in> set (requests r). live q \<and> req_params q = refresh_params r)"

lemma fetched_effects: "fetched p r \<Longrightarrow> fetched p (run_effects env r)"
  using refresh_params_effects[of r env]
  by (auto simp: fetched_def changed_run_effects live_def)

text \<open>C24: Whenever an event changes what the page shows (its filter, hosts, limit or offset), a
  request for exactly the new values is in flight, with the signal and not aborted.\<close>

theorem changes_are_fetched:
  assumes "reachable env s"
    and "refresh_params (app_step env e s) \<noteq> refresh_params s"
  shows "\<exists>q \<in> set (requests (app_step env e s)).
           signalled q \<and> \<not> aborted q \<and> req_params q = refresh_params (app_step env e s)"
proof -
  let ?u = "handle env e s"
  have "fetched (refresh_params s) ?u"
    using handle_refresh_params[of s env e] changed_handle[OF reachable_quiet[OF assms(1)]]
    by (auto simp: fetched_def)
  then have "fetched (refresh_params s) (app_step env e s)"
    unfolding app_step_def by (rule settle_inv[where P = "fetched (refresh_params s)", rotated]) (rule fetched_effects)
  moreover have "\<not> changed (app_step env e s) refresh_deps"
    by (rule changed_quiet) (simp add: app_step_def settled)
  ultimately show ?thesis
    using assms(2) by (auto simp: fetched_def live_def)
qed

theorem changes_are_fetched_witness:
  "\<exists>q \<in> set (requests (app_step sample_env (ToggleHost ''web'') (sample_run first_answer))).
     signalled q \<and> \<not> aborted q \<and> hosts (req_params q) = [''web'']"
proof -
  let ?t = "app_step sample_env (ToggleHost ''web'') (sample_run first_answer)"
  have "hosts (refresh_params ?t) = [''web''] \<and> hosts (refresh_params (sample_run first_answer)) = []"
    by code_simp
  moreover from this have "refresh_params ?t \<noteq> refresh_params (sample_run first_answer)" by auto
  ultimately show ?thesis
    using changes_are_fetched[OF sample_reachable[OF first_answer_allowed]] by metis
qed

section \<open>Live messages\<close>

text \<open>A live message touches nothing an effect depends on.\<close>

lemma stream_message_step:
  assumes "quiet s" "stream s = Some st"
  shows "app_step env (StreamMessage now (Some m)) s = handleMessage env now st (Some m) s"
proof -
  let ?t = "handleMessage env now st (Some m) s"
  have "dependencies_of ?t = dependencies_of s" "committed ?t = committed s"
    by (simp_all add: handleMessage_def dependencies_of_def Let_def)
  then have "quiet ?t" using quiet_changes[OF assms(1)] by blast
  then show ?thesis using assms(2) by (simp add: app_step_def settle_idle)
qed

definition wanted_host :: "live_stream \<Rightarrow> SyslogMessage \<Rightarrow> bool" where
  "wanted_host st m \<longleftrightarrow> strm_hosts st = [] \<or> host_or_empty m \<in> set (strm_hosts st)"

text \<open>The first page of a log: its latest messages, and whether there are more.\<close>

definition shows_log :: "host_env \<Rightarrow> nat \<Rightarrow> SyslogMessage list \<Rightarrow> app \<Rightarrow> bool" where
  "shows_log env k history s \<longleftrightarrow>
     messages s = latest_page (dateParse env) k history \<and> hasMore s = (k < length history)"

lemma length_latest_page: "length (latest_page dp k history) = min (length history) k"
  by (simp add: latest_page_def)

lemma set_latest_page: "set (latest_page dp k history) \<subseteq> set history"
  using set_take_subset by (fastforce simp: latest_page_def)

lemma length_merged_new:
  assumes "msg_key m \<notin> msg_key ` set history"
  shows "length (merged dp m (latest_page dp k history)) = Suc (length (latest_page dp k history))"
proof -
  have "filter (\<lambda>e. msg_key e \<noteq> msg_key m) (latest_page dp k history) = latest_page dp k history"
    using assms set_latest_page[of dp k history] by (intro filter_True) (metis image_eqI subsetD)
  then show ?thesis by (simp add: merged_def)
qed

lemma live_message_step:
  assumes inv: "app_inv s" and st: "stream s = Some st" and k: "strm_limit st = int k"
    and m: "wanted_host st m" "msg_key m \<notin> msg_key ` set history" and shown: "shows_log env k history s"
  shows "shows_log env k (m # history) (app_step env (StreamMessage now (Some m)) s)
       \<and> stream (app_step env (StreamMessage now (Some m)) s) = Some st"
proof -
  have "quiet s" "messagesRef s = messages s"
    using inv by (simp_all add: app_inv_def plain_inv_def)
  note step = stream_message_step[OF this(1) st, of env now m]
  have "\<not> (strm_hosts st \<noteq> [] \<and> host_or_empty m \<notin> set (strm_hosts st))"
    using m(1) by (auto simp: wanted_host_def)
  moreover have "length (merged (dateParse env) m (messages s)) = Suc (min (length history) k)"
    using shown length_merged_new[OF m(2)] by (simp add: shows_log_def length_latest_page)
  ultimately show ?thesis
    unfolding step using shown \<open>messagesRef s = messages s\<close> st merge_into_latest_page[OF m(2)]
    by (auto simp: handleMessage_def Let_def shows_log_def k)
qed

text \<open>C6: Live updates give what asking again would give. While the page shows the first \<open>k\<close>
  messages of a log, and the stream delivers new messages of the chosen hosts one after the
  other, the page stays the first \<open>k\<close> messages of the growing log, newest first, with the
  has-more flag right, and the stream stays open.\<close>

theorem live_updates_refine_query:
  fixes arrival :: "SyslogMessage \<Rightarrow> int"
  assumes "reachable env s" "stream s = Some st" "strm_limit st = int k"
    and "\<forall>m \<in> set ms. wanted_host st m" "distinct (map msg_key (rev ms @ history))"
    and "shows_log env k history s"
  defines "t \<equiv> run (app_step env) (map (\<lambda>m. StreamMessage (arrival m) (Some m)) ms) s"
  shows "messages t = latest_page (dateParse env) k (rev ms @ history)
       \<and> hasMore t = (k < length ms + length history) \<and> stream t = Some st"
proof -
  have "app_inv s" using page_machine.reach_inv[OF assms(1)] .
  from this assms(2-6)
  have "shows_log env k (rev ms @ history) t \<and> stream t = Some st"
    unfolding t_def
  proof (induction ms arbitrary: s history)
    case (Cons m ms)
    let ?s = "app_step env (StreamMessage (arrival m) (Some m)) s"
    have "msg_key m \<notin> msg_key ` set history" using Cons.prems(5) by auto
    then have "shows_log env k (m # history) ?s \<and> stream ?s = Some st"
      using Cons.prems by (intro live_message_step) simp_all
    with Cons.IH[of ?s "m # history"] Cons.prems app_inv_step show ?case by simp
  qed simp
  then show ?thesis by (simp add: shows_log_def)
qed

theorem live_updates_refine_query_witness:
  "map msg_key (messages (run (app_step sample_env)
     (map (\<lambda>m. StreamMessage 6 (Some m)) [sample_message ''d'' ''web'' ''15'', sample_message ''c'' ''db'' ''30''])
     (sample_run first_answer))) = [''c'', ''b'', ''d'', ''a'']"
proof -
  let ?history = "[sample_message ''b'' ''web'' ''20'', sample_message ''a'' ''db'' ''10'']"
  let ?ms = "[sample_message ''d'' ''web'' ''15'', sample_message ''c'' ''db'' ''30'']"
  let ?st = "\<lparr>strm_filter = [], strm_hosts = [], strm_limit = 100\<rparr>"
  let ?t = "run (app_step sample_env) (map (\<lambda>m. StreamMessage 6 (Some m)) ?ms) (sample_run first_answer)"
  have "stream (sample_run first_answer) = Some ?st" by code_simp
  moreover have "strm_limit ?st = int 100" by simp
  moreover have "\<forall>m \<in> set ?ms. wanted_host ?st m" by (simp add: wanted_host_def)
  moreover have "distinct (map msg_key (rev ?ms @ ?history))" by code_simp
  moreover have "map msg_key (messages (sample_run first_answer)) = [''b'', ''a'']" by code_simp
  moreover have "shows_log sample_env 100 ?history (sample_run first_answer)"
    unfolding shows_log_def by code_simp
  ultimately have "messages ?t = latest_page (dateParse sample_env) 100 (rev ?ms @ ?history)"
    using live_updates_refine_query[OF sample_reachable[OF first_answer_allowed], of ?st 100 ?ms ?history "\<lambda>_. 6"]
    by blast
  moreover have "map msg_key (latest_page (dateParse sample_env) 100 (rev ?ms @ ?history)) = [''c'', ''b'', ''d'', ''a'']"
    by code_simp
  ultimately show ?thesis by simp
qed

section \<open>Imports\<close>

definition import_inv :: "app \<Rightarrow> bool" where
  "import_inv s \<longleftrightarrow> length (importCalls s) \<le> 1 \<and> (importing s \<longleftrightarrow> importCalls s \<noteq> [])"

lemma importing_effects [simp]: "importing (run_effects env s) = importing s"
  by (simp add: effects split: page_size.splits)

lemma importing_settle [simp]: "importing (settle env s) = importing s"
  by (simp add: settle_code)

lemma single_filter:
  "length xs \<le> 1 \<Longrightarrow> find P xs = Some c \<Longrightarrow> (\<And>x. Q x \<longleftrightarrow> \<not> P x) \<Longrightarrow> filter Q xs = []"
  by (cases xs) (auto split: if_splits)

lemma import_inv_step:
  assumes "import_inv s" "enabled env s e"
  shows "import_inv (app_step env e s)"
proof (cases e)
  case (ImportFile f)
  with assms show ?thesis
    by (auto simp: import_inv_def app_step_def enabled_def toolbar_of_def handleImportFile_def Let_def
        split: option.splits)
next
  case (ImportDone i out)
  show ?thesis
  proof (cases "find (\<lambda>c. imp_id c = i) (importCalls s)")
    case None
    with assms ImportDone show ?thesis
      by (auto simp: import_inv_def enabled_def find_None_iff)
  next
    case (Some c)
    have "filter (\<lambda>c. imp_id c \<noteq> i) (importCalls s) = []"
      by (rule single_filter[OF _ Some]) (use assms in \<open>auto simp: import_inv_def\<close>)
    with Some ImportDone show ?thesis
      by (auto simp: import_inv_def app_step_def importDone_def start_refresh_def Let_def split: sum.splits)
  qed
qed (use assms in \<open>auto simp: import_inv_def app_step_def handlers split: option.splits sum.splits\<close>)

interpretation import_machine: invariant_machine "opened env" "app_step env" "enabled env" import_inv for env
proof unfold_locales
  show "import_inv s" if "opened env s" for s
    using that by (auto simp: opened_def mount_def import_inv_def initial_def)
qed (rule import_inv_step)

text \<open>One import at a time: the import button is disabled exactly while an import is in
  flight, so a second one cannot start, and the end of the import enables it again, whether it
  succeeded or failed.\<close>

theorem one_import_at_a_time:
  assumes "reachable env s"
  shows "length (importCalls s) \<le> 1
       \<and> (import_disabled (toolbar_of env s) \<longleftrightarrow> importCalls s \<noteq> [])
       \<and> (\<forall>c \<in> set (importCalls s). \<forall>out.
            importCalls (app_step env (ImportDone (imp_id c) out) s) = []
          \<and> \<not> import_disabled (toolbar_of env (app_step env (ImportDone (imp_id c) out) s)))"
proof -
  have inv: "import_inv s" by (rule import_machine.reach_inv[OF assms])
  have ends: "importCalls (app_step env (ImportDone (imp_id c) out) s) = []
      \<and> \<not> importing (app_step env (ImportDone (imp_id c) out) s)"
    if "c \<in> set (importCalls s)" for c out
  proof -
    have "importCalls s = [c]"
      using inv that by (cases "importCalls s") (auto simp: import_inv_def)
    then show ?thesis
      by (simp add: app_step_def importDone_def start_refresh_def Let_def split: sum.split)
  qed
  show ?thesis
    using inv ends by (simp add: import_inv_def toolbar_of_def)
qed

definition importing_run :: "event list" where
  "importing_run = first_answer @ [ImportFile (Some \<lparr>file_type = [], contents = ''x''\<rparr>)]"

theorem one_import_at_a_time_witness:
  "map imp_id (importCalls (sample_run importing_run)) = [1] \<and>
   import_disabled (toolbar_of sample_env (sample_run importing_run)) \<and>
   importCalls (app_step sample_env (ImportDone 1 (Rejected NotAnError)) (sample_run importing_run)) = []"
proof -
  have "sample_allowed importing_run" by code_simp
  moreover have "importCalls (sample_run importing_run) =
      [\<lparr>imp_id = 1, imp_page = 0, imp_params = \<lparr>query = [], hosts = [], limit = 100, offset = 0\<rparr>\<rparr>]"
    by code_simp
  ultimately show ?thesis
    using one_import_at_a_time[OF sample_reachable, of importing_run] by simp
qed

section \<open>The fitted page size and the error banner\<close>

text \<open>
  The fit effect measures the page with the error banner and, because the banner is one of its
  dependencies, again without it. Where the banner costs at least one row, the two counts
  differ, each change of the limit starts a new request, and a new request clears the banner.
\<close>

text \<open>The message page of \<open>r\<close> shows what that of \<open>s\<close> shows, but for the error, the icons of a running request
  and of live updates, and the number of rows.\<close>

definition same_view :: "app \<Rightarrow> app \<Rightarrow> bool" where
  "same_view s r \<longleftrightarrow> (\<exists>e l a c. app_state.truncate r =
     app_state.truncate (s\<lparr>errorText := e, loading := l, autoRefresh := a, calculatedLimit := c\<rparr>))"

text \<open>On the message page, where the banner is rendered, it is all that changes the layout of such pages, and it
  takes the room of a row of the table at least.\<close>

definition banner_costs_a_row :: "host_env \<Rightarrow> app \<Rightarrow> bool" where
  "banner_costs_a_row env s \<longleftrightarrow> \<not> showingIncidents s
     \<and> (\<exists>height.
          (\<forall>r. same_view s r \<longrightarrow> layoutOf env r = (layoutOf env s)
             \<lparr>errorHeight := if present (errorText r) then Some (height (text_of (errorText r))) else None\<rparr>)
        \<and> (\<forall>e. e \<noteq> [] \<longrightarrow> fit_count ((layoutOf env s)\<lparr>errorHeight := Some (height e)\<rparr>)
                         \<noteq> fit_count ((layoutOf env s)\<lparr>errorHeight := None\<rparr>)))"

lemma same_view_refl: "same_view s s"
  unfolding same_view_def by (intro exI[of _ "errorText s"] exI[of _ "loading s"] exI[of _ "autoRefresh s"]
      exI[of _ "calculatedLimit s"]) simp

lemma same_view_trans: "same_view s r \<Longrightarrow> same_view r t \<Longrightarrow> same_view s t"
  by (auto simp: same_view_def app_state.truncate_def)

lemma same_view_sym: "same_view s r \<Longrightarrow> same_view r s"
  by (auto simp: same_view_def app_state.truncate_def)

lemma same_view_effects: "same_view s (run_effects env s)"
  unfolding same_view_def app_state.truncate_def by (simp add: effects split: page_size.splits)

lemma same_view_settle: "same_view s (settle env s)"
  by (rule settle_inv[where P = "same_view s"]) (blast intro: same_view_refl same_view_trans same_view_effects)+

lemma banner_costs_same:
  assumes "banner_costs_a_row env s" "same_view s r"
  shows "banner_costs_a_row env r"
proof -
  obtain height where h: "\<And>r. same_view s r \<Longrightarrow> layoutOf env r = (layoutOf env s)
      \<lparr>errorHeight := if present (errorText r) then Some (height (text_of (errorText r))) else None\<rparr>"
    "\<And>e. e \<noteq> [] \<Longrightarrow> fit_count ((layoutOf env s)\<lparr>errorHeight := Some (height e)\<rparr>)
       \<noteq> fit_count ((layoutOf env s)\<lparr>errorHeight := None\<rparr>)"
    and page: "\<not> showingIncidents s"
    using assms(1) unfolding banner_costs_a_row_def by blast
  have "\<not> showingIncidents r"
    using page assms(2) by (auto simp: same_view_def app_state.truncate_def showingIncidents_def)
  moreover have "layoutOf env t = (layoutOf env r)
      \<lparr>errorHeight := if present (errorText t) then Some (height (text_of (errorText t))) else None\<rparr>" if "same_view r t" for t
    using h(1)[OF assms(2)] h(1)[OF same_view_trans[OF assms(2) that]] by simp
  moreover have "fit_count ((layoutOf env r)\<lparr>errorHeight := Some (height e)\<rparr>)
      \<noteq> fit_count ((layoutOf env r)\<lparr>errorHeight := None\<rparr>)" if "e \<noteq> []" for e
    using h(1)[OF assms(2)] h(2)[OF that] by simp
  ultimately show ?thesis unfolding banner_costs_a_row_def by blast
qed

lemma banner_counts:
  assumes "banner_costs_a_row env s" "same_view s r" "same_view s r'" "errorText r = None"
  shows "errorText r' = None \<Longrightarrow> fit_count (layoutOf env r') = fit_count (layoutOf env r)"
    and "present (errorText r') \<Longrightarrow> fit_count (layoutOf env r') \<noteq> fit_count (layoutOf env r)"
  using assms by (auto simp: banner_costs_a_row_def present_def text_of_def)

lemma fit_changed:
  "changed (run_effects env s) fit_deps \<longleftrightarrow>
   text_of (errorText (run_effects env s)) \<noteq> text_of (errorText s)"
  unfolding changed_run_effects
  by (auto simp: dependencies_of_def text_of_def simp del: effects_changes)

lemma refresh_changed:
  "changed (run_effects env s) refresh_deps \<longleftrightarrow>
   calculatedLimit (run_effects env s) \<noteq> calculatedLimit s"
  unfolding changed_run_effects
  by (auto simp: dependencies_of_def simp del: effects_changes)

lemma fit_oscillates:
  assumes auto: "pageSizeSetting u = Auto"
    and deps: "changed u fit_deps" "\<not> changed u refresh_deps"
    and err: "present (errorText u)"
    and less_room: "fit_count (layoutOf env u) \<noteq> calculatedLimit u"
    and rows: "\<And>r. same_view u r \<Longrightarrow> errorText r = None \<Longrightarrow> fit_count (layoutOf env r) = calculatedLimit u"
  shows "errorText (settle env u) = None \<and> calculatedLimit (settle env u) = calculatedLimit u
       \<and> (\<exists>q' \<in> set (requests (settle env u)). signalled q' \<and> \<not> aborted q' \<and> req_id q' = Suc (nextId u))"
proof -
  define s1 where "s1 = run_effects env u"
  define s2 where "s2 = run_effects env s1"
  define s3 where "s3 = run_effects env s2"
  note round = fit_changed refresh_changed
  have banner: "text_of (errorText u) \<noteq> []"
    using err by (auto simp: present_def text_of_def)
  have s1: "calculatedLimit s1 = fit_count (layoutOf env u)" "errorText s1 = errorText u"
    "nextId s1 = nextId u" "pageSizeSetting s1 = Auto"
    using deps by (simp_all add: s1_def fitted_def auto)
  have "\<not> changed s1 fit_deps" "changed s1 refresh_deps"
    using s1 less_room round[of env u] by (simp_all flip: s1_def)
  then have s2: "calculatedLimit s2 = calculatedLimit s1" "errorText s2 = None"
    "nextId s2 = Suc (nextId u)" "pageSizeSetting s2 = Auto"
    by (simp_all add: s2_def s1)
  have "same_view u s2" unfolding s2_def s1_def by (blast intro: same_view_trans same_view_effects)
  have "changed s2 fit_deps" "\<not> changed s2 refresh_deps"
    using s1 s2 banner round[of env s1] by (simp_all add: text_of_def flip: s2_def)
  then have s3: "calculatedLimit s3 = calculatedLimit u" "errorText s3 = None" "nextId s3 = Suc (nextId u)"
    using rows[OF \<open>same_view u s2\<close> s2(2)] by (simp_all add: s3_def s2 fitted_def)
  have "\<not> changed s3 fit_deps" "changed s3 refresh_deps"
    using s1 s2 s3 less_room round[of env s2] by (simp_all flip: s3_def)
  moreover have "settle env u = run_effects env s3"
    by (simp add: settle_code s1_def s2_def s3_def)
  ultimately show ?thesis
    using s3 by simp
qed

text \<open>The message page at rest, with the fitted page size, no error, and room that an error would take.\<close>

definition fitted_page :: "host_env \<Rightarrow> app \<Rightarrow> bool" where
  "fitted_page env s \<longleftrightarrow> pageSizeSetting s = Auto \<and> errorText s = None
     \<and> calculatedLimit s = fit_count (layoutOf env s) \<and> banner_costs_a_row env s"

text \<open>C28: With the fitted page size, a server that fails is asked again at once, for ever. When the message page
  is shown, no error is on it, and the banner of an error would cost at least one row, a failed answer is followed by
  a new request: the renders in which the effects run show the error and measure the page with it, and once no effect
  is left to run the error is gone, the limit is what it was, and the new request is in flight. All the conditions
  hold again, so the failure of that request does the same.\<close>

theorem fitted_page_retries_forever:
  fixes now :: int
  assumes "reachable env s" "fitted_page env s"
    and "q \<in> set (requests s)" "signalled q" "\<not> aborted q"
    and "settle_with listMessages_response out = Inl err" "\<not> is_abort err"
    and "error_message ''Request failed'' err \<noteq> []"
  defines "t \<equiv> app_step env (RefreshDone now (req_id q) out) s"
  shows "reachable env t \<and> fitted_page env t \<and> calculatedLimit t = calculatedLimit s
       \<and> (\<exists>q' \<in> set (requests t). signalled q' \<and> \<not> aborted q' \<and> nextId s \<le> req_id q')"
proof -
  have fit: "pageSizeSetting s = Auto" "errorText s = None" "calculatedLimit s = fit_count (layoutOf env s)"
      "banner_costs_a_row env s"
    using assms(2) by (simp_all add: fitted_page_def)
  define u where "u = handle env (RefreshDone now (req_id q) out) s"
  have "find (\<lambda>x. req_id x = req_id q) (requests s) = Some q"
    using reachable_requests[OF assms(1)] assms(3) by (simp add: find_id)
  then have u: "u = s\<lparr>requests := filter (\<lambda>x. req_id x \<noteq> req_id q) (requests s),
      errorText := Some (error_message ''Request failed'' err), loading := False\<rparr>"
    using assms(5-7) by (simp add: u_def refreshDone_def finish_refresh_def Let_def)
  have view: "same_view s u" unfolding same_view_def u
    by (intro exI[of _ "Some (error_message ''Request failed'' err)"] exI[of _ False] exI[of _ "autoRefresh s"]
        exI[of _ "calculatedLimit s"]) (simp add: app_state.truncate_def)
  note counts = banner_counts[OF fit(4) same_view_refl _ fit(2)]
  have rows: "fit_count (layoutOf env r) = calculatedLimit u" if "same_view u r" "errorText r = None" for r
    using counts(1)[OF same_view_trans[OF view that(1)] that(2)] fit(3) by (simp add: u)
  have t: "t = settle env u" by (simp add: t_def u_def app_step_def)
  have after: "errorText t = None \<and> calculatedLimit t = calculatedLimit u
       \<and> (\<exists>q' \<in> set (requests t). signalled q' \<and> \<not> aborted q' \<and> req_id q' = Suc (nextId u))"
    unfolding t
  proof (rule fit_oscillates)
    have com: "committed u = Some (dependencies_of s)"
      using reachable_quiet[OF assms(1)] by (simp add: u quiet_def)
    show "changed u fit_deps" "\<not> changed u refresh_deps"
      using fit(2) assms(8) by (simp_all add: changed_def com) (simp_all add: dependencies_of_def u)
    show "present (errorText u)" "pageSizeSetting u = Auto"
      using fit(1) assms(8) by (simp_all add: u present_def)
    then show "fit_count (layoutOf env u) \<noteq> calculatedLimit u"
      using counts(2)[OF view] fit(3) by (simp add: u)
  qed (rule rows)
  have "same_view u t" unfolding t by (rule same_view_settle)
  then have "banner_costs_a_row env t" "fit_count (layoutOf env t) = calculatedLimit u"
    using banner_costs_same[OF fit(4) same_view_trans[OF view]] rows after by simp_all
  moreover have "pageSizeSetting t = Auto"
    using \<open>same_view u t\<close> fit(1) by (auto simp: same_view_def app_state.truncate_def u)
  moreover have "reachable env t"
    unfolding t_def by (rule reachable_step[OF assms(1)]) (use assms(3) in \<open>auto simp: enabled_def Let_def\<close>)
  ultimately show ?thesis
    using after by (auto simp: fitted_page_def u)
qed

lemma sample_fit: "fit_count (layoutOf sample_env r) = (if present (errorText r) then 18 else 19)"
proof -
  have "\<lfloor>3705 / 196 :: rat\<rfloor> = 18" "\<lfloor>3905 / 196 :: rat\<rfloor> = 19"
    by (simp_all add: floor_eq_iff)
  then show ?thesis
    by (simp add: sample_env_def sample_layout_def fit_count_def option_height_def Let_def)
qed

lemma sample_banner: "\<not> showingIncidents s \<Longrightarrow> banner_costs_a_row sample_env s"
  using sample_fit[of "s\<lparr>errorText := None\<rparr>"] sample_fit[of "s\<lparr>errorText := Some ''x''\<rparr>"]
  unfolding banner_costs_a_row_def
  by (intro conjI exI[of _ "\<lambda>_. 40"]) (simp_all add: sample_env_def sample_layout_def present_def)

theorem fitted_page_retries_forever_witness:
  "let s = mount sample_env [storageKey \<mapsto> ''auto''] ''/'';
       t = app_step sample_env (RefreshDone 5 1 (Rejected (JsError ''Failed to fetch''))) s
   in errorText t = None \<and> calculatedLimit t = 19 \<and> (\<exists>q' \<in> set (requests t). signalled q' \<and> \<not> aborted q')"
proof -
  let ?s = "mount sample_env [storageKey \<mapsto> ''auto''] ''/''"
  let ?q = "\<lparr>req_id = 1, req_params = \<lparr>query = [], hosts = [], limit = 19, offset = 0\<rparr>, signalled = True, aborted = False\<rparr>"
  have s: "pageSizeSetting ?s = Auto \<and> errorText ?s = None \<and> calculatedLimit ?s = 19 \<and> route ?s = ''/''
      \<and> ?q \<in> set (requests ?s)"
    by code_simp
  then have "fitted_page sample_env ?s"
    using sample_banner[of ?s] by (simp add: fitted_page_def showingIncidents_def sample_fit present_def)
  then show ?thesis
    using s fitted_page_retries_forever[OF reachable_mount _ , of sample_env "[storageKey \<mapsto> ''auto'']" "''/''" ?q
        "Rejected (JsError ''Failed to fetch'')" "JsError ''Failed to fetch''" 5]
    by (auto simp: Let_def fitted_page_def)
qed

end
