(* ===== verification/Client_Properties.thy ===== *)
theory Client_Properties
  imports App_Properties
begin

text \<open>
  The properties of the client functions, of the timeline's helpers, and of what the pages
  render, with concrete inputs.
\<close>

section \<open>What is asked of the server\<close>

text \<open>What a server reads from the address of a page request is what the page asked for: its
  limit and offset as decimals, the trimmed non-empty hosts in order, and the trimmed filter,
  which is absent when it is blank.\<close>

theorem messages_url_read_back:
  "\<exists>text. url (listMessages_request p) = ''/api/v1/messages?'' @ text
     \<and> values_get (parse_query text) ''limit'' = dec (limit p)
     \<and> values_get (parse_query text) ''offset'' = dec (offset p)
     \<and> values_all (parse_query text) ''host'' = filter (\<lambda>h. h \<noteq> []) (map js_trim (hosts p))
     \<and> values_get (parse_query text) ''q'' = js_trim (query p)"
  by (rule exI[of _ "serialize (listMessages_query p)"])
    (simp add: listMessages_request_def values_get_def values_all_def listMessages_query_form
      map_add_def filter_hosts o_def split: option.split)

text \<open>C29: \<open>listMessages\<close> settles to a value exactly when the server answered with a status from 200
  to 299 and a body that parses; a 401 asks to sign in; and no answer of the server, whatever
  its status, passes for an abort, unless reading its body was aborted.\<close>

theorem listMessages_settles:
  "(settle_with listMessages_response out = Inr v \<longleftrightarrow>
      (\<exists>r. out = Responded r \<and> 200 \<le> status r \<and> status r \<le> 299 \<and> json r = Inr v))
   \<and> (\<forall>r. out = Responded r \<longrightarrow> status r = 401 \<longrightarrow>
        settle_with listMessages_response out = Inl (JsError ''Authentication required''))
   \<and> (settle_with listMessages_response out = Inl (AbortError t) \<longleftrightarrow>
        out = Rejected (AbortError t)
        \<or> (\<exists>r. out = Responded r \<and> 200 \<le> status r \<and> status r \<le> 299 \<and> json r = Inl (AbortError t)))"
  using list_client.value_iff[of out v] list_client.abort_iff[of out t] list_client.unauthorized_outcome[of out]
  by (auto simp: ok_def simp del: settle_with.simps)

theorem listMessages_settles_witness:
  "settle_with listMessages_response
     (Responded \<lparr>status = 401, json = Inl NotAnError, json_error = Some ''no''\<rparr>) =
   Inl (JsError ''Authentication required'')"
  using listMessages_settles[of "Responded \<lparr>status = 401, json = Inl NotAnError, json_error = Some ''no''\<rparr>"]
  by simp

lemma find_append: "find P (xs @ ys) = (case find P xs of None \<Rightarrow> find P ys | Some x \<Rightarrow> Some x)"
  by (induction xs) auto

lemma find_first:
  assumes "find P xs = Some x"
  shows "\<exists>before after. xs = before @ x # after \<and> P x \<and> (\<forall>y \<in> set before. \<not> P y)"
proof -
  obtain i where i: "i < length xs" "P (xs ! i)" "x = xs ! i" "\<forall>j < i. \<not> P (xs ! j)"
    using assms by (auto simp: find_Some_iff)
  then have "xs = take i xs @ x # drop (Suc i) xs" by (simp add: id_take_nth_drop)
  moreover have "\<forall>y \<in> set (take i xs). \<not> P y" using i by (auto simp: in_set_conv_nth)
  ultimately show ?thesis using i by blast
qed

lemma find_map: "find P (map f xs) = map_option f (find (\<lambda>x. P (f x)) xs)"
  by (induction xs) auto

lemma promise_all_cases:
  fixes p a r :: "js_error + IncidentsResponse" and h :: "js_error + IncidentHealth"
  assumes "set ended = {0, 1, 2, 3 :: nat}"
  defines "errors \<equiv> [rejection p, rejection a, rejection r, rejection h]"
  shows "promise_all ended p a r h =
    (case find (\<lambda>i. errors ! i \<noteq> None) ended of
       Some i \<Rightarrow> Inl (the (errors ! i))
     | None \<Rightarrow> Inr (projr p, projr a, projr r, projr h))"
proof -
  have all: "filter (\<lambda>i. i < 4) ended = ended"
    using assms(1) by (intro filter_True) auto
  show ?thesis
  proof (cases "find (\<lambda>i. errors ! i \<noteq> None) ended")
    case None
    then have "\<forall>i \<in> {0, 1, 2, 3}. errors ! i = None"
      unfolding find_None_iff assms(1) by blast
    then have "find (\<lambda>x. x \<noteq> None) errors = None"
      by (simp add: errors_def)
    with None show ?thesis
      unfolding promise_all_def Let_def errors_def[symmetric] all find_append find_map by simp
  next
    case (Some i)
    then have "errors ! i \<noteq> None" by (auto simp: find_Some_iff)
    with Some show ?thesis
      unfolding promise_all_def Let_def errors_def[symmetric] all find_append find_map by auto
  qed
qed

lemma no_rejection: "rejection out = None \<longleftrightarrow> (\<exists>v. out = Inr v)"
  by (cases out) (auto simp: rejection_def)

text \<open>The incident page is all or nothing: its four calls give a value exactly when every one of
  them does; otherwise the result is the error of the call that failed first.\<close>

theorem incident_calls_all_or_nothing:
  assumes "set ended = {0, 1, 2, 3}"
  shows "(promise_all ended p a r h = Inr (p', a', r', h') \<longleftrightarrow>
            p = Inr p' \<and> a = Inr a' \<and> r = Inr r' \<and> h = Inr h')
       \<and> (promise_all ended p a r h = Inl err \<longrightarrow>
            (\<exists>i before after. ended = before @ i # after
               \<and> [rejection p, rejection a, rejection r, rejection h] ! i = Some err
               \<and> (\<forall>j \<in> set before. [rejection p, rejection a, rejection r, rejection h] ! j = None)))"
proof (cases "find (\<lambda>i. [rejection p, rejection a, rejection r, rejection h] ! i \<noteq> None) ended")
  case None
  then have "\<forall>i \<in> {0, 1, 2, 3}. [rejection p, rejection a, rejection r, rejection h] ! i = None"
    unfolding find_None_iff assms by blast
  then show ?thesis
    unfolding promise_all_cases[OF assms] None by (auto simp: no_rejection)
next
  case (Some i)
  then have "i \<in> set ended" "[rejection p, rejection a, rejection r, rejection h] ! i \<noteq> None"
    by (auto simp: find_Some_iff)
  then have "\<not> (p = Inr p' \<and> a = Inr a' \<and> r = Inr r' \<and> h = Inr h')"
    unfolding assms by (auto simp: rejection_def)
  then show ?thesis
    unfolding promise_all_cases[OF assms] Some using find_first[OF Some] by fastforce
qed

definition sample_answers :: incident_answers where
  "sample_answers =
     (let page = \<lparr>incidents_data = [], incidents_meta = \<lparr>count = 0, meta_limit = 100, meta_offset = 0, has_more = False\<rparr>\<rparr>
      in (page, page, page,
          \<lparr>running = True, stale = False, last_reconciled_at = None, last_processed_at = None,
           health_error = None, pending_jobs = 0\<rparr>))"

theorem incident_calls_all_or_nothing_witness:
  "case sample_answers of (p, a, r, h) \<Rightarrow>
     promise_all [2, 0, 1, 3] (Inr p) (Inr a) (Inr r) (Inr h) = Inr (p, a, r, h)
   \<and> promise_all [2, 0, 1, 3] (Inl NotAnError) (Inr a) (Inl (JsError ''late'')) (Inr h) \<noteq> Inr (p, a, r, h)"
proof -
  obtain p a r h where answers: "sample_answers = (p, a, r, h)" by (cases sample_answers) auto
  have order: "set [2, 0, 1, 3] = {0, 1, 2, 3 :: nat}" by auto
  show ?thesis
    unfolding answers prod.case
    using incident_calls_all_or_nothing[OF order, of "Inr p" "Inr a" "Inr r" "Inr h" p a r h]
      incident_calls_all_or_nothing[OF order, of "Inl NotAnError" "Inr a" "Inl (JsError ''late'')" "Inr h" p a r h]
    by blast
qed

section \<open>Hosts and messages\<close>

lemma bytes_before_refl: "bytes_before xs xs = 0"
  by (induction xs) auto

lemma bytes_before_char: "of_char x < (of_char y :: nat) \<or> x = y \<or> of_char y < (of_char x :: nat)"
  by (metis linorder_neqE_nat of_char_eq_iff)

lemma bytes_before_flip: "bytes_before ys xs = - bytes_before xs ys"
proof (induction xs ys rule: bytes_before.induct)
  case (4 x xs y ys)
  then show ?case using bytes_before_char[of x y] by auto
qed auto

lemma bytes_before_zero: "bytes_before xs ys = 0 \<Longrightarrow> xs = ys"
  by (induction xs ys rule: bytes_before.induct) (auto split: if_splits)

lemma bytes_before_trans:
  "bytes_before xs ys \<le> 0 \<Longrightarrow> bytes_before ys zs \<le> 0 \<Longrightarrow> bytes_before xs zs \<le> 0"
proof (induction xs ys arbitrary: zs rule: bytes_before.induct)
  case (4 x xs y ys)
  then show ?case by (cases zs) (auto split: if_splits)
next
  case (2 y ys)
  then show ?case by (cases zs) auto
qed (auto split: if_splits)

interpretation byte_order: js_comparator bytes_before
proof unfold_locales
  show "bytes_before a b \<le> 0 \<or> bytes_before b a \<le> 0" for a b
    using bytes_before_flip[of a b] by linarith
qed (rule bytes_before_trans)

context js_comparator begin

text \<open>Without ties, an ordered list of distinct elements is determined by its set.\<close>

lemma ordered_set_unique:
  assumes no_ties: "\<And>a b. tied a b \<Longrightarrow> a = b"
    and "ordered xs" "ordered ys" "distinct xs" "distinct ys" "set xs = set ys"
  shows "xs = ys"
proof (rule ordered_unique)
  show "mset xs = mset ys" using assms by (simp add: set_eq_iff_mset_eq_distinct)
  have ties: "tied a = (\<lambda>b. b = a)" for a
    using no_ties total[of a a] by (auto simp: tied_def fun_eq_iff)
  have one: "filter (\<lambda>b. b = a) zs = (if a \<in> set zs then [a] else [])" if "distinct zs" for a zs
    using that by (induction zs) auto
  show "filter (tied a) xs = filter (tied a) ys" for a
    unfolding ties one[OF assms(4)] one[OF assms(5)] assms(6) by (rule refl)
qed (use assms in simp_all)

end

text \<open>The host list is canonical: it holds exactly the trimmed non-empty names, once each, in
  the collation's order, and for a collation that ties no two names it depends on nothing
  but that set, so two lists of the same names in any order and spacing come out equal.\<close>

theorem hosts_are_canonical:
  assumes "js_comparator lc" "\<And>a b. lc a b \<le> 0 \<Longrightarrow> lc b a \<le> 0 \<Longrightarrow> a = b"
  shows "set (sortedUniqueHosts lc xs) = js_trim ` set xs - {[]}
       \<and> distinct (sortedUniqueHosts lc xs)
       \<and> sorted_wrt (\<lambda>a b. lc a b \<le> 0) (sortedUniqueHosts lc xs)
       \<and> (sortedUniqueHosts lc xs = sortedUniqueHosts lc ys \<longleftrightarrow>
            js_trim ` set xs - {[]} = js_trim ` set ys - {[]})"
proof -
  note order = js_comparator.ordered_js_sort[OF assms(1)] js_comparator.ordered_def[OF assms(1)]
  have sorted: "js_comparator.ordered lc (sortedUniqueHosts lc zs)" for zs
    by (simp add: sortedUniqueHosts_def order(1))
  have "sortedUniqueHosts lc xs = sortedUniqueHosts lc ys"
    if "js_trim ` set xs - {[]} = js_trim ` set ys - {[]}"
    by (rule js_comparator.ordered_set_unique[OF assms(1) _ sorted sorted])
      (use assms that in \<open>auto simp: js_comparator.tied_def set_sortedUniqueHosts distinct_sortedUniqueHosts\<close>)
  moreover have "js_trim ` set xs - {[]} = js_trim ` set ys - {[]}"
    if "sortedUniqueHosts lc xs = sortedUniqueHosts lc ys"
    using that set_sortedUniqueHosts[of lc xs] set_sortedUniqueHosts[of lc ys] by metis
  ultimately show ?thesis
    using sorted[of xs] by (auto simp only: order(2) distinct_sortedUniqueHosts set_sortedUniqueHosts)
qed

theorem hosts_are_canonical_witness:
  "sortedUniqueHosts bytes_before ['' web'', ''db'', [], ''web''] = sortedUniqueHosts bytes_before [''web '', ''db '']"
proof -
  have "js_comparator bytes_before" by unfold_locales
  moreover have "a = b" if "bytes_before a b \<le> 0" "bytes_before b a \<le> 0" for a b
    using that bytes_before_flip[of a b] bytes_before_zero[of a b] by simp
  moreover have "js_trim ` set ['' web'', ''db'', [], ''web''] - {[]} = js_trim ` set [''web '', ''db ''] - {[]}"
    by code_simp
  ultimately show ?thesis
    using hosts_are_canonical[of bytes_before "['' web'', ''db'', [], ''web'']" "[''web '', ''db '']"] by blast
qed

text \<open>Merging a live message, a repeated one or an edited one included: the rows are the latest
  first, no message appears twice, nothing that is dropped is later than anything kept, there
  are at most as many rows as the limit, and while there is room the new message is among
  them in place of the row with its key.\<close>

theorem merge_keeps_rows_in_order:
  assumes "distinct (map msg_key existing)" "0 \<le> n"
  shows "sorted_wrt (\<lambda>a b. receivedAtMillis dp b \<le> receivedAtMillis dp a) (nextMessages dp n m existing)
       \<and> distinct (map msg_key (nextMessages dp n m existing))
       \<and> int (length (nextMessages dp n m existing)) \<le> n
       \<and> (\<forall>d \<in> set (m # filter (\<lambda>e. msg_key e \<noteq> msg_key m) existing) - set (nextMessages dp n m existing).
            \<forall>k \<in> set (nextMessages dp n m existing). receivedAtMillis dp d \<le> receivedAtMillis dp k)
       \<and> (int (length existing) < n \<longrightarrow>
            set (nextMessages dp n m existing) = insert m {e \<in> set existing. msg_key e \<noteq> msg_key m})"
proof -
  have rows: "set (merged dp m existing) = insert m {e \<in> set existing. msg_key e \<noteq> msg_key m}"
    by (auto simp: merged_def)
  have "set (nextMessages dp n m existing) = set (merged dp m existing)" if "int (length existing) < n"
    using that length_merged[of dp m existing] by (simp add: nextMessages_def slice0_def)
  moreover have "sorted_wrt (\<lambda>a b. receivedAtMillis dp b \<le> receivedAtMillis dp a) (nextMessages dp n m existing)"
    using ordered_nextMessages[of dp n m existing]
    by (simp add: latest_first.ordered_def compareMessagesLatestFirst_def)
  moreover have "distinct (map msg_key (nextMessages dp n m existing))"
    unfolding nextMessages_def by (rule distinct_map_slice0[OF distinct_keys_merged[OF assms(1)]])
  moreover have "int (length (nextMessages dp n m existing)) \<le> n"
    using assms(2) by (simp add: nextMessages_def length_slice0)
  ultimately show ?thesis
    using dropped_not_later[OF assms(2), of _ dp m existing] rows by auto
qed

theorem merge_keeps_rows_in_order_witness:
  "map msg_key (nextMessages (dateParse sample_env) 2 (sample_message ''a'' ''db'' ''40'')
     [sample_message ''b'' ''web'' ''20'', sample_message ''a'' ''db'' ''10'']) = [''a'', ''b'']
   \<and> distinct (map msg_key (nextMessages (dateParse sample_env) 2 (sample_message ''a'' ''db'' ''40'')
     [sample_message ''b'' ''web'' ''20'', sample_message ''a'' ''db'' ''10'']))"
proof -
  let ?rows = "[sample_message ''b'' ''web'' ''20'', sample_message ''a'' ''db'' ''10'']"
  have "distinct (map msg_key ?rows)" by (simp add: sample_message_def)
  moreover have "map msg_key (nextMessages (dateParse sample_env) 2 (sample_message ''a'' ''db'' ''40'') ?rows)
      = [''a'', ''b'']"
    by code_simp
  ultimately show ?thesis
    using merge_keeps_rows_in_order[of ?rows 2] by simp
qed

text \<open>The exported file is one line per visible message and nothing else: split at newlines it
  gives the messages' JSON texts in order, whatever characters the messages hold, and an empty
  rest after the last newline.\<close>

theorem export_is_line_per_message:
  assumes "enabled env s (Export now)" "\<forall>m \<in> set (messages s). message_well_formed m"
  shows "downloads (handle env (Export now) s) =
           downloads s @ [(export_name (isoText env now), export_body (messages s))]
       \<and> split_on newline (export_body (messages s)) = map (\<lambda>m. stringify (message_json m)) (messages s) @ [[]]"
proof -
  have "messages s \<noteq> []"
    using assms(1) by (auto simp: enabled_def toolbar_of_def)
  then show ?thesis
    using export_lines[OF _ assms(2)] by (simp add: handleExport_def)
qed

theorem export_is_line_per_message_witness:
  "length (split_on newline (export_body (messages (sample_run first_answer)))) = 3"
proof -
  have "enabled sample_env (sample_run first_answer) (Export 7)" by code_simp
  moreover have "messages (sample_run first_answer) = [sample_message ''b'' ''web'' ''20'', sample_message ''a'' ''db'' ''10'']"
    by code_simp
  moreover have "message_well_formed (sample_message i h t)" for i h t
    by (simp add: message_well_formed_def sample_message_def message_json_def opt_field_def)
  ultimately show ?thesis
    using export_is_line_per_message[of sample_env "sample_run first_answer" 7] by simp
qed

section \<open>What the pages show\<close>

lemma dec_not_word: "\<not> is_digit c \<Longrightarrow> c \<notin> set ''+-.e'' \<Longrightarrow> dec n @ s \<noteq> c # cs"
  using dec_numeral_text[of n] by (cases "dec n") (auto simp: numeral_text_def)

lemma sorted_wrt_filter_all: "\<forall>x \<in> set xs. \<forall>y \<in> set xs. P x y \<Longrightarrow> sorted_wrt P xs"
  by (induction xs) auto

text \<open>Every incident of the last answer is shown exactly once, in the current table or in the
  history; in the current table outages come before suspected ones; the badges count the rows
  of their tables, and the summary says all is well exactly when the current table is empty and
  the last load did not fail.\<close>

theorem incidents_partitioned:
  "mset (currentIncidents s @ resolvedIncidents s) = mset (incidents s)
   \<and> sorted_wrt (\<lambda>i j. state j = pending_failure \<or> state i \<noteq> pending_failure) (currentIncidents s)
   \<and> (\<forall>i \<in> set (currentIncidents s). state i \<noteq> resolved)
   \<and> current_badge (incidents_page_of dp ls now s) =
       (int (length (current_rows (incidents_page_of dp ls now s))), currentIncidents s \<noteq> [])
   \<and> history_badge (incidents_page_of dp ls now s) = int (length (history_rows (incidents_page_of dp ls now s)))
   \<and> (summary_title s = ''Primary WAN and monitored backups are healthy'' \<longleftrightarrow>
        \<not> present (incidentLoadError s) \<and> currentIncidents s = [])"
proof -
  have parts: "mset (filter P xs @ filter Q xs @ filter R xs) = mset xs"
    if "\<And>x. (P x \<and> \<not> Q x \<and> \<not> R x) \<or> (\<not> P x \<and> Q x \<and> \<not> R x) \<or> (\<not> P x \<and> \<not> Q x \<and> R x)" for P Q R and xs :: "Incident list"
    using that by (induction xs) (simp, fastforce)
  have "mset (currentIncidents s @ resolvedIncidents s) = mset (incidents s)"
    unfolding currentIncidents_def activeIncidents_def pendingIncidents_def resolvedIncidents_def append_assoc
    by (rule parts) (metis incident_state.distinct incident_state.exhaust)
  moreover have "sorted_wrt (\<lambda>i j. state j = pending_failure \<or> state i \<noteq> pending_failure) (currentIncidents s)"
    unfolding currentIncidents_def sorted_wrt_append
    by (intro conjI sorted_wrt_filter_all) (auto simp: activeIncidents_def pendingIncidents_def)
  moreover have "\<forall>i \<in> set (currentIncidents s). state i \<noteq> resolved"
    by (auto simp: currentIncidents_def activeIncidents_def pendingIncidents_def)
  moreover have "dec n @ t \<noteq> ''Primary WAN and monitored backups are healthy''" for n t
    by (rule dec_not_word) (simp_all add: is_digit_def)
  then have "summary_title s = ''Primary WAN and monitored backups are healthy'' \<longleftrightarrow>
      \<not> present (incidentLoadError s) \<and> currentIncidents s = []"
    by (simp add: summary_title_def Let_def)
  ultimately show ?thesis
    by (simp add: incidents_page_of_def)
qed

text \<open>The duration shown is the time between the two instants, rounded down to minutes: the
  hours and minutes it names, the minutes below sixty, are at most the time elapsed and less
  than a minute short of it.\<close>

theorem duration_is_elapsed_time:
  assumes "dp start = Some b" "b \<le> e"
    and "(if present end_text then dp (text_of end_text) else Some now) = Some e"
  shows "\<exists>h m. 0 \<le> h \<and> 0 \<le> m \<and> m < 60
       \<and> 3600000 * h + 60000 * m \<le> e - b \<and> e - b < 3600000 * h + 60000 * (m + 1)
       \<and> durationBetween dp now start end_text =
           (if h > 0 then dec h @ ''h '' @ dec m @ ''m'' else dec m @ ''m'')"
proof -
  define q where "q = (e - b) div 60000"
  define h where "h = q div 60"
  define m where "m = q mod 60"
  have "0 \<le> q" using assms(2) by (simp add: q_def pos_imp_zdiv_nonneg_iff)
  then have h: "0 \<le> h" "0 \<le> m" "m < 60" "60 * h + m = q"
    by (simp_all add: h_def m_def pos_imp_zdiv_nonneg_iff)
  have r: "60000 * q + (e - b) mod 60000 = e - b" "0 \<le> (e - b) mod 60000" "(e - b) mod 60000 < 60000"
    by (simp_all add: q_def)
  have "3600000 * h + 60000 * m \<le> e - b" "e - b < 3600000 * h + 60000 * (m + 1)"
    using h(4) r by (simp_all add: distrib_left)
  moreover have "durationBetween dp now start end_text =
      (if h > 0 then dec h @ ''h '' @ dec m @ ''m'' else dec m @ ''m'')"
    using assms h by (auto simp: durationBetween_def Let_def simp flip: q_def h_def m_def)
  ultimately show ?thesis using h by blast
qed

theorem duration_is_elapsed_time_witness:
  "\<exists>h m. 0 \<le> h \<and> 0 \<le> m \<and> m < 60 \<and> 3600000 * h + 60000 * m \<le> 7300000
     \<and> 7300000 < 3600000 * h + 60000 * (m + 1)
     \<and> durationBetween (dateParse sample_env) 7301000 ''1000'' None =
         (if h > 0 then dec h @ ''h '' @ dec m @ ''m'' else dec m @ ''m'')"
proof -
  have start: "dateParse sample_env ''1000'' = Some 1000" by code_simp
  have now: "(if present None then dateParse sample_env (text_of None) else Some 7301000) = Some (7301000 :: int)"
    by (simp add: present_def)
  have "7301000 - 1000 = (7300000 :: int)" "1000 \<le> (7301000 :: int)" by simp_all
  then show ?thesis
    using duration_is_elapsed_time[OF start _ now] by (simp only:) 
qed

definition sample_incident :: "string \<Rightarrow> incident_state \<Rightarrow> Incident" where
  "sample_incident i st =
     \<lparr>incident_id = i, rule_version = 2, incident_hostname = ''router'', interface = ''wan'', state = st,
      started_at = ''1000'', activated_at = None, recovery_first_at = None, resolved_at = None,
      last_evidence_at = ''1000'', evidence_ids = [], evidence_refs = None, down_after = 1, recovered_after = 1, deliveries = []\<rparr>"

theorem incidents_partitioned_witness:
  "(let s = (initial Map.empty ''/'')\<lparr>incidents := [sample_incident ''1'' pending_failure, sample_incident ''2'' resolved,
                 sample_incident ''3'' active]\<rparr>
      in mset (currentIncidents s @ resolvedIncidents s) = mset (incidents s)
       \<and> map incident_id (currentIncidents s) = [''3'', ''1''])"
proof -
  let ?s = "(initial Map.empty ''/'')\<lparr>incidents := [sample_incident ''1'' pending_failure, sample_incident ''2'' resolved,
                 sample_incident ''3'' active]\<rparr>"
  have "map incident_id (currentIncidents ?s) = [''3'', ''1'']"
    by code_simp
  then show ?thesis
    using incidents_partitioned[of ?s] by (simp add: Let_def)
qed

end
