(* ===== verification/Incident_Classify.thy ===== *)
theory Incident_Classify
  imports Complex_Main Prelude
begin

text \<open>
  \<open>internal/model/message.go\<close> and the evidence classifier of
  \<open>internal/incidents/engine.go\<close>: which syslog messages say that an interface of a router went
  down or came up. A \<open>time.Time\<close> is the number of nanoseconds since Go's zero time; \<open>UTC()\<close>
  changes the location of a time and not the instant, so it does not appear.
\<close>

type_synonym time = int

abbreviation IsZero :: "time \<Rightarrow> bool" where
  "IsZero t \<equiv> t = 0"

section \<open>Messages\<close>

record Message =
  ID :: string
  ReceivedAt :: time
  Timestamp :: "time option"
  Transport :: string
  Source :: string
  Priority :: "int option"
  Facility :: "int option"
  Severity :: "int option"
  Hostname :: string
  AppName :: string
  ProcID :: string
  MsgID :: string
  Tag :: string
  Text :: string
  StructuredData :: "(string \<times> string) list"
  Raw :: "(string \<times> string) list"

section \<open>Text operations of the strings package\<close>

text \<open>\<open>strings.Index\<close>: where the first occurrence starts.\<close>

fun index_of :: "string \<Rightarrow> string \<Rightarrow> nat option" where
  "index_of sub [] = (if sub = [] then Some 0 else None)"
| "index_of sub (c # s) = (if prefix sub (c # s) then Some 0 else map_option Suc (index_of sub s))"

lemma index_of_Some:
  "index_of sub s = Some i \<Longrightarrow>
   i \<le> length s \<and> prefix sub (drop i s) \<and> (\<forall>j < i. \<not> prefix sub (drop j s))"
proof (induction s arbitrary: i)
  case (Cons c s)
  show ?case
  proof (cases "prefix sub (c # s)")
    case False
    then obtain k where k: "index_of sub s = Some k" "i = Suc k"
      using Cons.prems by (auto split: if_splits)
    from Cons.IH[OF k(1)] k(2) False show ?thesis
      by (auto simp: less_Suc_eq_0_disj)
  qed (use Cons.prems in auto)
qed (auto split: if_splits)

lemma index_of_None: "index_of sub s = None \<longleftrightarrow> \<not> (\<exists>i \<le> length s. prefix sub (drop i s))"
proof (induction s)
  case (Cons c s)
  have "(\<exists>i \<le> length (c # s). prefix sub (drop i (c # s))) \<longleftrightarrow>
      prefix sub (c # s) \<or> (\<exists>i \<le> length s. prefix sub (drop i s))"
    by (metis (no_types) Suc_le_mono drop0 drop_Suc_Cons le0 length_Cons not0_implies_Suc)
  with Cons show ?case by auto
qed simp

section \<open>Evidence\<close>

record evidence =
  hostname :: string
  iface :: string
  online :: bool
  seen_at :: time
  messageID :: string
  sourceRef :: string
  reachability :: bool
  observeOnly :: bool

definition validRepeaterPrefix :: "string \<Rightarrow> bool" where
  "validRepeaterPrefix val =
     (let pre = ''(repeater.lua:''; post = '') ''
      in if \<not> prefix pre val \<or> \<not> suffix post val then False
         else let rest = drop (length pre) val;
                  line = (if suffix post rest then take (length rest - length post) rest else rest)
              in line \<noteq> [] \<and> list_all is_digit line)"

definition quote_mark :: string where
  "quote_mark = [CHR 0x27]"

definition interface_is :: "string \<Rightarrow> string \<Rightarrow> string" where
  "interface_is candidate what = ''Interface '' @ quote_mark @ candidate @ quote_mark @ what"

text \<open>The messages of \<open>netifd\<close>: the first candidate the text is about.\<close>

definition netifd_down :: "string \<Rightarrow> string \<Rightarrow> string \<Rightarrow> bool" where
  "netifd_down primary candidate status \<longleftrightarrow>
     status = interface_is candidate '' is now down''
     \<or> candidate = primary \<and> status = interface_is candidate '' has lost the connection''"

definition netifd_up :: "string \<Rightarrow> string \<Rightarrow> bool" where
  "netifd_up candidate status \<longleftrightarrow> status = interface_is candidate '' is now up''"

fun classify_netifd :: "Message \<Rightarrow> string \<Rightarrow> string \<Rightarrow> string \<Rightarrow> string list \<Rightarrow> evidence option" where
  "classify_netifd m primary host status [] = None"
| "classify_netifd m primary host status (candidate # cs) =
     (if netifd_down primary candidate status \<or> netifd_up candidate status
      then Some \<lparr>hostname = host, iface = candidate, online = netifd_up candidate status,
                 seen_at = ReceivedAt m, messageID = ID m, sourceRef = [], reachability = False,
                 observeOnly = False\<rparr>
      else classify_netifd m primary host status cs)"

text \<open>The messages of \<open>gl-repeater\<close>.\<close>

definition starlink_switch :: "string \<Rightarrow> bool" where
  "starlink_switch status =
     (case index_of ''switch to STARLINK'' status of
        None \<Rightarrow> False
      | Some i \<Rightarrow> validRepeaterPrefix (take i status) \<and> go_trim (drop i status) = ''switch to STARLINK'')"

fun classify_repeater :: "Message \<Rightarrow> string \<Rightarrow> string \<Rightarrow> string list \<Rightarrow> evidence option" where
  "classify_repeater m host status [] = None"
| "classify_repeater m host status (candidate # cs) =
     (let pre = ''interface '' @ candidate @ '' status ''
      in case index_of pre status of
           None \<Rightarrow> classify_repeater m host status cs
         | Some i \<Rightarrow>
             if \<not> validRepeaterPrefix (take i status) then classify_repeater m host status cs
             else let state = go_trim (drop (i + length pre) status)
                  in if state \<noteq> ''offline'' \<and> state \<noteq> ''online'' then classify_repeater m host status cs
                     else Some \<lparr>hostname = host, iface = candidate, online = (state = ''online''),
                                seen_at = ReceivedAt m, messageID = ID m, sourceRef = [],
                                reachability = True, observeOnly = False\<rparr>)"

definition classify :: "Message \<Rightarrow> string \<Rightarrow> evidence option" where
  "classify m primary =
     (let host = go_trim (Hostname m); status = go_trim (Text m)
      in if host = [] \<or> IsZero (ReceivedAt m) then None
         else if Tag m = ''netifd'' then classify_netifd m primary host status [primary, ''wwan'', ''tethering'']
         else if Tag m \<noteq> ''gl-repeater'' then None
         else if starlink_switch status
              then Some \<lparr>hostname = host, iface = ''wwan'', online = False, seen_at = ReceivedAt m,
                         messageID = ID m, sourceRef = [], reachability = False, observeOnly = True\<rparr>
         else classify_repeater m host status [primary, ''wwan''])"

lemma classify_netifd_form:
  "classify_netifd m primary host status cs = Some e \<Longrightarrow>
   hostname e = host \<and> iface e \<in> set cs \<and> seen_at e = ReceivedAt m \<and> messageID e = ID m
   \<and> sourceRef e = [] \<and> \<not> reachability e \<and> \<not> observeOnly e"
  by (induction cs) (auto split: if_splits)

lemma classify_repeater_form:
  "classify_repeater m host status cs = Some e \<Longrightarrow>
   hostname e = host \<and> iface e \<in> set cs \<and> seen_at e = ReceivedAt m \<and> messageID e = ID m
   \<and> sourceRef e = [] \<and> reachability e \<and> \<not> observeOnly e"
  by (induction cs) (auto simp: Let_def split: if_splits option.splits)

lemma classify_form:
  assumes "classify m primary = Some e"
  shows "hostname e = go_trim (Hostname m) \<and> hostname e \<noteq> []
       \<and> iface e \<in> {primary, ''wwan'', ''tethering''}
       \<and> seen_at e = ReceivedAt m \<and> \<not> IsZero (seen_at e) \<and> messageID e = ID m \<and> sourceRef e = []
       \<and> (observeOnly e \<longrightarrow> iface e = ''wwan'' \<and> \<not> online e)
       \<and> (reachability e \<longrightarrow> Tag m = ''gl-repeater'')"
  using assms unfolding classify_def Let_def
  by (auto simp del: classify_netifd.simps classify_repeater.simps split: if_splits
      dest!: classify_netifd_form classify_repeater_form)

end
