(* ===== verification/Message_Store.thy ===== *)
theory Message_Store
  imports Incident_Classify Url_Form "HOL-Library.AList" "HOL-Library.List_Lexorder" "HOL-Library.Char_ord"
    "HOL-Library.Product_Lexorder"
begin

text \<open>
  \<open>internal/storage\<close>: the message store. \<open>file_store.go\<close> appends every message, encoded as
  one line, to the file of its day and source; \<open>query_index.go\<close> keeps an index of each file, brings it up
  to date when a query comes, and merges the files' indexes from the latest entry on. The disk is a map from
  paths to bytes. Strings are bytes. The path of a message, \<open>pathFor\<close>, and the JSON codec are
  parameters. The store's mutexes make an append and a query one step each.
\<close>


section \<open>Files\<close>

definition newline_byte :: char where
  "newline_byte = CHR 0x0A"

text \<open>A file of the message directory: what \<open>os.SameFile\<close> compares, its bytes, its modification time.\<close>

record stored_file =
  file_id :: nat
  content :: string
  file_time :: int

record file_info =
  info_id :: nat
  info_size :: nat
  info_time :: int

definition stat :: "stored_file \<Rightarrow> file_info" where
  "stat f = \<lparr>info_id = file_id f, info_size = length (content f), info_time = file_time f\<rparr>"

record indexEntry =
  receivedAt :: time
  host :: string
  start :: nat
  len :: nat

record fileIndex =
  info :: file_info
  entries :: "indexEntry list"

record FileStore =
  disk :: "(string \<times> stored_file) list"
  indexes :: "(string \<times> fileIndex) list"

definition NewFileStore :: FileStore where
  "NewFileStore = \<lparr>disk = [], indexes = []\<rparr>"

text \<open>The JSON encoder and decoder, at the two types the store uses: a message, and the fields an index
  needs.\<close>

record codec =
  encode :: "Message \<Rightarrow> string"
  decode :: "string \<Rightarrow> Message option"
  decode_key :: "string \<Rightarrow> (time \<times> string) option"

datatype store_error =
    Cancelled | IdRequired | WriteFailed string | IndexFailed | ReadFailed | InvalidFilter | IndexOutOfRange

section \<open>Append\<close>

text \<open>How the operating system answered: all written, nothing written, or a part of the record and then
  an error. The number is the file's new modification time.\<close>

datatype write_outcome = Stopped | Written int | Refused string | Cut nat int string

definition Append ::
  "(Message \<Rightarrow> string) \<Rightarrow> codec \<Rightarrow> write_outcome \<Rightarrow> time \<Rightarrow> nat \<Rightarrow> Message \<Rightarrow> FileStore
   \<Rightarrow> FileStore \<times> store_error option" where
  "Append pathFor cod out now new_id msg st =
     (if out = Stopped then (st, Some Cancelled)
      else if ID msg = [] then (st, Some IdRequired)
      else
        let msg = (if IsZero (ReceivedAt msg) then msg\<lparr>ReceivedAt := now\<rparr> else msg);
            path = pathFor msg;
            data = encode cod msg;
            f = (case map_of (disk st) path of
                   None \<Rightarrow> \<lparr>file_id = new_id, content = [], file_time = 0\<rparr> | Some f \<Rightarrow> f)
        in case out of
             Written t \<Rightarrow>
               (st\<lparr>disk := AList.update path (f\<lparr>content := content f @ data, file_time := t\<rparr>) (disk st)\<rparr>, None)
           | Cut n t err \<Rightarrow>
               (st\<lparr>disk := AList.update path (f\<lparr>content := content f @ take n data, file_time := t\<rparr>) (disk st)\<rparr>,
                Some (WriteFailed err))
           | Refused err \<Rightarrow> (st, Some (WriteFailed err))
           | Stopped \<Rightarrow> (st, Some Cancelled))"

section \<open>The index\<close>

text \<open>\<open>sort.Sort(sort.Reverse(sort.StringSlice(files)))\<close>; Go compares strings byte by byte.\<close>

definition messageFiles :: "FileStore \<Rightarrow> string list" where
  "messageFiles st = rev (sort (filter (suffix ''.ndjson'') (map fst (disk st))))"

text \<open>The split function of \<open>scanIndex\<close>: every line with its newline, and what follows the last.\<close>

fun scan_lines :: "string \<Rightarrow> string list" where
  "scan_lines [] = []"
| "scan_lines (c # s) =
     (if c = newline_byte then [c] # scan_lines s
      else (case scan_lines s of [] \<Rightarrow> [[c]] | l # ls \<Rightarrow> (c # l) # ls))"

definition maxScannerToken :: int where
  "maxScannerToken = 4 * 1024 * 1024"

text \<open>\<open>bufio.Scanner\<close> fails on a line that does not fit its buffer.\<close>

definition too_long :: "string \<Rightarrow> bool" where
  "too_long line \<longleftrightarrow>
     maxScannerToken < int (length line) \<or> int (length line) = maxScannerToken \<and> last line \<noteq> newline_byte"

fun scanIndex :: "codec \<Rightarrow> nat \<Rightarrow> string list \<Rightarrow> indexEntry list \<Rightarrow> indexEntry list option" where
  "scanIndex cod offset [] es = Some es"
| "scanIndex cod offset (line # lines) es =
     (if too_long line then None
      else (case decode_key cod line of
              None \<Rightarrow> None
            | Some (t, h) \<Rightarrow>
                scanIndex cod (offset + length line) lines
                  (es @ [\<lparr>receivedAt = t, host = h, start = offset, len = length line\<rparr>])))"

text \<open>Latest first; at one instant, what was appended later first.\<close>

definition sort_entries :: "indexEntry list \<Rightarrow> indexEntry list" where
  "sort_entries = sort_key (\<lambda>e. (- receivedAt e, - int (start e)))"

text \<open>One round of the loop of \<open>queryIndexes\<close>: the index it has, the index it extends, or a new one.\<close>

definition index_file :: "codec \<Rightarrow> fileIndex option \<Rightarrow> stored_file \<Rightarrow> fileIndex option" where
  "index_file cod previous f =
     (let i = stat f
      in case previous of
           Some p \<Rightarrow>
             if info_id (info p) = info_id i \<and> info_size (info p) = info_size i \<and> info_time (info p) = info_time i
             then Some p
             else if info_id (info p) = info_id i \<and> info_size (info p) < info_size i
             then map_option (\<lambda>es. \<lparr>info = i, entries = sort_entries es\<rparr>)
                    (scanIndex cod (info_size (info p)) (scan_lines (drop (info_size (info p)) (content f)))
                       (entries p))
             else map_option (\<lambda>es. \<lparr>info = i, entries = sort_entries es\<rparr>)
                    (scanIndex cod 0 (scan_lines (content f)) [])
         | None \<Rightarrow> map_option (\<lambda>es. \<lparr>info = i, entries = sort_entries es\<rparr>)
                    (scanIndex cod 0 (scan_lines (content f)) []))"

fun index_files ::
  "codec \<Rightarrow> FileStore \<Rightarrow> string list \<Rightarrow> (string \<times> fileIndex) list option" where
  "index_files cod st [] = Some []"
| "index_files cod st (path # paths) =
     (case map_of (disk st) path of
        None \<Rightarrow> None
      | Some f \<Rightarrow>
          (case index_file cod (map_of (indexes st) path) f of
             None \<Rightarrow> None
           | Some i \<Rightarrow> map_option ((#) (path, i)) (index_files cod st paths)))"

text \<open>The new indexes replace the old ones only when every file could be indexed.\<close>

definition queryIndexes :: "codec \<Rightarrow> FileStore \<Rightarrow> FileStore \<times> (string \<times> fileIndex) list option" where
  "queryIndexes cod st =
     (case index_files cod st (messageFiles st) of
        None \<Rightarrow> (st, None)
      | Some is \<Rightarrow> (st\<lparr>indexes := is\<rparr>, Some is))"

section \<open>Filters\<close>

record StoreQuery =
  QText :: string
  QHosts :: "string list"
  QLimit :: int
  QOffset :: int
  QSince :: "time option"
  QUntil :: "time option"

text \<open>What the standard library decides: \<open>strings.ToLower\<close>, \<open>regexp.Compile\<close>, the JSON text of a map.\<close>

record text_library =
  toLower :: "string \<Rightarrow> string"
  compile :: "string \<Rightarrow> (string \<Rightarrow> bool) option"
  json_text :: "(string \<times> string) list \<Rightarrow> string"

definition messageSearchText :: "text_library \<Rightarrow> Message \<Rightarrow> string" where
  "messageSearchText lib m =
     join '' '' [ID m, Transport m, Source m, Hostname m, AppName m, ProcID m, MsgID m, Tag m, Text m,
       json_text lib (StructuredData m), json_text lib (Raw m)]"

definition matchesText :: "text_library \<Rightarrow> Message \<Rightarrow> string \<Rightarrow> bool" where
  "matchesText lib m needle \<longleftrightarrow> index_of needle (toLower lib (messageSearchText lib m)) \<noteq> None"

definition CompileTextFilter :: "text_library \<Rightarrow> string \<Rightarrow> (Message \<Rightarrow> bool) option" where
  "CompileTextFilter lib text =
     (let text = go_trim text
      in if 2 \<le> length text \<and> prefix ''/'' text \<and> suffix ''/'' text
         then map_option (\<lambda>match m. match (messageSearchText lib m)) (compile lib (''(?i)'' @ butlast (tl text)))
         else let text = toLower lib text in Some (\<lambda>m. text = [] \<or> matchesText lib m text))"

definition selectedHosts :: "string list \<Rightarrow> string list" where
  "selectedHosts values = filter (\<lambda>h. h \<noteq> []) (map go_trim values)"

section \<open>Query\<close>

record indexCursor =
  cursor_path :: string
  rest :: "indexEntry list"
  order :: nat

text \<open>\<open>Less\<close> of the heap, on the entries the cursors stand at.\<close>

definition Less :: "indexCursor \<Rightarrow> indexCursor \<Rightarrow> bool" where
  "Less a b =
     (case (rest a, rest b) of
        (x # _, y # _) \<Rightarrow>
          if receivedAt x = receivedAt y then order a < order b else receivedAt y < receivedAt x
      | _ \<Rightarrow> False)"

text \<open>\<open>container/heap\<close> keeps the cursors in an order of its own; what shows is that \<open>Pop\<close> returns the
  least one. Its place in this list is \<open>least\<close>.\<close>

fun least :: "indexCursor list \<Rightarrow> nat" where
  "least [] = 0"
| "least [c] = 0"
| "least (c # d # cs) = (let j = least (d # cs) in if Less ((d # cs) ! j) c then Suc j else 0)"

text \<open>The cursor taken from the heap moves on, and returns to the heap unless it is at its end.\<close>

definition push_rest :: "nat \<Rightarrow> indexEntry list \<Rightarrow> indexCursor list \<Rightarrow> indexCursor list" where
  "push_rest i es pend =
     (if es = [] then take i pend @ drop (Suc i) pend else pend[i := (pend ! i)\<lparr>rest := es\<rparr>])"

lemma least_less: "pend \<noteq> [] \<Longrightarrow> least pend < length pend"
  by (induction pend rule: least.induct) (auto simp: Let_def)

lemma push_rest_less:
  assumes "i < length pend" "rest (pend ! i) = e # es"
  shows "sum_list (map (length \<circ> rest) (push_rest i es pend)) < sum_list (map (length \<circ> rest) pend)"
proof -
  define before after c where "before = take i pend" and "after = drop (Suc i) pend" and "c = pend ! i"
  have "pend = before @ c # after" "pend[i := x] = before @ x # after" for x
    using id_take_nth_drop[OF assms(1)] upd_conv_take_nth_drop[OF assms(1)]
    by (simp_all add: before_def after_def c_def)
  moreover have "push_rest i es pend = (if es = [] then before @ after else pend[i := c\<lparr>rest := es\<rparr>])"
    by (simp add: push_rest_def before_def after_def c_def)
  moreover have "rest c = e # es" using assms(2) by (simp add: c_def)
  ultimately show ?thesis by simp
qed

text \<open>What the loop does with an entry: whether it is left out, skipped, or returned.\<close>

definition read_message :: "codec \<Rightarrow> FileStore \<Rightarrow> string \<Rightarrow> indexEntry \<Rightarrow> Message option" where
  "read_message cod st path e =
     (case map_of (disk st) path of
        None \<Rightarrow> None
      | Some f \<Rightarrow>
          if length (content f) < start e + len e then None
          else decode cod (take (len e) (drop (start e) (content f))))"

function query_loop ::
  "codec \<Rightarrow> FileStore \<Rightarrow> (Message \<Rightarrow> bool) \<Rightarrow> bool \<Rightarrow> nat \<Rightarrow> StoreQuery \<Rightarrow> indexCursor list \<Rightarrow> int
   \<Rightarrow> Message list \<Rightarrow> store_error + Message list" where
  "query_loop cod st match blank limit q pend skipped messages =
     (if pend = [] \<or> limit \<le> length messages then Inr messages
      else let i = least pend; c = pend ! i
      in case rest c of
           [] \<Rightarrow> Inl IndexOutOfRange
         | entry # es \<Rightarrow>
             if (case QSince q of None \<Rightarrow> False | Some t \<Rightarrow> receivedAt entry < t) then Inr messages
             else let pend = push_rest i es pend
             in if selectedHosts (QHosts q) \<noteq> [] \<and> host entry \<notin> set (selectedHosts (QHosts q))
                then query_loop cod st match blank limit q pend skipped messages
                else if blank \<and> skipped < QOffset q
                then query_loop cod st match blank limit q pend (skipped + 1) messages
                else (case read_message cod st (cursor_path c) entry of
                        None \<Rightarrow> Inl ReadFailed
                      | Some m \<Rightarrow>
                          if \<not> blank \<and> \<not> match m
                          then query_loop cod st match blank limit q pend skipped messages
                          else if skipped < QOffset q
                          then query_loop cod st match blank limit q pend (skipped + 1) messages
                          else query_loop cod st match blank limit q pend skipped (messages @ [m])))"
  by pat_completeness auto
termination
  by (relation "measure (\<lambda>(cod, st, match, blank, limit, q, pend, skipped, messages).
        sum_list (map (length \<circ> rest) pend))")
    (auto simp: least_less push_rest_less simp del: sum_list_map_eq_sum_count)

declare query_loop.simps [simp del]

definition defaultQueryLimit :: int where
  "defaultQueryLimit = 200"

text \<open>\<open>sort.Search\<close> finds the first entry that is not after \<open>until\<close>: the entries are latest first.\<close>

definition from_until :: "time option \<Rightarrow> indexEntry list \<Rightarrow> indexEntry list" where
  "from_until until es = (case until of None \<Rightarrow> es | Some t \<Rightarrow> dropWhile (\<lambda>e. t < receivedAt e) es)"

fun cursors_from :: "time option \<Rightarrow> nat \<Rightarrow> (string \<times> fileIndex) list \<Rightarrow> indexCursor list" where
  "cursors_from until n [] = []"
| "cursors_from until n ((path, i) # is) =
     (let es = from_until until (entries i)
      in (if es = [] then [] else [\<lparr>cursor_path = path, rest = es, order = n\<rparr>]) @ cursors_from until (Suc n) is)"

definition Query ::
  "text_library \<Rightarrow> codec \<Rightarrow> StoreQuery \<Rightarrow> FileStore \<Rightarrow> FileStore \<times> (store_error + Message list)" where
  "Query lib cod q st =
     (case CompileTextFilter lib (QText q) of
        None \<Rightarrow> (st, Inl InvalidFilter)
      | Some match \<Rightarrow>
          (case queryIndexes cod st of
             (st, None) \<Rightarrow> (st, Inl IndexFailed)
           | (st, Some is) \<Rightarrow>
               let limit = (if QLimit q \<le> 0 then defaultQueryLimit else QLimit q);
                   text = toLower lib (go_trim (QText q))
               in (st, query_loop cod st match (text = []) (nat limit) q (cursors_from (QUntil q) 0 is) 0 [])))"

end
