(* ===== verification/Incident_Engine.thy ===== *)
theory Incident_Engine
  imports Incident_Classify "HOL-Library.AList" "HOL-Library.While_Combinator"
begin

text \<open>
  \<open>internal/incidents/engine.go\<close>: the state the service keeps (trackers of interfaces, incidents,
  notification jobs, cursors of the log reader) and every operation on it. A Go map is an
  association list with one entry per key; \<open>range\<close> over a map visits its entries in an
  unspecified order, which is the parameter \<open>range_order\<close>. It maps the entries to
  the order of the visit, and each call of an operation takes its own. No loop of one call
  ranges twice over a map with the same contents, so a function of the contents loses no order.
  The digest that names an incident is the parameter \<open>mk\<close>.
\<close>

section \<open>State\<close>

datatype State = StatePendingFailure | StateActive | StatePendingRecovery | StateResolved

datatype NotificationKind =
    NotificationOpened | NotificationResolved | NotificationFallbackOpened
  | NotificationFallbackResolved | NotificationFallbackEscalated

fun kind_text :: "NotificationKind \<Rightarrow> string" where
  "kind_text NotificationOpened = ''incident_opened''"
| "kind_text NotificationResolved = ''incident_resolved''"
| "kind_text NotificationFallbackOpened = ''fallback_opened''"
| "kind_text NotificationFallbackResolved = ''fallback_resolved''"
| "kind_text NotificationFallbackEscalated = ''fallback_escalated''"

record Config =
  Interface :: string
  DownAfter :: int
  RecoveredAfter :: int

record Observation =
  ObsMessage :: Message
  NotifyEligible :: bool
  SourceRef :: string

record Incident =
  IncID :: string
  RuleVersion :: int
  IncHostname :: string
  IncInterface :: string
  IncState :: State
  StartedAt :: time
  ActivatedAt :: "time option"
  RecoveryFirstAt :: "time option"
  ResolvedAt :: "time option"
  IncLastEvidenceAt :: time
  EvidenceIDs :: "string list"
  EvidenceRefs :: "string list"
  IncDownAfter :: int
  IncRecoveredAfter :: int
  IncNotify :: bool

record NotificationJob =
  JobID :: string
  JobIncidentID :: string
  JobKind :: NotificationKind
  CreatedAt :: time
  JobAttempts :: int
  NextAt :: time
  JobLastError :: string
  SentAt :: "time option"
  JobAdapter :: string
  ExternalID :: string
  JobPermanent :: bool

datatype phase = phaseNone | phaseHealthy | phasePendingFailure | phaseActive | phasePendingRecovery

record tracker =
  Phase :: phase
  PendingSince :: time
  RecoverySince :: time
  LastEvidenceAt :: time
  StartMessageID :: string
  StartSourceRef :: string
  TrackedID :: string
  TrackedNotify :: bool
  ReachabilityDown :: bool

definition zero_tracker :: tracker where
  "zero_tracker =
     \<lparr>Phase = phaseNone, PendingSince = 0, RecoverySince = 0, LastEvidenceAt = 0, StartMessageID = [],
      StartSourceRef = [], TrackedID = [], TrackedNotify = False, ReachabilityDown = False\<rparr>"

definition healthy_tracker :: "time \<Rightarrow> tracker" where
  "healthy_tracker t = zero_tracker\<lparr>Phase := phaseHealthy, LastEvidenceAt := t\<rparr>"

record Cursor =
  CursorOffset :: int
  Fingerprint :: string

type_synonym 'v gomap = "(string \<times> 'v) list"

record Snapshot =
  Version :: int
  Bootstrapped :: bool
  LastCheckpointAt :: time
  Trackers :: "tracker gomap"
  Incidents :: "Incident gomap"
  Jobs :: "NotificationJob gomap"
  Cursors :: "Cursor gomap"

record range_order =
  over_trackers :: "tracker gomap \<Rightarrow> tracker gomap"
  over_incidents :: "Incident gomap \<Rightarrow> Incident gomap"

text \<open>What Go promises of \<open>range\<close>: every entry once.\<close>

definition range_ok :: "range_order \<Rightarrow> bool" where
  "range_ok ord \<longleftrightarrow> (\<forall>m. mset (over_trackers ord m) = mset m) \<and> (\<forall>m. mset (over_incidents ord m) = mset m)"

section \<open>Notification jobs\<close>

definition new_job :: "string \<Rightarrow> string \<Rightarrow> NotificationKind \<Rightarrow> time \<Rightarrow> NotificationJob" where
  "new_job i incident k t =
     \<lparr>JobID = i, JobIncidentID = incident, JobKind = k, CreatedAt = t, JobAttempts = 0, NextAt = t,
      JobLastError = [], SentAt = None, JobAdapter = [], ExternalID = [], JobPermanent = False\<rparr>"

definition add_job :: "NotificationJob \<Rightarrow> Snapshot \<Rightarrow> Snapshot" where
  "add_job j s =
     (case map_of (Jobs s) (JobID j) of
        Some _ \<Rightarrow> s
      | None \<Rightarrow> s\<lparr>Jobs := AList.update (JobID j) j (Jobs s)\<rparr>)"

definition enqueueLocked :: "string \<Rightarrow> NotificationKind \<Rightarrow> time \<Rightarrow> Snapshot \<Rightarrow> Snapshot" where
  "enqueueLocked incident k t = add_job (new_job (incident @ '':'' @ kind_text k) incident k t)"

definition enqueueFallbackEscalationLocked :: "string \<Rightarrow> string \<Rightarrow> time \<Rightarrow> Snapshot \<Rightarrow> Snapshot" where
  "enqueueFallbackEscalationLocked fallback primary t =
     add_job (new_job (fallback @ '':'' @ kind_text NotificationFallbackEscalated @ '':'' @ primary)
                fallback NotificationFallbackEscalated t)"

definition down_at :: "Config \<Rightarrow> string \<Rightarrow> time \<Rightarrow> Incident \<Rightarrow> bool" where
  "down_at cfg host t i \<longleftrightarrow>
     IncHostname i = host \<and> IncInterface i = Interface cfg
     \<and> (case ActivatedAt i of None \<Rightarrow> False | Some a \<Rightarrow> a \<le> t)
     \<and> (case ResolvedAt i of None \<Rightarrow> True | Some r \<Rightarrow> t < r)"

definition primaryDownAtLocked :: "Config \<Rightarrow> range_order \<Rightarrow> string \<Rightarrow> time \<Rightarrow> Snapshot \<Rightarrow> Incident option" where
  "primaryDownAtLocked cfg ord host t s =
     map_option snd (find (\<lambda>(k, i). down_at cfg host t i) (over_incidents ord (Incidents s)))"

definition escalates :: "Config \<Rightarrow> string \<Rightarrow> Incident \<Rightarrow> bool" where
  "escalates cfg host i \<longleftrightarrow>
     IncHostname i = host \<and> IncInterface i \<noteq> Interface cfg \<and> IncNotify i
     \<and> (IncState i = StateActive \<or> IncState i = StatePendingRecovery)"

definition escalateFallbacksLocked ::
  "Config \<Rightarrow> range_order \<Rightarrow> string \<Rightarrow> string \<Rightarrow> time \<Rightarrow> Snapshot \<Rightarrow> Snapshot" where
  "escalateFallbacksLocked cfg ord host primary t s =
     fold (\<lambda>(k, i) s. if escalates cfg host i then enqueueFallbackEscalationLocked (IncID i) primary t s else s)
       (over_incidents ord (Incidents s)) s"

section \<open>Advancing the clock\<close>

definition due_at :: "tracker \<Rightarrow> Incident \<Rightarrow> time" where
  "due_at current i =
     (if Phase current = phasePendingFailure then PendingSince current + IncDownAfter i
      else RecoverySince current + IncRecoveredAfter i)"

definition priority :: "Config \<Rightarrow> tracker \<Rightarrow> Incident \<Rightarrow> int" where
  "priority cfg current i =
     (if Phase current = phasePendingFailure then (if IncInterface i = Interface cfg then 1 else 2) else 0)"

text \<open>The loop of \<open>nextDueTrackerLocked\<close> over the trackers, with what it has selected so far.\<close>

fun select_due ::
  "Config \<Rightarrow> Incident gomap \<Rightarrow> time \<Rightarrow> tracker gomap \<Rightarrow> (string \<times> tracker \<times> time \<times> int) option
   \<Rightarrow> (string \<times> tracker) option" where
  "select_due cfg incs now [] sel = map_option (\<lambda>(k, c, t, p). (k, c)) sel"
| "select_due cfg incs now ((key, current) # rest) sel =
     (if Phase current \<noteq> phasePendingFailure \<and> Phase current \<noteq> phasePendingRecovery
      then select_due cfg incs now rest sel
      else (case map_of incs (TrackedID current) of
              None \<Rightarrow> Some (key, current)
            | Some i \<Rightarrow>
                let dueAt = due_at current i; prio = priority cfg current i
                in if now < dueAt then select_due cfg incs now rest sel
                   else select_due cfg incs now rest
                          (case sel of
                             None \<Rightarrow> Some (key, current, dueAt, prio)
                           | Some (k, c, t, p) \<Rightarrow>
                               if dueAt < t \<or> dueAt = t \<and> prio < p then Some (key, current, dueAt, prio)
                               else sel)))"

definition nextDueTrackerLocked ::
  "Config \<Rightarrow> range_order \<Rightarrow> time \<Rightarrow> Snapshot \<Rightarrow> (string \<times> tracker) option" where
  "nextDueTrackerLocked cfg ord now s =
     select_due cfg (Incidents s) now (over_trackers ord (Trackers s)) None"

text \<open>The two cases of \<open>advanceLocked\<close>'s loop body.\<close>

definition activate :: "Config \<Rightarrow> range_order \<Rightarrow> string \<Rightarrow> tracker \<Rightarrow> Incident \<Rightarrow> Snapshot \<Rightarrow> Snapshot" where
  "activate cfg ord key current i s =
     (let activated = PendingSince current + IncDownAfter i;
          i = i\<lparr>IncState := StateActive, ActivatedAt := Some activated, IncNotify := TrackedNotify current\<rparr>;
          s = s\<lparr>Incidents := AList.update (IncID i) i (Incidents s)\<rparr>;
          s = s\<lparr>Trackers := AList.update key (current\<lparr>Phase := phaseActive\<rparr>) (Trackers s)\<rparr>;
          s = (if \<not> IncNotify i then s
               else if IncInterface i = Interface cfg then enqueueLocked (IncID i) NotificationOpened activated s
               else (case primaryDownAtLocked cfg ord (IncHostname i) activated s of
                       Some p \<Rightarrow> enqueueFallbackEscalationLocked (IncID i) (IncID p) activated s
                     | None \<Rightarrow> enqueueLocked (IncID i) NotificationFallbackOpened activated s))
      in if IncInterface i = Interface cfg
         then escalateFallbacksLocked cfg ord (IncHostname i) (IncID i) activated s else s)"

definition resolve :: "Config \<Rightarrow> string \<Rightarrow> tracker \<Rightarrow> Incident \<Rightarrow> Snapshot \<Rightarrow> Snapshot" where
  "resolve cfg key current i s =
     (let resolved = RecoverySince current + IncRecoveredAfter i;
          i = i\<lparr>IncState := StateResolved, ResolvedAt := Some resolved\<rparr>;
          s = s\<lparr>Incidents := AList.update (IncID i) i (Incidents s)\<rparr>;
          s = (if IncNotify i
               then enqueueLocked (IncID i)
                      (if IncInterface i = Interface cfg then NotificationResolved
                       else NotificationFallbackResolved) resolved s
               else s)
      in s\<lparr>Trackers := AList.update key (healthy_tracker (LastEvidenceAt current)) (Trackers s)\<rparr>)"

definition advance_due :: "Config \<Rightarrow> range_order \<Rightarrow> string \<Rightarrow> tracker \<Rightarrow> Snapshot \<Rightarrow> Snapshot" where
  "advance_due cfg ord key current s =
     (case map_of (Incidents s) (TrackedID current) of
        None \<Rightarrow> s\<lparr>Trackers := AList.delete key (Trackers s)\<rparr>
      | Some i \<Rightarrow>
          if Phase current = phasePendingFailure then activate cfg ord key current i s
          else resolve cfg key current i s)"

definition advance_round :: "Config \<Rightarrow> range_order \<Rightarrow> time \<Rightarrow> Snapshot \<Rightarrow> Snapshot" where
  "advance_round cfg ord now s =
     (case nextDueTrackerLocked cfg ord now s of
        None \<Rightarrow> s
      | Some (key, current) \<Rightarrow> advance_due cfg ord key current s)"

text \<open>The loop as written: round after round until nothing is due.\<close>

definition nothing_due :: "Config \<Rightarrow> range_order \<Rightarrow> time \<Rightarrow> Snapshot \<Rightarrow> bool" where
  "nothing_due cfg ord now s \<longleftrightarrow> nextDueTrackerLocked cfg ord now s = None"

definition advance_loop :: "Config \<Rightarrow> range_order \<Rightarrow> time \<Rightarrow> Snapshot \<Rightarrow> Snapshot option" where
  "advance_loop cfg ord now s =
     while_option (\<lambda>s. \<not> nothing_due cfg ord now s) (advance_round cfg ord now) s"

text \<open>Each round settles one pending tracker, so as many rounds as there are pending trackers
  always do (\<open>advance_loop_advanceLocked\<close> in \<open>Engine_Invariants\<close>). Each sets the flag that the loop returns.\<close>

definition pending :: "tracker \<Rightarrow> bool" where
  "pending c \<longleftrightarrow> Phase c = phasePendingFailure \<or> Phase c = phasePendingRecovery"

definition pending_count :: "Snapshot \<Rightarrow> nat" where
  "pending_count s = length (filter (\<lambda>(k, c). pending c) (Trackers s))"

fun advance_rounds ::
  "Config \<Rightarrow> range_order \<Rightarrow> time \<Rightarrow> nat \<Rightarrow> Snapshot \<Rightarrow> bool \<Rightarrow> Snapshot \<times> bool" where
  "advance_rounds cfg ord now 0 s changed = (s, changed)"
| "advance_rounds cfg ord now (Suc n) s changed =
     (case nextDueTrackerLocked cfg ord now s of
        None \<Rightarrow> (s, changed)
      | Some (key, current) \<Rightarrow> advance_rounds cfg ord now n (advance_due cfg ord key current s) True)"

definition advanceLocked :: "Config \<Rightarrow> range_order \<Rightarrow> time \<Rightarrow> Snapshot \<Rightarrow> Snapshot \<times> bool" where
  "advanceLocked cfg ord now s = advance_rounds cfg ord now (pending_count s) s False"

section \<open>Observing evidence\<close>

definition appendEvidence :: "string list \<Rightarrow> string \<Rightarrow> string list" where
  "appendEvidence ids i =
     (if i = [] then ids else if ids \<noteq> [] \<and> last ids = i then ids else ids @ [i])"

definition add_evidence :: "evidence \<Rightarrow> Incident \<Rightarrow> Incident" where
  "add_evidence e i =
     i\<lparr>IncLastEvidenceAt := seen_at e, EvidenceIDs := appendEvidence (EvidenceIDs i) (messageID e),
       EvidenceRefs := appendEvidence (EvidenceRefs i) (sourceRef e)\<rparr>"

text \<open>Rewrites the incident a tracker points to, when it exists.\<close>

definition touch :: "tracker \<Rightarrow> (Incident \<Rightarrow> Incident) \<Rightarrow> Snapshot \<Rightarrow> Snapshot" where
  "touch current f s =
     (case map_of (Incidents s) (TrackedID current) of
        None \<Rightarrow> s
      | Some i \<Rightarrow> s\<lparr>Incidents := AList.update (IncID (f i)) (f i) (Incidents s)\<rparr>)"

definition started :: "(string \<Rightarrow> string \<Rightarrow> time \<Rightarrow> string \<Rightarrow> string) \<Rightarrow> Config \<Rightarrow> evidence \<Rightarrow> bool \<Rightarrow> Incident" where
  "started mk cfg e eligible =
     \<lparr>IncID = mk (hostname e) (iface e) (seen_at e) (messageID e), RuleVersion = 3,
      IncHostname = hostname e, IncInterface = iface e, IncState = StatePendingFailure,
      StartedAt = seen_at e, ActivatedAt = None, RecoveryFirstAt = None, ResolvedAt = None,
      IncLastEvidenceAt = seen_at e, EvidenceIDs = appendEvidence [] (messageID e),
      EvidenceRefs = appendEvidence [] (sourceRef e), IncDownAfter = DownAfter cfg,
      IncRecoveredAfter = RecoveredAfter cfg, IncNotify = eligible\<rparr>"

text \<open>The switch for evidence that the interface is down, and the one that it is up. Each returns the
  tracker and the state with its incidents rewritten.\<close>

definition went_down ::
  "(string \<Rightarrow> string \<Rightarrow> time \<Rightarrow> string \<Rightarrow> string) \<Rightarrow> Config \<Rightarrow> evidence \<Rightarrow> bool \<Rightarrow> tracker \<Rightarrow> Snapshot
   \<Rightarrow> tracker \<times> Snapshot" where
  "went_down mk cfg e eligible current s =
     (let down = (ReachabilityDown current \<or> reachability e)
      in case Phase current of
           phasePendingFailure \<Rightarrow>
             let current = current\<lparr>ReachabilityDown := down, TrackedNotify := (TrackedNotify current \<or> eligible)\<rparr>
             in (current, touch current (\<lambda>i. add_evidence e (i\<lparr>IncNotify := TrackedNotify current\<rparr>)) s)
         | phasePendingRecovery \<Rightarrow>
             (current\<lparr>Phase := phaseActive, RecoverySince := 0, ReachabilityDown := down\<rparr>,
              touch current (\<lambda>i. add_evidence e (i\<lparr>IncState := StateActive, RecoveryFirstAt := None\<rparr>)) s)
         | phaseActive \<Rightarrow> (current\<lparr>ReachabilityDown := down\<rparr>, touch current (add_evidence e) s)
         | _ \<Rightarrow>
             let i = started mk cfg e eligible
             in (\<lparr>Phase = phasePendingFailure, PendingSince = seen_at e, RecoverySince = 0,
                  LastEvidenceAt = seen_at e, StartMessageID = messageID e, StartSourceRef = sourceRef e,
                  TrackedID = IncID i, TrackedNotify = eligible, ReachabilityDown = reachability e\<rparr>,
                 s\<lparr>Incidents := AList.update (IncID i) i (Incidents s)\<rparr>))"

definition came_up :: "evidence \<Rightarrow> tracker \<Rightarrow> Snapshot \<Rightarrow> tracker \<times> Snapshot" where
  "came_up e current s =
     (case Phase current of
        phaseNone \<Rightarrow> (healthy_tracker (seen_at e), s)
      | phaseHealthy \<Rightarrow> (current, s)
      | phasePendingFailure \<Rightarrow>
          (healthy_tracker (seen_at e), s\<lparr>Incidents := AList.delete (TrackedID current) (Incidents s)\<rparr>)
      | phaseActive \<Rightarrow>
          (current\<lparr>Phase := phasePendingRecovery, RecoverySince := seen_at e\<rparr>,
           touch current (\<lambda>i. add_evidence e
             (i\<lparr>IncState := StatePendingRecovery, RecoveryFirstAt := Some (seen_at e)\<rparr>)) s)
      | phasePendingRecovery \<Rightarrow> (current, touch current (add_evidence e) s))"

definition tracker_of :: "Snapshot \<Rightarrow> string \<Rightarrow> tracker" where
  "tracker_of s key = (case map_of (Trackers s) key of None \<Rightarrow> zero_tracker | Some c \<Rightarrow> c)"

definition tracker_key :: "evidence \<Rightarrow> string" where
  "tracker_key e = hostname e @ [CHR 0x00] @ iface e"

definition observe_evidence ::
  "(string \<Rightarrow> string \<Rightarrow> time \<Rightarrow> string \<Rightarrow> string) \<Rightarrow> Config \<Rightarrow> range_order \<Rightarrow> evidence \<Rightarrow> bool \<Rightarrow> Snapshot \<Rightarrow> Snapshot" where
  "observe_evidence mk cfg ord e eligible s =
     (let key = tracker_key e; current = tracker_of s key
      in if \<not> IsZero (LastEvidenceAt current) \<and> seen_at e < LastEvidenceAt current then s
         else if observeOnly e
         then s\<lparr>Trackers := AList.update key
                  (current\<lparr>Phase := (if Phase current = phaseNone then phaseHealthy else Phase current),
                          LastEvidenceAt := seen_at e\<rparr>) (Trackers s)\<rparr>
         else
           let s = fst (advanceLocked cfg ord (seen_at e) s); current = tracker_of s key
           in if online e \<and> iface e = Interface cfg \<and> ReachabilityDown current \<and> \<not> reachability e then s
              else let current = current\<lparr>LastEvidenceAt := seen_at e\<rparr>;
                       (current, s) = (if online e then came_up e current s
                                       else went_down mk cfg e eligible current s)
                   in s\<lparr>Trackers := AList.update key current (Trackers s)\<rparr>)"

definition observeLocked ::
  "(string \<Rightarrow> string \<Rightarrow> time \<Rightarrow> string \<Rightarrow> string) \<Rightarrow> Config \<Rightarrow> range_order \<Rightarrow> Message \<Rightarrow> bool \<Rightarrow> string
   \<Rightarrow> Snapshot \<Rightarrow> Snapshot" where
  "observeLocked mk cfg ord m eligible ref s =
     (case classify m (Interface cfg) of
        None \<Rightarrow> s
      | Some e \<Rightarrow> observe_evidence mk cfg ord (e\<lparr>sourceRef := ref\<rparr>) eligible s)"

end
