(* ===== verification/Incident_Service.thy ===== *)
theory Incident_Service
  imports Incident_Engine
begin

text \<open>
  The exported operations of \<open>internal/incidents/engine.go\<close>'s \<open>Service\<close>. Each takes how the store
  answered (\<open>None\<close>: the snapshot was saved) and returns the service and its error. The mutex makes
  every operation one step. A clone of a value is that value.
\<close>

datatype engine_error =
    BadDownDuration | BadRecoveryDuration | LoadFailed string | UnsupportedVersion int
  | SaveFailed string | JobNotFound string

record Service =
  cfg :: Config
  persistent :: bool
  state :: Snapshot
  store :: "Snapshot option"

definition empty_snapshot :: Snapshot where
  "empty_snapshot =
     \<lparr>Version = 1, Bootstrapped = False, LastCheckpointAt = 0, Trackers = [], Incidents = [], Jobs = [],
      Cursors = []\<rparr>"

definition New :: "Config \<Rightarrow> bool \<Rightarrow> Snapshot option \<Rightarrow> engine_error + Service" where
  "New c persistence on_disk =
     (let c = (if Interface c = [] then c\<lparr>Interface := ''wan''\<rparr> else c)
      in if DownAfter c \<le> 0 then Inl BadDownDuration
         else if RecoveredAfter c \<le> 0 then Inl BadRecoveryDuration
         else Inr \<lparr>cfg = c, persistent = persistence, state = empty_snapshot, store = on_disk\<rparr>)"

definition initializeSnapshot :: "Snapshot \<Rightarrow> Snapshot" where
  "initializeSnapshot s = (if Version s = 0 then s\<lparr>Version := 1\<rparr> else s)"

text \<open>A snapshot written before rule version 3 does not say that the primary was unreachable.\<close>

definition migrate_tracker :: "Incident gomap \<Rightarrow> tracker \<Rightarrow> tracker" where
  "migrate_tracker incs current =
     (case map_of incs (TrackedID current) of
        Some i \<Rightarrow> if RuleVersion i < 3 \<and> Phase current \<noteq> phaseHealthy then current\<lparr>ReachabilityDown := True\<rparr>
                  else current
      | None \<Rightarrow> current)"

definition Load :: "string + Snapshot \<Rightarrow> Service \<Rightarrow> Service \<times> engine_error option" where
  "Load loaded sv =
     (if \<not> persistent sv then (sv, None)
      else (case loaded of
              Inl err \<Rightarrow> (sv, Some (LoadFailed err))
            | Inr s \<Rightarrow>
                if Version s = 0 then (sv, None)
                else if Version s \<noteq> 1 then (sv, Some (UnsupportedVersion (Version s)))
                else let s = initializeSnapshot s
                     in (sv\<lparr>state := s\<lparr>Trackers := map (map_prod id (migrate_tracker (Incidents s))) (Trackers s)\<rparr>\<rparr>,
                         None)))"

definition saveLocked :: "string option \<Rightarrow> Service \<Rightarrow> Service \<times> engine_error option" where
  "saveLocked out sv =
     (if \<not> persistent sv then (sv, None)
      else (case out of None \<Rightarrow> (sv\<lparr>store := Some (state sv)\<rparr>, None) | Some err \<Rightarrow> (sv, Some (SaveFailed err))))"

section \<open>Evidence and time\<close>

definition Observe ::
  "(string \<Rightarrow> string \<Rightarrow> time \<Rightarrow> string \<Rightarrow> string) \<Rightarrow> range_order \<Rightarrow> string option \<Rightarrow> Message \<Rightarrow> bool
   \<Rightarrow> Service \<Rightarrow> Service \<times> engine_error option" where
  "Observe mk ord out m eligible sv =
     saveLocked out (sv\<lparr>state := observeLocked mk (cfg sv) ord m eligible [] (state sv)\<rparr>)"

fun observe_all ::
  "(string \<Rightarrow> string \<Rightarrow> time \<Rightarrow> string \<Rightarrow> string) \<Rightarrow> Config \<Rightarrow> (range_order \<times> Observation) list
   \<Rightarrow> Snapshot \<Rightarrow> Snapshot" where
  "observe_all mk c [] s = s"
| "observe_all mk c ((ord, ob) # obs) s =
     observe_all mk c obs (observeLocked mk c ord (ObsMessage ob) (NotifyEligible ob) (SourceRef ob) s)"

definition Apply ::
  "(string \<Rightarrow> string \<Rightarrow> time \<Rightarrow> string \<Rightarrow> string) \<Rightarrow> string option \<Rightarrow> (range_order \<times> Observation) list
   \<Rightarrow> Cursor gomap \<Rightarrow> time \<Rightarrow> Service \<Rightarrow> Service \<times> engine_error option" where
  "Apply mk out obs cursors checkpointAt sv =
     saveLocked out
       (sv\<lparr>state := (observe_all mk (cfg sv) obs (state sv))
             \<lparr>Cursors := cursors, Bootstrapped := True, LastCheckpointAt := checkpointAt\<rparr>\<rparr>)"

definition Tick :: "range_order \<Rightarrow> string option \<Rightarrow> time \<Rightarrow> Service \<Rightarrow> Service \<times> engine_error option" where
  "Tick ord out now sv =
     (let (s, changed) = advanceLocked (cfg sv) ord now (state sv); sv = sv\<lparr>state := s\<rparr>
      in if \<not> changed then (sv, None) else saveLocked out sv)"

section \<open>Rebuilding\<close>

text \<open>The incidents keep the wish to notify they had before.\<close>

definition keep_notify :: "Incident gomap \<Rightarrow> Snapshot \<Rightarrow> Snapshot" where
  "keep_notify previous s =
     s\<lparr>Incidents := map (\<lambda>(k, i). (k, case map_of previous k of
          Some old \<Rightarrow> i\<lparr>IncNotify := (IncNotify i \<or> IncNotify old)\<rparr> | None \<Rightarrow> i)) (Incidents s)\<rparr>"

definition tell_trackers :: "Snapshot \<Rightarrow> Snapshot" where
  "tell_trackers s =
     s\<lparr>Trackers := map (\<lambda>(k, c). (k, case map_of (Incidents s) (TrackedID c) of
          Some i \<Rightarrow> c\<lparr>TrackedNotify := IncNotify i\<rparr> | None \<Rightarrow> c)) (Trackers s)\<rparr>"

definition keep_jobs :: "NotificationJob gomap \<Rightarrow> Snapshot \<Rightarrow> Snapshot" where
  "keep_jobs previous s =
     fold (\<lambda>(k, j) s. if map_of (Incidents s) (JobIncidentID j) \<noteq> None
                       then s\<lparr>Jobs := AList.update k j (Jobs s)\<rparr> else s) previous s"

text \<open>The escalations of one fallback incident by primary outages that began while it was down.\<close>

definition escalated_by :: "Config \<Rightarrow> Incident \<Rightarrow> Incident \<Rightarrow> bool" where
  "escalated_by c i p \<longleftrightarrow>
     IncHostname p = IncHostname i \<and> IncInterface p = Interface c
     \<and> (case (ActivatedAt p, ActivatedAt i) of
          (Some a, Some b) \<Rightarrow> b < a \<and> (case ResolvedAt i of None \<Rightarrow> True | Some r \<Rightarrow> a < r)
        | _ \<Rightarrow> False)"

definition rebuild_jobs_of :: "Config \<Rightarrow> range_order \<Rightarrow> Incident \<Rightarrow> Snapshot \<Rightarrow> Snapshot" where
  "rebuild_jobs_of c ord i s =
     (case ActivatedAt i of
        None \<Rightarrow> s
      | Some activated \<Rightarrow>
          if \<not> IncNotify i then s
          else
            let fallback = (IncInterface i \<noteq> Interface c);
                s = (if fallback
                     then (case primaryDownAtLocked c ord (IncHostname i) activated s of
                             Some p \<Rightarrow> enqueueFallbackEscalationLocked (IncID i) (IncID p) activated s
                           | None \<Rightarrow> enqueueLocked (IncID i) NotificationFallbackOpened activated s)
                     else enqueueLocked (IncID i) NotificationOpened activated s);
                s = (case ResolvedAt i of
                       Some r \<Rightarrow>
                         if IncState i = StateResolved
                         then enqueueLocked (IncID i)
                                (if fallback then NotificationFallbackResolved else NotificationResolved) r s
                         else s
                     | None \<Rightarrow> s)
            in if fallback
               then fold (\<lambda>(k, p) s. if escalated_by c i p
                                      then enqueueFallbackEscalationLocked (IncID i) (IncID p) (the (ActivatedAt p)) s
                                      else s)
                      (over_incidents ord (Incidents s)) s
               else s)"

text \<open>Each incident's inner loops have their own order, \<open>ords k\<close> for the incident \<open>k\<close>.\<close>

definition rebuild_jobs ::
  "Config \<Rightarrow> range_order \<Rightarrow> (string \<Rightarrow> range_order) \<Rightarrow> Snapshot \<Rightarrow> Snapshot" where
  "rebuild_jobs c ord ords s =
     fold (\<lambda>(k, i) s. rebuild_jobs_of c (ords k) i s) (over_incidents ord (Incidents s)) s"

definition Rebuild ::
  "(string \<Rightarrow> string \<Rightarrow> time \<Rightarrow> string \<Rightarrow> string) \<Rightarrow> range_order
   \<Rightarrow> (string \<Rightarrow> range_order) \<Rightarrow> string option \<Rightarrow> (range_order \<times> Observation) list \<Rightarrow> Cursor gomap
   \<Rightarrow> time \<Rightarrow> Service \<Rightarrow> Service \<times> engine_error option" where
  "Rebuild mk ord ords out obs cursors checkpointAt sv =
     (let previous = state sv;
          s = empty_snapshot\<lparr>Bootstrapped := True, LastCheckpointAt := checkpointAt, Cursors := cursors\<rparr>;
          s = observe_all mk (cfg sv) obs s;
          s = keep_notify (Incidents previous) s;
          s = tell_trackers s;
          s = keep_jobs (Jobs previous) s;
          s = rebuild_jobs (cfg sv) ord ords s
      in saveLocked out (sv\<lparr>state := s\<rparr>))"

section \<open>Queries\<close>

text \<open>\<open>sort.Slice\<close> leaves the order of equal elements open, and so does the range over the map
  before it: a stable sort of the visited entries has every order the code may give.\<close>

record Query =
  QueryState :: "State option"
  QueryLimit :: int
  QueryOffset :: int

definition List_incidents :: "range_order \<Rightarrow> Query \<Rightarrow> Service \<Rightarrow> Incident list" where
  "List_incidents ord q sv =
     (let items = sort_key (\<lambda>i. - StartedAt i)
            (filter (\<lambda>i. QueryState q = None \<or> QueryState q = Some (IncState i))
               (map snd (over_incidents ord (Incidents (state sv)))));
          start = (if QueryOffset q < 0 then 0 else QueryOffset q)
      in if int (length items) \<le> start then []
         else let stop = (if 0 < QueryLimit q \<and> start + QueryLimit q < int (length items)
                          then start + QueryLimit q else int (length items))
              in take (nat (stop - start)) (drop (nat start) items))"

definition Get :: "string \<Rightarrow> Service \<Rightarrow> Incident option" where
  "Get i sv = map_of (Incidents (state sv)) i"

type_synonym job_order = "NotificationJob gomap \<Rightarrow> NotificationJob gomap"

definition NotificationsFor :: "job_order \<Rightarrow> string \<Rightarrow> Service \<Rightarrow> NotificationJob list" where
  "NotificationsFor ord i sv =
     sort_key CreatedAt (filter (\<lambda>j. JobIncidentID j = i) (map snd (ord (Jobs (state sv)))))"

definition waiting :: "NotificationJob \<Rightarrow> bool" where
  "waiting j \<longleftrightarrow> SentAt j = None \<and> \<not> JobPermanent j"

definition PendingNotifications :: "job_order \<Rightarrow> Service \<Rightarrow> NotificationJob list" where
  "PendingNotifications ord sv = sort_key CreatedAt (filter waiting (map snd (ord (Jobs (state sv)))))"

definition DueNotifications :: "job_order \<Rightarrow> time \<Rightarrow> Service \<Rightarrow> NotificationJob list" where
  "DueNotifications ord now sv =
     sort_key CreatedAt (filter (\<lambda>j. waiting j \<and> NextAt j \<le> now) (map snd (ord (Jobs (state sv)))))"

section \<open>Outcomes of deliveries\<close>

text \<open>A mark that could not be saved is taken back.\<close>

definition mark :: "string option \<Rightarrow> string \<Rightarrow> (NotificationJob \<Rightarrow> NotificationJob) \<Rightarrow> Service
   \<Rightarrow> Service \<times> engine_error option" where
  "mark out i f sv =
     (case map_of (Jobs (state sv)) i of
        None \<Rightarrow> (sv, Some (JobNotFound i))
      | Some job \<Rightarrow>
          let s = state sv; sv' = sv\<lparr>state := s\<lparr>Jobs := AList.update i (f job) (Jobs s)\<rparr>\<rparr>
          in (case saveLocked out sv' of
                (sv', None) \<Rightarrow> (sv', None)
              | (sv', Some err) \<Rightarrow>
                  (sv'\<lparr>state := (state sv')\<lparr>Jobs := AList.update i job (Jobs (state sv'))\<rparr>\<rparr>, Some err)))"

definition MarkNotificationSent ::
  "string option \<Rightarrow> string \<Rightarrow> string \<Rightarrow> string \<Rightarrow> time \<Rightarrow> Service \<Rightarrow> Service \<times> engine_error option" where
  "MarkNotificationSent out i adapter external t =
     mark out i (\<lambda>j. j\<lparr>SentAt := Some t, JobAdapter := adapter, ExternalID := external, JobLastError := []\<rparr>)"

definition MarkNotificationFailed ::
  "string option \<Rightarrow> string \<Rightarrow> string \<Rightarrow> time \<Rightarrow> bool \<Rightarrow> Service \<Rightarrow> Service \<times> engine_error option" where
  "MarkNotificationFailed out i message retry permanent =
     mark out i (\<lambda>j. j\<lparr>JobAttempts := JobAttempts j + 1, JobLastError := message, NextAt := retry,
                       JobPermanent := permanent\<rparr>)"

definition SetCursors :: "string option \<Rightarrow> Cursor gomap \<Rightarrow> Service \<Rightarrow> Service \<times> engine_error option" where
  "SetCursors out cursors sv = saveLocked out (sv\<lparr>state := (state sv)\<lparr>Cursors := cursors\<rparr>\<rparr>)"

definition ReplaceSnapshot :: "string option \<Rightarrow> Snapshot \<Rightarrow> Service \<Rightarrow> Service \<times> engine_error option" where
  "ReplaceSnapshot out s sv = saveLocked out (sv\<lparr>state := initializeSnapshot s\<rparr>)"

end
