(* ===== verification/Message_Api.thy ===== *)
theory Message_Api
  imports Message_Store Incident_Service
begin

text \<open>
  The handlers of \<open>internal/api/router.go\<close> that serve the page: how a request's query string is read,
  and what \<open>handleMessages\<close>, \<open>handleIncidents\<close> and \<open>handleIncident\<close> answer. A request is its
  parsed query string (\<open>parse_query\<close>, Go's \<open>r.URL.Query()\<close>); an answer is the value that
  is written as JSON, or the status and cause of a refusal. \<open>time.Parse\<close> at the layout RFC3339Nano is
  the parameter \<open>parse_time\<close>. A request that its client has given up gets no answer and is left out.
\<close>

section \<open>Reading the query string\<close>

datatype query_error =
    BadLimit string | LimitOutOfRange int | BadOffset string | NegativeOffset | BadSince | BadUntil | BadState

definition defaultMessageLimit :: int where
  "defaultMessageLimit = 200"

definition maxMessageLimit :: int where
  "maxMessageLimit = 2000"

definition parse_limit :: "string \<Rightarrow> query_error + int" where
  "parse_limit rawLimit =
     (if rawLimit = [] then Inr defaultMessageLimit
      else (case atoi rawLimit of
              None \<Rightarrow> Inl (BadLimit rawLimit)
            | Some n \<Rightarrow> if n \<le> 0 \<or> maxMessageLimit < n then Inl (LimitOutOfRange maxMessageLimit) else Inr n))"

definition parse_offset :: "string \<Rightarrow> query_error + int" where
  "parse_offset rawOffset =
     (if rawOffset = [] then Inr 0
      else (case atoi rawOffset of
              None \<Rightarrow> Inl (BadOffset rawOffset)
            | Some n \<Rightarrow> if n < 0 then Inl NegativeOffset else Inr n))"

definition parseOptionalTime :: "(string \<Rightarrow> time option) \<Rightarrow> string \<Rightarrow> time option option" where
  "parseOptionalTime parse_time text =
     (let text = go_trim text in if text = [] then Some None else map_option Some (parse_time text))"

text \<open>The trimmed, non-empty values, each once, in the order they first occur.\<close>

fun clean_values :: "string list \<Rightarrow> string list \<Rightarrow> string list" where
  "clean_values seen [] = []"
| "clean_values seen (v # vs) =
     (let v = go_trim v
      in if v = [] \<or> v \<in> set seen then clean_values seen vs else v # clean_values (v # seen) vs)"

definition cleanQueryValues :: "string list \<Rightarrow> string list" where
  "cleanQueryValues = clean_values []"

definition parseMessagesQuery :: "(string \<Rightarrow> time option) \<Rightarrow> params \<Rightarrow> query_error + StoreQuery" where
  "parseMessagesQuery parse_time vs =
     (case parse_limit (go_trim (values_get vs ''limit'')) of
        Inl e \<Rightarrow> Inl e
      | Inr n \<Rightarrow>
          (case parse_offset (go_trim (values_get vs ''offset'')) of
             Inl e \<Rightarrow> Inl e
           | Inr off \<Rightarrow>
               (case parseOptionalTime parse_time (values_get vs ''since'') of
                  None \<Rightarrow> Inl BadSince
                | Some since \<Rightarrow>
                    (case parseOptionalTime parse_time (values_get vs ''until'') of
                       None \<Rightarrow> Inl BadUntil
                     | Some until \<Rightarrow>
                         Inr \<lparr>QText = values_get vs ''q'', QHosts = cleanQueryValues (values_all vs ''host''),
                              QLimit = n, QOffset = off, QSince = since, QUntil = until\<rparr>))))"

section \<open>Messages\<close>

record messagesMeta =
  Count :: int
  MetaLimit :: int
  MetaOffset :: int
  HasMore :: bool

record messagesResponse =
  Data :: "Message list"
  Meta :: messagesMeta

datatype 'a reply = Answer 'a | BadRequest query_error | BadFilter | NotFound | Unavailable | ServerError

fun reply_status :: "'a reply \<Rightarrow> int" where
  "reply_status (Answer a) = 200"
| "reply_status (BadRequest e) = 400"
| "reply_status BadFilter = 400"
| "reply_status NotFound = 404"
| "reply_status ServerError = 500"
| "reply_status Unavailable = 503"

text \<open>One message more than asked for is queried, to tell whether there are more.\<close>

definition handleMessages ::
  "(string \<Rightarrow> time option) \<Rightarrow> text_library \<Rightarrow> codec \<Rightarrow> params \<Rightarrow> FileStore
   \<Rightarrow> FileStore \<times> messagesResponse reply" where
  "handleMessages parse_time lib cod vs st =
     (case parseMessagesQuery parse_time vs of
        Inl e \<Rightarrow> (st, BadRequest e)
      | Inr q \<Rightarrow>
          (case Message_Store.Query lib cod (q\<lparr>QLimit := QLimit q + 1\<rparr>) st of
             (st, Inl e) \<Rightarrow> (st, if e = InvalidFilter then BadFilter else ServerError)
           | (st, Inr messages) \<Rightarrow>
               let hasMore = (QLimit q < int (length messages));
                   messages = (if hasMore then take (nat (QLimit q)) messages else messages)
               in (st, Answer \<lparr>Data = messages,
                               Meta = \<lparr>Count = int (length messages), MetaLimit = QLimit q,
                                       MetaOffset = QOffset q, HasMore = hasMore\<rparr>\<rparr>)))"

section \<open>Incidents\<close>

definition parsePagination :: "params \<Rightarrow> int \<Rightarrow> int \<Rightarrow> query_error + int \<times> int" where
  "parsePagination vs defaultLimit maxLimit =
     (let size_text = values_get vs ''limit''; off_text = values_get vs ''offset''
      in case (if size_text = [] then Some defaultLimit
               else (case atoi size_text of
                       None \<Rightarrow> None | Some n \<Rightarrow> if n \<le> 0 \<or> maxLimit < n then None else Some n)) of
           None \<Rightarrow> Inl (LimitOutOfRange maxLimit)
         | Some n \<Rightarrow>
             (case (if off_text = [] then Some 0
                    else (case atoi off_text of None \<Rightarrow> None | Some k \<Rightarrow> if k < 0 then None else Some k)) of
                None \<Rightarrow> Inl NegativeOffset
              | Some k \<Rightarrow> Inr (n, k)))"

record incidentResponse =
  TheIncident :: Incident
  Deliveries :: "NotificationJob list"

record incidentsResponse =
  IncidentData :: "incidentResponse list"
  IncidentMeta :: messagesMeta

text \<open>An incident whose recovery is being confirmed counts as active.\<close>

definition state_selected :: "string \<Rightarrow> Incident \<Rightarrow> bool" where
  "state_selected wanted i \<longleftrightarrow>
     (wanted = ''pending_failure'' \<longrightarrow> IncState i = StatePendingFailure)
     \<and> (wanted = ''active'' \<longrightarrow> IncState i = StateActive \<or> IncState i = StatePendingRecovery)
     \<and> (wanted = ''resolved'' \<longrightarrow> IncState i = StateResolved)"

definition response_of :: "job_order \<Rightarrow> Service \<Rightarrow> Incident \<Rightarrow> incidentResponse" where
  "response_of jobs sv i = \<lparr>TheIncident = i, Deliveries = NotificationsFor jobs (IncID i) sv\<rparr>"

definition handleIncidents ::
  "range_order \<Rightarrow> job_order \<Rightarrow> params \<Rightarrow> Service option \<Rightarrow> incidentsResponse reply" where
  "handleIncidents ord jobs vs service =
     (case service of
        None \<Rightarrow> Unavailable
      | Some sv \<Rightarrow>
          (case parsePagination vs 100 1000 of
             Inl e \<Rightarrow> BadRequest e
           | Inr (n, offset) \<Rightarrow>
               let wanted = go_trim (values_get vs ''state'')
               in if wanted \<notin> {[], ''pending_failure'', ''active'', ''resolved''} then BadRequest BadState
                  else
                    let all = List_incidents ord \<lparr>QueryState = None, QueryLimit = 0, QueryOffset = 0\<rparr> sv;
                        filtered = filter (state_selected wanted) all;
                        first = min offset (int (length filtered));
                        to = min (first + n) (int (length filtered))
                    in Answer \<lparr>IncidentData = map (response_of jobs sv)
                                 (take (nat (to - first)) (drop (nat first) filtered)),
                               IncidentMeta = \<lparr>Count = to - first, MetaLimit = n, MetaOffset = offset,
                                               HasMore = to < int (length filtered)\<rparr>\<rparr>))"

definition handleIncident :: "job_order \<Rightarrow> string \<Rightarrow> Service option \<Rightarrow> incidentResponse reply" where
  "handleIncident jobs path service =
     (case service of
        None \<Rightarrow> Unavailable
      | Some sv \<Rightarrow>
          let prefix_text = ''/api/v1/incidents/'';
              i = (if prefix prefix_text path then drop (length prefix_text) path else path)
          in if i = [] \<or> CHR ''/'' \<in> set i then NotFound
             else (case Get i sv of None \<Rightarrow> NotFound | Some inc \<Rightarrow> Answer (response_of jobs sv inc)))"

end
