(* ===== verification/Store_Query.thy ===== *)
theory Store_Query
  imports Message_Store Machine
begin

text \<open>
  What a query of the message store returns: the merge of the files' indexes is a stable sort, the loop
  over it takes a page, the index of a file is kept right while the file grows, and so a
  query returns what a plain scan of all stored messages would.
\<close>


section \<open>The merge\<close>

function popped :: "indexCursor list \<Rightarrow> (string \<times> indexEntry) list" where
  "popped pend =
     (if pend = [] then []
      else let i = least pend; c = pend ! i
      in case rest c of [] \<Rightarrow> [] | e # es \<Rightarrow> (cursor_path c, e) # popped (push_rest i es pend))"
  by pat_completeness auto
termination
  by (relation "measure (\<lambda>pend. sum_list (map (length \<circ> rest) pend))") (auto simp: least_less push_rest_less)

declare popped.simps [simp del]

definition latest_first :: "indexEntry list \<Rightarrow> bool" where
  "latest_first = sorted_wrt (\<lambda>x y. receivedAt y \<le> receivedAt x)"

definition cursors_ok :: "indexCursor list \<Rightarrow> bool" where
  "cursors_ok pend \<longleftrightarrow>
     sorted_wrt (\<lambda>a b. order a < order b) pend \<and> (\<forall>c \<in> set pend. rest c \<noteq> [] \<and> latest_first (rest c))"

definition flat :: "indexCursor list \<Rightarrow> (string \<times> indexEntry) list" where
  "flat pend = concat (map (\<lambda>c. map (Pair (cursor_path c)) (rest c)) pend)"

abbreviation stamp :: "indexCursor \<Rightarrow> time" where
  "stamp c \<equiv> receivedAt (hd (rest c))"

lemma latest_head: "latest_first (rest x) \<Longrightarrow> y \<in> set (rest x) \<Longrightarrow> receivedAt y \<le> stamp x"
  by (cases "rest x") (auto simp: latest_first_def)

text \<open>The cursors before the least one stand at earlier entries, those behind it at no later ones.\<close>

lemma least_splits:
  assumes "pend \<noteq> []" "sorted_wrt (\<lambda>a b. order a < order b) pend" "\<forall>c \<in> set pend. rest c \<noteq> []"
  shows "\<exists>before c after. pend = before @ c # after \<and> length before = least pend
           \<and> (\<forall>x \<in> set before. stamp x < stamp c) \<and> (\<forall>x \<in> set after. stamp x \<le> stamp c)"
  using assms
proof (induction pend rule: least.induct)
  case (3 c d cs)
  from 3 obtain before m after where m: "d # cs = before @ m # after" "length before = least (d # cs)"
    "\<forall>x \<in> set before. stamp x < stamp m" "\<forall>x \<in> set after. stamp x \<le> stamp m"
    by auto
  then have nth: "(d # cs) ! least (d # cs) = m" by (metis nth_append_length)
  have "m \<in> set (d # cs)" unfolding m(1) by simp
  then have "order c < order m" "rest c \<noteq> []" "rest m \<noteq> []" using 3(3,4) by auto
  then have less: "Less m c \<longleftrightarrow> stamp c < stamp m"
    by (auto simp: Less_def neq_Nil_conv split: if_splits)
  show ?case
  proof (cases "Less m c")
    case True
    have "c # d # cs = (c # before) @ m # after" using m(1) by simp
    moreover have "length (c # before) = least (c # d # cs)" using True nth m(2) by (simp add: Let_def)
    moreover have "\<forall>x \<in> set (c # before). stamp x < stamp m" using True less m(3) by simp
    ultimately show ?thesis using m(4) by blast
  next
    case False
    have "\<forall>x \<in> set (d # cs). stamp x \<le> stamp c"
      unfolding m(1) using False less m(3,4) by force
    moreover have "length [] = least (c # d # cs)" using False nth by (simp add: Let_def)
    ultimately show ?thesis by (intro exI[of _ "[]"]) auto
  qed
qed auto

lemma sort_key_pick:
  assumes "\<forall>y \<in> set as. f x < f y" "\<forall>y \<in> set bs. f x \<le> f y"
  shows "sort_key f (as @ x # bs) = x # sort_key f (as @ bs)"
  using assms
proof (induction as)
  case Nil
  have "insort_key f x ys = x # ys" if "\<forall>y \<in> set ys. f x \<le> f y" for ys
    using that by (cases ys) auto
  with Nil show ?case by simp
qed auto

lemma popped_sort:
  "cursors_ok pend \<Longrightarrow> popped pend = sort_key (\<lambda>x. - receivedAt (snd x)) (flat pend)"
proof (induction pend rule: popped.induct)
  case (1 pend)
  show ?case
  proof (cases "pend = []")
    case True
    then show ?thesis by (simp add: popped.simps[of "[]"] flat_def)
  next
    case False
    let ?i = "least pend" and ?f = "\<lambda>x :: string \<times> indexEntry. - receivedAt (snd x)"
    obtain before c after where split: "pend = before @ c # after" "length before = ?i"
      "\<forall>x \<in> set before. stamp x < stamp c" "\<forall>x \<in> set after. stamp x \<le> stamp c"
      using least_splits[OF False] "1.prems" by (auto simp: cursors_ok_def)
    have nth: "pend ! ?i = c" by (metis nth_append_length split(1,2))
    obtain e es where c: "rest c = e # es"
      using "1.prems" split(1) by (cases "rest c") (auto simp: cursors_ok_def)
    let ?next = "before @ (if es = [] then [] else [c\<lparr>rest := es\<rparr>]) @ after"
    have "push_rest (length before) es (before @ c # after) = ?next"
      by (simp add: push_rest_def)
    then have push: "push_rest ?i es pend = ?next" using split(1,2) by simp
    have ok: "sorted_wrt (\<lambda>a b. order a < order b) pend" "latest_first (e # es)"
      using "1.prems" split(1) c by (auto simp: cursors_ok_def)
    have heads: "receivedAt y \<le> stamp x" if "x \<in> set before \<union> set after" "y \<in> set (rest x)" for x y
      using "1.prems" split(1) that by (intro latest_head) (auto simp: cursors_ok_def)
    have flats: "flat pend = flat before @ (cursor_path c, e) # map (Pair (cursor_path c)) es @ flat after"
      "flat ?next = flat before @ map (Pair (cursor_path c)) es @ flat after"
      using split(1) c by (simp_all add: flat_def)
    have "cursors_ok ?next"
      using "1.prems" split(1) c by (auto simp: cursors_ok_def sorted_wrt_append latest_first_def)
    then have IH: "popped ?next = sort_key ?f (flat ?next)"
      using "1.IH"[OF False refl refl] nth c push by simp
    have "popped pend = (cursor_path c, e) # popped ?next"
      using False nth c push by (simp add: popped.simps[of pend] Let_def)
    also have "\<dots> = sort_key ?f (flat pend)"
      unfolding IH flats
    proof (rule sort_key_pick[symmetric])
      show "\<forall>y \<in> set (flat before). ?f (cursor_path c, e) < ?f y"
        using split(3) heads c by (fastforce simp: flat_def)
      show "\<forall>y \<in> set (map (Pair (cursor_path c)) es @ flat after). ?f (cursor_path c, e) \<le> ?f y"
        using split(4) heads c ok(2) by (fastforce simp: flat_def latest_first_def)
    qed
    finally show ?thesis .
  qed
qed

section \<open>The loop of a query\<close>

lemma push_rest_set:
  "i < length pend \<Longrightarrow> \<forall>c \<in> set pend. rest c \<noteq> [] \<Longrightarrow> \<forall>c \<in> set (push_rest i es pend). rest c \<noteq> []"
  by (auto simp: push_rest_def dest!: in_set_takeD in_set_dropD set_update_subset_insert[THEN subsetD])

text \<open>What the loop does with the entries it takes.\<close>

fun process ::
  "codec \<Rightarrow> FileStore \<Rightarrow> (Message \<Rightarrow> bool) \<Rightarrow> bool \<Rightarrow> nat \<Rightarrow> StoreQuery \<Rightarrow> (string \<times> indexEntry) list \<Rightarrow> int
   \<Rightarrow> Message list \<Rightarrow> store_error + Message list" where
  "process cod st match blank limit q [] skipped messages = Inr messages"
| "process cod st match blank limit q ((path, entry) # xs) skipped messages =
     (if limit \<le> length messages \<or> (case QSince q of None \<Rightarrow> False | Some t \<Rightarrow> receivedAt entry < t)
      then Inr messages
      else if selectedHosts (QHosts q) \<noteq> [] \<and> host entry \<notin> set (selectedHosts (QHosts q))
      then process cod st match blank limit q xs skipped messages
      else if blank \<and> skipped < QOffset q then process cod st match blank limit q xs (skipped + 1) messages
      else (case read_message cod st path entry of
              None \<Rightarrow> Inl ReadFailed
            | Some m \<Rightarrow>
                if \<not> blank \<and> \<not> match m then process cod st match blank limit q xs skipped messages
                else if skipped < QOffset q then process cod st match blank limit q xs (skipped + 1) messages
                else process cod st match blank limit q xs skipped (messages @ [m])))"

lemma query_loop_process:
  "\<forall>c \<in> set pend. rest c \<noteq> [] \<Longrightarrow>
   query_loop cod st match blank limit q pend skipped messages =
   process cod st match blank limit q (popped pend) skipped messages"
proof (induction cod st match blank limit q pend skipped messages rule: query_loop.induct)
  case (1 cod st match blank limit q pend skipped messages)
  show ?case
  proof (cases "pend = []")
    case True
    then show ?thesis by (simp add: query_loop.simps popped.simps[of "[]"])
  next
    case False
    let ?i = "least pend"
    have i: "?i < length pend" using False by (rule least_less)
    then have "rest (pend ! ?i) \<noteq> []" using "1.prems" by simp
    then obtain e es where c: "rest (pend ! ?i) = e # es" by (meson neq_Nil_conv)
    have popped: "popped pend = (cursor_path (pend ! ?i), e) # popped (push_rest ?i es pend)"
      using False c by (simp add: popped.simps[of pend] Let_def)
    show ?thesis
    proof (cases "limit \<le> length messages")
      case True
      then show ?thesis by (simp add: query_loop.simps[of _ _ _ _ _ _ pend] popped)
    next
      case full: False
      have go: "\<not> (pend = [] \<or> limit \<le> length messages)" using False full by simp
      note IH = "1.IH"[OF go refl refl c _ refl]
      show ?thesis
        unfolding popped
        using go c IH push_rest_set[OF i "1.prems"]
        by (cases blank; cases "QSince q"; cases "read_message cod st (cursor_path (pend ! ?i)) e")
          (auto simp: query_loop.simps[of _ _ _ _ _ _ pend])
    qed
  qed
qed

text \<open>The message an entry of the index stands for.\<close>

definition reads :: "codec \<Rightarrow> FileStore \<Rightarrow> string \<times> indexEntry \<Rightarrow> Message \<Rightarrow> bool" where
  "reads cod st x m \<longleftrightarrow>
     read_message cod st (fst x) (snd x) = Some m \<and> receivedAt (snd x) = ReceivedAt m \<and> host (snd x) = Hostname m"

definition recent :: "StoreQuery \<Rightarrow> Message \<Rightarrow> bool" where
  "recent q m \<longleftrightarrow> (case QSince q of None \<Rightarrow> True | Some t \<Rightarrow> t \<le> ReceivedAt m)"

definition wanted :: "(Message \<Rightarrow> bool) \<Rightarrow> bool \<Rightarrow> StoreQuery \<Rightarrow> Message \<Rightarrow> bool" where
  "wanted match blank q m \<longleftrightarrow>
     (selectedHosts (QHosts q) = [] \<or> Hostname m \<in> set (selectedHosts (QHosts q))) \<and> (blank \<or> match m)"

lemma process_page:
  assumes "list_all2 (reads cod st) xs ms"
  shows "process cod st match blank limit q xs skipped messages =
     Inr (messages @ take (limit - length messages)
           (drop (nat (QOffset q - skipped)) (filter (wanted match blank q) (takeWhile (recent q) ms))))"
  using assms
proof (induction xs ms arbitrary: skipped messages rule: list_all2_induct)
  case (Cons x xs m ms)
  obtain path e where x: "x = (path, e)" by (cases x)
  have m: "read_message cod st path e = Some m" "receivedAt e = ReceivedAt m" "host e = Hostname m"
    using Cons.hyps(1) by (simp_all add: reads_def x)
  have since: "(case QSince q of None \<Rightarrow> False | Some t \<Rightarrow> receivedAt e < t) \<longleftrightarrow> \<not> recent q m"
    by (auto simp: recent_def m split: option.split)
  have skip: "nat (QOffset q - skipped) = Suc (nat (QOffset q - (skipped + 1)))" if "skipped < QOffset q"
    using that by simp
  have one: "limit - length messages = Suc (limit - length (messages @ [m]))" if "\<not> limit \<le> length messages"
    using that by simp
  consider "limit \<le> length messages \<or> \<not> recent q m" | "\<not> limit \<le> length messages" "recent q m" "\<not> wanted match blank q m"
    | "\<not> limit \<le> length messages" "recent q m" "wanted match blank q m" "skipped < QOffset q"
    | "\<not> limit \<le> length messages" "recent q m" "wanted match blank q m" "\<not> skipped < QOffset q"
    by blast
  then show ?case
  proof cases
    case 1
    then show ?thesis by (auto simp: x since)
  next
    case 2
    then show ?thesis
      using Cons.IH by (auto simp: x since m wanted_def)
  next
    case 3
    then show ?thesis
      using Cons.IH skip by (cases blank) (auto simp: x since m wanted_def)
  next
    case 4
    then have "nat (QOffset q - skipped) = 0" by simp
    with 4 show ?thesis
      using Cons.IH[of skipped "messages @ [m]"] one by (cases blank) (auto simp: x since m wanted_def)
  qed
qed simp

section \<open>The index of a file\<close>

text \<open>What the codec does with a stored message: one line, not too long, that reads back as the message.\<close>

definition line_ok :: "codec \<Rightarrow> Message \<Rightarrow> bool" where
  "line_ok cod m \<longleftrightarrow>
     encode cod m \<noteq> [] \<and> last (encode cod m) = newline_byte \<and> newline_byte \<notin> set (butlast (encode cod m))
     \<and> int (length (encode cod m)) \<le> maxScannerToken
     \<and> decode cod (encode cod m) = Some m \<and> decode_key cod (encode cod m) = Some (ReceivedAt m, Hostname m)"

abbreviation bytes_of :: "codec \<Rightarrow> Message list \<Rightarrow> string" where
  "bytes_of cod ms \<equiv> concat (map (encode cod) ms)"

lemma scan_one: "newline_byte \<notin> set l \<Longrightarrow> scan_lines (l @ newline_byte # s) = (l @ [newline_byte]) # scan_lines s"
  by (induction l) auto

lemma scan_lines_bytes: "list_all (line_ok cod) ms \<Longrightarrow> scan_lines (bytes_of cod ms) = map (encode cod) ms"
proof (induction ms)
  case (Cons m ms)
  then have "encode cod m = butlast (encode cod m) @ [newline_byte]"
    by (simp add: line_ok_def) (metis append_butlast_last_id)
  with Cons scan_one[of "butlast (encode cod m)" "bytes_of cod ms"] show ?case
    by (auto simp: line_ok_def) (metis append.assoc append_Cons append_Nil)
qed simp

fun index_of_messages :: "codec \<Rightarrow> nat \<Rightarrow> Message list \<Rightarrow> indexEntry list" where
  "index_of_messages cod off [] = []"
| "index_of_messages cod off (m # ms) =
     \<lparr>receivedAt = ReceivedAt m, host = Hostname m, start = off, len = length (encode cod m)\<rparr>
       # index_of_messages cod (off + length (encode cod m)) ms"

lemma index_of_append:
  "index_of_messages cod off (ms @ ns) =
   index_of_messages cod off ms @ index_of_messages cod (off + length (bytes_of cod ms)) ns"
  by (induction ms arbitrary: off) (simp_all add: add.assoc)

lemma scanIndex_messages:
  "list_all (line_ok cod) ms \<Longrightarrow>
   scanIndex cod off (map (encode cod) ms) es = Some (es @ index_of_messages cod off ms)"
  by (induction ms arbitrary: off es) (auto simp: line_ok_def too_long_def)

lemma index_starts:
  "list_all (line_ok cod) ms \<Longrightarrow>
   sorted_wrt (\<lambda>x y. start x < start y) (index_of_messages cod off ms)
   \<and> (\<forall>e \<in> set (index_of_messages cod off ms). off \<le> start e)"
proof (induction ms arbitrary: off)
  case (Cons m ms)
  then have "0 < length (encode cod m)" by (simp add: line_ok_def)
  moreover have "\<forall>e \<in> set (index_of_messages cod (off + length (encode cod m)) ms).
      off + length (encode cod m) \<le> start e"
    using Cons.IH[of "off + length (encode cod m)"] Cons.prems by simp
  ultimately have "\<forall>e \<in> set (index_of_messages cod (off + length (encode cod m)) ms). off < start e"
    by (metis add.commute less_add_same_cancel2 order_less_le_trans)
  then show ?case
    using Cons.IH[of "off + length (encode cod m)"] Cons.prems by (auto intro: less_imp_le)
qed simp

text \<open>Where two entries were appended one after the other, the sort by time alone, of the reversed entries,
  is the sort of the index.\<close>

lemma sort_entries_reversed:
  assumes "sorted_wrt (\<lambda>x y. start x < start y) es"
  shows "sort_entries es = sort_key (\<lambda>e. - receivedAt e) (rev es)"
proof -
  let ?k = "\<lambda>e. (- receivedAt e, - int (start e))"
  have same: "sort_key ?k zs = sort_key (\<lambda>e. - receivedAt e) zs" if "sorted_wrt (\<lambda>x y. start y < start x) zs" for zs
    using that
  proof (induction zs)
    case (Cons z zs)
    then have "insort_key ?k z (sort_key (\<lambda>e. - receivedAt e) zs)
        = insort_key (\<lambda>e. - receivedAt e) z (sort_key (\<lambda>e. - receivedAt e) zs)"
      by (intro insort_key_cong) (auto simp: less_eq_prod_def)
    with Cons show ?case by simp
  qed simp
  have "distinct (map start es)"
    using assms strict_sorted_iff[of "map start es"] by (simp add: sorted_wrt_map)
  then have "inj_on ?k (set es)" by (auto simp: inj_on_def distinct_map)
  then have "sort_entries es = sort_key ?k (rev es)"
    unfolding sort_entries_def by (intro sort_key_unique) simp_all
  with same[of "rev es"] assms show ?thesis by (simp add: sorted_wrt_rev)
qed

lemma sort_entries_again:
  assumes "inj_on start (set (xs @ ys))"
  shows "sort_entries (sort_entries xs @ ys) = sort_entries (xs @ ys)"
  unfolding sort_entries_def
  by (rule sort_key_unique) (use assms in \<open>auto simp: inj_on_def\<close>)

lemma index_start_inj: "list_all (line_ok cod) ms \<Longrightarrow> inj_on start (set (index_of_messages cod off ms))"
  using index_starts[of cod ms off] strict_sorted_iff[of "map start (index_of_messages cod off ms)"]
  by (simp add: sorted_wrt_map distinct_map)

text \<open>The index of a file whose bytes are the messages \<open>ms\<close>.\<close>

definition index_good :: "codec \<Rightarrow> stored_file \<Rightarrow> Message list \<Rightarrow> fileIndex \<Rightarrow> bool" where
  "index_good cod f ms i \<longleftrightarrow>
     info_id (info i) = file_id f \<and> info_size (info i) = length (bytes_of cod ms)
     \<and> entries i = sort_entries (index_of_messages cod 0 ms)"

lemma bytes_empty: "list_all (line_ok cod) ms \<Longrightarrow> bytes_of cod ms = [] \<Longrightarrow> ms = []"
  by (cases ms) (auto simp: line_ok_def)

text \<open>Whether the index is missing, has fallen behind the file, or is the one to use, what comes out is the
  index of the whole file.\<close>

lemma index_file_good:
  assumes ms: "list_all (line_ok cod) ms" "content f = bytes_of cod ms"
    and old: "\<And>p. previous = Some p \<Longrightarrow> \<exists>ys zs. ms = ys @ zs \<and> index_good cod f ys p"
  shows "\<exists>i. index_file cod previous f = Some i \<and> index_good cod f ms i"
proof -
  have fresh: "scanIndex cod 0 (scan_lines (content f)) [] = Some (index_of_messages cod 0 ms)"
    using ms by (simp add: scan_lines_bytes scanIndex_messages)
  have good: "index_good cod f ms \<lparr>info = stat f, entries = sort_entries (index_of_messages cod 0 ms)\<rparr>"
    using ms(2) by (simp add: index_good_def stat_def)
  show ?thesis
  proof (cases previous)
    case None
    with fresh good show ?thesis by (simp add: index_file_def)
  next
    case (Some p)
    from old[OF this] obtain ys zs where parts: "ms = ys @ zs" and p: "index_good cod f ys p" by blast
    have zs: "list_all (line_ok cod) ys" "list_all (line_ok cod) zs" using ms(1) parts by simp_all
    let ?n = "length (bytes_of cod ys)"
    consider "zs = []" | "zs \<noteq> []" by blast
    then show ?thesis
    proof cases
      case 1
      with p parts ms Some fresh good show ?thesis
        by (auto simp: index_file_def index_good_def stat_def Let_def)
    next
      case 2
      then have "bytes_of cod zs \<noteq> []" using bytes_empty[OF zs(2)] by blast
      then have longer: "?n < length (content f)" using ms(2) parts by simp
      have "drop ?n (content f) = bytes_of cod zs" using ms(2) parts by simp
      then have "scanIndex cod ?n (scan_lines (drop ?n (content f))) (entries p)
          = Some (sort_entries (index_of_messages cod 0 ys) @ index_of_messages cod ?n zs)"
        using zs p by (simp add: scan_lines_bytes scanIndex_messages index_good_def)
      moreover have "sort_entries (sort_entries (index_of_messages cod 0 ys) @ index_of_messages cod ?n zs)
          = sort_entries (index_of_messages cod 0 ms)"
        using sort_entries_again[of "index_of_messages cod 0 ys" "index_of_messages cod ?n zs"]
          index_start_inj[OF ms(1), of 0] parts by (simp add: index_of_append)
      ultimately show ?thesis
        using p longer Some good by (auto simp: index_file_def index_good_def stat_def Let_def)
    qed
  qed
qed

section \<open>The store as a machine\<close>

datatype store_event =
    Appended write_outcome time nat Message
  | Queried StoreQuery

text \<open>A message as it is stored.\<close>

definition kept :: "time \<Rightarrow> Message \<Rightarrow> Message" where
  "kept now m = (if IsZero (ReceivedAt m) then m\<lparr>ReceivedAt := now\<rparr> else m)"

text \<open>The store, and beside it the messages whose append succeeded, in the order they came.\<close>

fun store_step ::
  "(Message \<Rightarrow> string) \<Rightarrow> codec \<Rightarrow> text_library \<Rightarrow> store_event \<Rightarrow> FileStore \<times> Message list
   \<Rightarrow> FileStore \<times> Message list" where
  "store_step pathFor cod lib (Appended out now i m) (st, ms) =
     (let (st', err) = Append pathFor cod out now i m st
      in (st', if err = None then ms @ [kept now m] else ms))"
| "store_step pathFor cod lib (Queried q) (st, ms) = (fst (Query lib cod q st), ms)"

text \<open>What is assumed of the world: a write writes all or nothing, and the codec encodes the message as one
  line that reads back.\<close>

fun store_allowed ::
  "(Message \<Rightarrow> string) \<Rightarrow> codec \<Rightarrow> FileStore \<times> Message list \<Rightarrow> store_event \<Rightarrow> bool" where
  "store_allowed pathFor cod s (Appended out now i m) =
     ((case out of Cut _ _ _ \<Rightarrow> False | _ \<Rightarrow> True)
      \<and> line_ok cod (kept now m) \<and> suffix ''.ndjson'' (pathFor (kept now m)))"
| "store_allowed pathFor cod s (Queried q) = True"

definition in_file :: "(Message \<Rightarrow> string) \<Rightarrow> string \<Rightarrow> Message list \<Rightarrow> Message list" where
  "in_file pathFor p ms = filter (\<lambda>m. pathFor m = p) ms"

definition store_inv :: "(Message \<Rightarrow> string) \<Rightarrow> codec \<Rightarrow> FileStore \<times> Message list \<Rightarrow> bool" where
  "store_inv pathFor cod s \<longleftrightarrow>
     (case s of (st, ms) \<Rightarrow>
        list_all (\<lambda>m. line_ok cod m \<and> suffix ''.ndjson'' (pathFor m)) ms
        \<and> distinct (map fst (disk st)) \<and> set (map fst (disk st)) = pathFor ` set ms
        \<and> (\<forall>p f. map_of (disk st) p = Some f \<longrightarrow> content f = bytes_of cod (in_file pathFor p ms))
        \<and> (\<forall>p i. map_of (indexes st) p = Some i \<longrightarrow>
             (\<exists>f ys zs. map_of (disk st) p = Some f \<and> in_file pathFor p ms = ys @ zs \<and> index_good cod f ys i)))"

lemma in_file_ok: "list_all P ms \<Longrightarrow> list_all P (in_file pathFor p ms)"
  by (simp add: in_file_def list_all_iff)

declare map_of_eq_Some_iff [simp del]

lemma store_facts:
  assumes "store_inv pathFor cod (st, ms)"
  shows "list_all (\<lambda>m. line_ok cod m \<and> suffix ''.ndjson'' (pathFor m)) ms"
    and "distinct (map fst (disk st))" "set (map fst (disk st)) = pathFor ` set ms"
    and "map_of (disk st) p = Some f \<Longrightarrow> content f = bytes_of cod (in_file pathFor p ms)"
    and "map_of (indexes st) p = Some i \<Longrightarrow>
      \<exists>f ys zs. map_of (disk st) p = Some f \<and> in_file pathFor p ms = ys @ zs \<and> index_good cod f ys i"
  using assms unfolding store_inv_def by simp_all

lemma store_invI:
  assumes "list_all (\<lambda>m. line_ok cod m \<and> suffix ''.ndjson'' (pathFor m)) ms"
    and "distinct (map fst (disk st))" "set (map fst (disk st)) = pathFor ` set ms"
    and "\<And>p f. map_of (disk st) p = Some f \<Longrightarrow> content f = bytes_of cod (in_file pathFor p ms)"
    and "\<And>p i. map_of (indexes st) p = Some i \<Longrightarrow>
      \<exists>f ys zs. map_of (disk st) p = Some f \<and> in_file pathFor p ms = ys @ zs \<and> index_good cod f ys i"
  shows "store_inv pathFor cod (st, ms)"
  using assms unfolding store_inv_def by simp

lemma index_files_good:
  assumes "store_inv pathFor cod (st, ms)" "set paths \<subseteq> set (map fst (disk st))"
  shows "\<exists>is. index_files cod st paths = Some is
    \<and> list_all2 (\<lambda>p (p', i). p' = p \<and> (\<exists>f. map_of (disk st) p = Some f \<and> index_good cod f (in_file pathFor p ms) i))
        paths is"
  using assms(2)
proof (induction paths)
  case (Cons p paths)
  then obtain f where f: "map_of (disk st) p = Some f"
    by (cases "map_of (disk st) p") (auto simp: map_of_eq_None_iff)
  have lines: "list_all (line_ok cod) (in_file pathFor p ms)"
    using store_facts(1)[OF assms(1)] in_file_ok[of "line_ok cod" ms] by (simp add: list_all_iff)
  note bytes = store_facts(4)[OF assms(1) f]
  have old: "\<exists>ys zs. in_file pathFor p ms = ys @ zs \<and> index_good cod f ys i"
    if "map_of (indexes st) p = Some i" for i
    using store_facts(5)[OF assms(1) that] f by auto
  obtain i where "index_file cod (map_of (indexes st) p) f = Some i" "index_good cod f (in_file pathFor p ms) i"
    using index_file_good[OF lines bytes old] by blast
  moreover obtain "is" where "index_files cod st paths = Some is"
    "list_all2 (\<lambda>p (p', i). p' = p \<and> (\<exists>f. map_of (disk st) p = Some f \<and> index_good cod f (in_file pathFor p ms) i))
        paths is"
    using Cons by auto
  ultimately show ?case using f by (intro exI[of _ "(p, i) # is"]) simp
qed simp

lemma messageFiles_paths:
  assumes "store_inv pathFor cod (st, ms)"
  shows "messageFiles st = rev (sort (remdups (map pathFor ms)))" "set (messageFiles st) \<subseteq> set (map fst (disk st))"
proof -
  have "list_all (suffix ''.ndjson'') (map fst (disk st))"
    using assms unfolding store_inv_def list_all_iff by auto
  then have all: "filter (suffix ''.ndjson'') (map fst (disk st)) = map fst (disk st)"
    by (simp add: list_all_iff)
  have "sort (map fst (disk st)) = sort (remdups (map pathFor ms))"
    using assms sorted_list_of_set_sort_remdups[of "map fst (disk st)"] sorted_list_of_set_sort_remdups[of "map pathFor ms"]
    by (simp add: store_inv_def distinct_remdups_id)
  then show "messageFiles st = rev (sort (remdups (map pathFor ms)))"
    by (simp only: messageFiles_def all)
  show "set (messageFiles st) \<subseteq> set (map fst (disk st))"
    by (auto simp: messageFiles_def)
qed

lemma queryIndexes_good:
  assumes "store_inv pathFor cod (st, ms)"
  shows "\<exists>is. queryIndexes cod st = (st\<lparr>indexes := is\<rparr>, Some is) \<and> store_inv pathFor cod (st\<lparr>indexes := is\<rparr>, ms)
    \<and> list_all2 (\<lambda>p (p', i). p' = p \<and> (\<exists>f. map_of (disk st) p = Some f \<and> index_good cod f (in_file pathFor p ms) i))
        (rev (sort (remdups (map pathFor ms)))) is"
proof -
  obtain "is" where i: "index_files cod st (messageFiles st) = Some is"
    and good: "list_all2 (\<lambda>p (p', i). p' = p \<and> (\<exists>f. map_of (disk st) p = Some f \<and> index_good cod f (in_file pathFor p ms) i))
        (messageFiles st) is"
    using index_files_good[OF assms messageFiles_paths(2)[OF assms]] by blast
  have "\<exists>f. map_of (disk st) p = Some f \<and> index_good cod f (in_file pathFor p ms) j" if "(p, j) \<in> set is" for p j
    using good that by (auto simp: list_all2_conv_all_nth in_set_conv_nth)
  then have "\<exists>f ys zs. map_of (disk st) p = Some f \<and> in_file pathFor p ms = ys @ zs \<and> index_good cod f ys j"
    if "map_of is p = Some j" for p j
    using map_of_SomeD[OF that] by (metis append_Nil2)
  then have "store_inv pathFor cod (st\<lparr>indexes := is\<rparr>, ms)"
    using store_facts[OF assms] by (intro store_invI) simp_all
  with i good messageFiles_paths(1)[OF assms] show ?thesis by (auto simp: queryIndexes_def)
qed

lemma query_inv:
  assumes "store_inv pathFor cod (st, ms)"
  shows "store_inv pathFor cod (fst (Query lib cod q st), ms)"
  using queryIndexes_good[OF assms] assms by (auto simp: Query_def Let_def split: option.split)

lemma append_inv:
  assumes inv: "store_inv pathFor cod (st, ms)" and out: "out = Written t" "ID m \<noteq> []"
    and m: "line_ok cod (kept now m)" "suffix ''.ndjson'' (pathFor (kept now m))"
  shows "store_inv pathFor cod (fst (Append pathFor cod out now i m st), ms @ [kept now m])"
proof -
  let ?m = "kept now m" and ?p = "pathFor (kept now m)"
  define old where "old = (case map_of (disk st) ?p of
      None \<Rightarrow> \<lparr>file_id = i, content = [], file_time = 0\<rparr> | Some f \<Rightarrow> f)"
  have st: "fst (Append pathFor cod out now i m st) =
      st\<lparr>disk := AList.update ?p (old\<lparr>content := content old @ encode cod ?m, file_time := t\<rparr>) (disk st)\<rparr>"
    using out by (simp add: Append_def kept_def old_def Let_def)
  have "content old = bytes_of cod (in_file pathFor ?p ms)"
  proof (cases "map_of (disk st) ?p")
    case None
    then have "?p \<notin> pathFor ` set ms"
      using inv unfolding store_inv_def by (auto simp: map_of_eq_None_iff)
    then have "in_file pathFor ?p ms = []"
      by (simp add: in_file_def filter_empty_conv) (metis imageI)
    with None show ?thesis by (simp add: old_def)
  qed (use inv in \<open>simp add: store_inv_def old_def\<close>)
  moreover have "file_id old = file_id f" if "map_of (disk st) ?p = Some f" for f
    using that by (simp add: old_def)
  note old = this calculation
  show ?thesis
    unfolding st
  proof (rule store_invI)
    fix p j
    assume "map_of (indexes (st\<lparr>disk := AList.update ?p (old\<lparr>content := content old @ encode cod ?m, file_time := t\<rparr>)
        (disk st)\<rparr>)) p = Some j"
    then obtain f ys zs where f: "map_of (disk st) p = Some f" "in_file pathFor p ms = ys @ zs" "index_good cod f ys j"
      using store_facts(5)[OF inv, of p j] by auto
    have parts: "in_file pathFor p (ms @ [?m]) = ys @ zs @ in_file pathFor p [?m]"
      using f(2) by (simp add: in_file_def)
    show "\<exists>f ys zs. map_of (disk (st\<lparr>disk := AList.update ?p (old\<lparr>content := content old @ encode cod ?m,
          file_time := t\<rparr>) (disk st)\<rparr>)) p = Some f
        \<and> in_file pathFor p (ms @ [?m]) = ys @ zs \<and> index_good cod f ys j"
      using f parts old(1) by (cases "p = ?p") (auto simp: update_conv' index_good_def)
  qed (use store_facts[OF inv] m old in
      \<open>auto simp: distinct_update update_conv' in_file_def dom_update simp flip: dom_map_of_conv_image_fst split: if_splits\<close>)
qed

lemma failed_append:
  assumes "snd (Append pathFor cod out now i m st) \<noteq> None" "\<And>n t err. out \<noteq> Cut n t err"
  shows "fst (Append pathFor cod out now i m st) = st"
  using assms by (cases out) (auto simp: Append_def Let_def split: if_splits)

lemma good_append:
  "snd (Append pathFor cod out now i m st) = None \<Longrightarrow> (\<exists>t. out = Written t) \<and> ID m \<noteq> []"
  by (cases out) (auto simp: Append_def Let_def split: if_splits)

lemma store_inv_step:
  assumes "store_inv pathFor cod s" "store_allowed pathFor cod s ev"
  shows "store_inv pathFor cod (store_step pathFor cod lib ev s)"
proof -
  obtain st ms where s: "s = (st, ms)" by (cases s)
  show ?thesis
  proof (cases ev)
    case (Appended out now i m)
    show ?thesis
    proof (cases "snd (Append pathFor cod out now i m st) = None")
      case True
      with good_append[OF True] append_inv[of pathFor cod st ms out _ m now i] assms s Appended
      show ?thesis by (auto split: prod.split)
    next
      case False
      moreover from assms(2) Appended have "out \<noteq> Cut n t err" for n t err by auto
      ultimately have "fst (Append pathFor cod out now i m st) = st" by (rule failed_append)
      with False assms(1) s Appended show ?thesis by (auto split: prod.split)
    qed
  qed (use assms s query_inv in auto)
qed

lemma store_inv_start: "store_inv pathFor cod (NewFileStore, [])"
  by (simp add: store_inv_def NewFileStore_def)

interpretation store_machine: invariant_machine "\<lambda>s. s = (NewFileStore, [])" "store_step pathFor cod lib"
  "store_allowed pathFor cod" "store_inv pathFor cod" for pathFor cod lib
  by unfold_locales (simp_all add: store_inv_step store_inv_start)

abbreviation store_reachable ::
  "(Message \<Rightarrow> string) \<Rightarrow> codec \<Rightarrow> text_library \<Rightarrow> FileStore \<times> Message list \<Rightarrow> bool" where
  "store_reachable pathFor cod lib \<equiv>
     reach (\<lambda>s. s = (NewFileStore, [])) (store_step pathFor cod lib) (store_allowed pathFor cod)"

section \<open>What a query returns\<close>

lemma dropWhile_latest:
  fixes f :: "'a \<Rightarrow> int"
  shows "sorted_wrt (\<lambda>x y. f y \<le> f x) xs \<Longrightarrow> dropWhile (\<lambda>x. t < f x) xs = filter (\<lambda>x. f x \<le> t) xs"
proof (induction xs)
  case (Cons x xs)
  have "filter (\<lambda>x. f x \<le> t) xs = xs" if "f x \<le> t"
    using Cons.prems that by (intro filter_True) fastforce
  with Cons show ?case by auto
qed simp

lemma takeWhile_latest:
  fixes f :: "'a \<Rightarrow> int"
  shows "sorted_wrt (\<lambda>x y. f y \<le> f x) xs \<Longrightarrow> takeWhile (\<lambda>x. t \<le> f x) xs = filter (\<lambda>x. t \<le> f x) xs"
proof (induction xs)
  case (Cons x xs)
  have "filter (\<lambda>x. t \<le> f x) xs = []" if "f x < t"
    using Cons.prems that by (intro filter_False) fastforce
  with Cons show ?case by auto
qed simp

lemma list_all2_filter_both:
  "list_all2 R xs ys \<Longrightarrow> (\<And>x y. R x y \<Longrightarrow> P x = Q y) \<Longrightarrow> list_all2 R (filter P xs) (filter Q ys)"
  by (induction xs ys rule: list_all2_induct) auto

lemma list_all2_concat: "list_all2 (list_all2 R) xss yss \<Longrightarrow> list_all2 R (concat xss) (concat yss)"
  by (induction xss yss rule: list_all2_induct) (auto intro: list_all2_appendI)

lemma sort_latest: "sorted_wrt (\<lambda>x y. f y \<le> f x) (sort_key (\<lambda>x. - f x :: int) xs)"
  using sorted_sort_key[of "\<lambda>x. - f x" xs] by (simp add: sorted_map)

definition before_until :: "time option \<Rightarrow> time \<Rightarrow> bool" where
  "before_until u t \<longleftrightarrow> (case u of None \<Rightarrow> True | Some v \<Rightarrow> t \<le> v)"

lemma from_until_filter:
  "sorted_wrt (\<lambda>x y. receivedAt y \<le> receivedAt x) es \<Longrightarrow>
   from_until u es = filter (\<lambda>e. before_until u (receivedAt e)) es"
  by (auto simp: from_until_def before_until_def dropWhile_latest split: option.split)

lemma index_reads:
  assumes "map_of (disk st) p = Some f" "content f = pre @ bytes_of cod ms @ post" "list_all (line_ok cod) ms"
  shows "list_all2 (\<lambda>e m. reads cod st (p, e) m) (index_of_messages cod (length pre) ms) ms"
  using assms(2,3)
proof (induction ms arbitrary: pre)
  case (Cons m ms)
  then have "list_all2 (\<lambda>e m. reads cod st (p, e) m) (index_of_messages cod (length (pre @ encode cod m)) ms) ms"
    by (intro Cons.IH) simp_all
  moreover have "reads cod st (p, \<lparr>receivedAt = ReceivedAt m, host = Hostname m, start = length pre,
      len = length (encode cod m)\<rparr>) m"
    using assms(1) Cons.prems by (auto simp: reads_def read_message_def line_ok_def)
  ultimately show ?case by simp
qed simp

lemma cursors_flat:
  "flat (cursors_from u n is) = concat (map (\<lambda>(p, i). map (Pair p) (from_until u (entries i))) is)"
  by (induction "is" arbitrary: n) (auto simp: flat_def Let_def)

lemma cursors_from_ok:
  assumes "\<forall>(p, i) \<in> set is. latest_first (entries i)"
  shows "cursors_ok (cursors_from u n is) \<and> (\<forall>c \<in> set (cursors_from u n is). n \<le> order c)"
  using assms
proof (induction "is" arbitrary: n)
  case (Cons x "is")
  obtain p i where x: "x = (p, i)" by (cases x)
  have "latest_first (from_until u (entries i))"
    using Cons.prems x from_until_filter[of "entries i" u]
    by (simp add: latest_first_def sorted_wrt_filter)
  with Cons.IH[of "Suc n"] Cons.prems show ?case
    by (auto simp: x Let_def cursors_ok_def Suc_le_eq)
qed (simp add: cursors_ok_def)

text \<open>All stored messages, latest first. Messages of one instant come in the reverse order of their files'
  paths, and within a file what was appended later comes first.\<close>

definition message_log :: "(Message \<Rightarrow> string) \<Rightarrow> Message list \<Rightarrow> Message list" where
  "message_log pathFor ms =
     sort_key (\<lambda>m. - ReceivedAt m)
       (concat (map (\<lambda>p. rev (in_file pathFor p ms)) (rev (sort (remdups (map pathFor ms))))))"

definition selects :: "(Message \<Rightarrow> bool) \<Rightarrow> StoreQuery \<Rightarrow> Message \<Rightarrow> bool" where
  "selects match q m \<longleftrightarrow>
     recent q m \<and> before_until (QUntil q) (ReceivedAt m)
     \<and> (selectedHosts (QHosts q) = [] \<or> Hostname m \<in> set (selectedHosts (QHosts q))) \<and> match m"

definition page_limit :: "StoreQuery \<Rightarrow> nat" where
  "page_limit q = nat (if QLimit q \<le> 0 then defaultQueryLimit else QLimit q)"

definition page_of :: "(Message \<Rightarrow> bool) \<Rightarrow> StoreQuery \<Rightarrow> Message list \<Rightarrow> Message list" where
  "page_of match q ms = take (page_limit q) (drop (nat (QOffset q)) (filter (selects match q) ms))"

lemma file_reads:
  assumes "store_inv pathFor cod (st, ms)" "map_of (disk st) p = Some f" "index_good cod f (in_file pathFor p ms) i"
  shows "latest_first (entries i)"
    and "list_all2 (reads cod st) (map (Pair p) (from_until u (entries i)))
      (sort_key (\<lambda>m. - ReceivedAt m) (filter (\<lambda>m. before_until u (ReceivedAt m)) (rev (in_file pathFor p ms))))"
proof -
  let ?ms = "in_file pathFor p ms" and ?R = "\<lambda>e m. reads cod st (p, e) m"
  have lines: "list_all (line_ok cod) ?ms"
    using store_facts(1)[OF assms(1)] in_file_ok[of "line_ok cod" ms] by (simp add: list_all_iff)
  have es: "entries i = sort_key (\<lambda>e. - receivedAt e) (rev (index_of_messages cod 0 ?ms))"
    using assms(3) sort_entries_reversed index_starts[OF lines] by (simp add: index_good_def)
  show ok: "latest_first (entries i)"
    unfolding latest_first_def es by (rule sort_latest)
  have "list_all2 ?R (index_of_messages cod 0 ?ms) ?ms"
    using index_reads[of st p f "[]" cod ?ms "[]"] store_facts(4)[OF assms(1,2)] assms(2) lines by simp
  then have "list_all2 ?R (entries i) (sort_key (\<lambda>m. - ReceivedAt m) (rev ?ms))"
    unfolding es by (intro list_all2_sort) (auto simp: reads_def)
  then have "list_all2 ?R (from_until u (entries i))
      (filter (\<lambda>m. before_until u (ReceivedAt m)) (sort_key (\<lambda>m. - ReceivedAt m) (rev ?ms)))"
    using ok unfolding latest_first_def
    by (subst from_until_filter) (assumption, erule list_all2_filter_both, simp add: reads_def)
  then show "list_all2 (reads cod st) (map (Pair p) (from_until u (entries i)))
      (sort_key (\<lambda>m. - ReceivedAt m) (filter (\<lambda>m. before_until u (ReceivedAt m)) (rev ?ms)))"
    by (simp add: list_all2_map1 filter_sort)
qed

lemma popped_reads:
  assumes inv: "store_inv pathFor cod (st, ms)"
    and files: "list_all2 (\<lambda>p (p', i). p' = p \<and> (\<exists>f. map_of (disk st) p = Some f \<and> index_good cod f (in_file pathFor p ms) i))
        (rev (sort (remdups (map pathFor ms)))) is"
  shows "\<forall>c \<in> set (cursors_from u 0 is). rest c \<noteq> []"
    and "list_all2 (reads cod st) (popped (cursors_from u 0 is))
      (filter (\<lambda>m. before_until u (ReceivedAt m)) (message_log pathFor ms))"
proof -
  let ?k = "\<lambda>m. - ReceivedAt m" and ?u = "\<lambda>m. before_until u (ReceivedAt m)"
    and ?paths = "rev (sort (remdups (map pathFor ms)))"
  have "\<forall>(p, i) \<in> set is. latest_first (entries i)"
    using files file_reads(1)[OF inv] by (fastforce simp: list_all2_conv_all_nth in_set_conv_nth)
  from cursors_from_ok[OF this] have ok: "cursors_ok (cursors_from u 0 is)" by blast
  then show "\<forall>c \<in> set (cursors_from u 0 is). rest c \<noteq> []" by (simp add: cursors_ok_def)
  have "list_all2 (\<lambda>p x. list_all2 (reads cod st) ((\<lambda>(p, i). map (Pair p) (from_until u (entries i))) x)
      (sort_key ?k (filter ?u (rev (in_file pathFor p ms))))) ?paths is"
    using files by (rule list_all2_mono) (auto intro: file_reads(2)[OF inv])
  then have "list_all2 (list_all2 (reads cod st)) (map (\<lambda>(p, i). map (Pair p) (from_until u (entries i))) is)
      (map (\<lambda>p. sort_key ?k (filter ?u (rev (in_file pathFor p ms)))) ?paths)"
    by (simp add: list_all2_conv_all_nth)
  from list_all2_concat[OF this] have "list_all2 (reads cod st) (flat (cursors_from u 0 is))
      (concat (map (\<lambda>p. sort_key ?k (filter ?u (rev (in_file pathFor p ms)))) ?paths))"
    by (simp add: cursors_flat)
  then have "list_all2 (reads cod st) (popped (cursors_from u 0 is))
      (sort_key ?k (concat (map (\<lambda>p. sort_key ?k (filter ?u (rev (in_file pathFor p ms)))) ?paths)))"
    unfolding popped_sort[OF ok] by (rule list_all2_sort) (auto simp: reads_def)
  also have "sort_key ?k (concat (map (\<lambda>p. sort_key ?k (filter ?u (rev (in_file pathFor p ms)))) ?paths))
      = filter ?u (message_log pathFor ms)"
    using sort_concat_sorted[of ?k "map (\<lambda>p. filter ?u (rev (in_file pathFor p ms))) ?paths"]
    by (simp add: message_log_def filter_sort filter_concat comp_def)
  finally show "list_all2 (reads cod st) (popped (cursors_from u 0 is)) (filter ?u (message_log pathFor ms))" .
qed

definition library_ok :: "text_library \<Rightarrow> bool" where
  "library_ok lib \<longleftrightarrow> (\<forall>s. toLower lib s = [] \<longleftrightarrow> s = [])"

lemma blank_matches_all:
  assumes "library_ok lib" "CompileTextFilter lib text = Some match" "toLower lib (go_trim text) = []"
  shows "match m"
proof -
  have "go_trim text = []" using assms by (simp add: library_ok_def)
  with assms(2,3) show ?thesis by (auto simp: CompileTextFilter_def Let_def)
qed

lemma query_answer:
  assumes "store_reachable pathFor cod lib (st, ms)" "library_ok lib"
    and "CompileTextFilter lib (QText q) = Some match"
  shows "snd (Query lib cod q st) = Inr (page_of match q (message_log pathFor ms))"
proof -
  let ?log = "message_log pathFor ms"
  have inv: "store_inv pathFor cod (st, ms)"
    using store_machine.reach_inv[OF assms(1)] .
  obtain "is" where is1: "queryIndexes cod st = (st\<lparr>indexes := is\<rparr>, Some is)"
    and inv': "store_inv pathFor cod (st\<lparr>indexes := is\<rparr>, ms)"
    and is2: "list_all2 (\<lambda>p (p', i). p' = p \<and> (\<exists>f. map_of (disk st) p = Some f \<and> index_good cod f (in_file pathFor p ms) i))
        (rev (sort (remdups (map pathFor ms)))) is"
    using queryIndexes_good[OF inv] by blast
  let ?st = "st\<lparr>indexes := is\<rparr>" and ?blank = "toLower lib (go_trim (QText q)) = []"
  have is3: "list_all2 (\<lambda>p (p', i). p' = p \<and> (\<exists>f. map_of (disk ?st) p = Some f \<and> index_good cod f (in_file pathFor p ms) i))
        (rev (sort (remdups (map pathFor ms)))) is"
    using is2 by simp
  note popped = popped_reads[OF inv' is3, of "QUntil q"]
  have "snd (Query lib cod q st) = query_loop cod ?st match ?blank (page_limit q) q (cursors_from (QUntil q) 0 is) 0 []"
    using assms(3) is1 by (simp add: Query_def page_limit_def Let_def)
  also have "\<dots> = Inr (take (page_limit q) (drop (nat (QOffset q))
      (filter (wanted match ?blank q) (takeWhile (recent q) (filter (\<lambda>m. before_until (QUntil q) (ReceivedAt m)) ?log)))))"
    unfolding query_loop_process[OF popped(1)] process_page[OF popped(2)] by simp
  also have "takeWhile (recent q) (filter (\<lambda>m. before_until (QUntil q) (ReceivedAt m)) ?log)
      = filter (recent q) (filter (\<lambda>m. before_until (QUntil q) (ReceivedAt m)) ?log)"
  proof (cases "QSince q")
    case None
    then show ?thesis by (simp add: recent_def[abs_def])
  next
    case (Some t)
    have "sorted_wrt (\<lambda>x y. ReceivedAt y \<le> ReceivedAt x) (filter (\<lambda>m. before_until (QUntil q) (ReceivedAt m)) ?log)"
      unfolding message_log_def by (intro sorted_wrt_filter sort_latest)
    from takeWhile_latest[OF this, of t] Some show ?thesis by (simp add: recent_def[abs_def])
  qed
  also have "filter (wanted match ?blank q) (filter (recent q) (filter (\<lambda>m. before_until (QUntil q) (ReceivedAt m)) ?log))
      = filter (selects match q) ?log"
    using blank_matches_all[OF assms(2,3)] by (auto simp: wanted_def selects_def intro!: filter_cong)
  finally show ?thesis by (simp add: page_of_def)
qed

text \<open>C3: The index changes nothing. After any messages were appended and any queries asked, a query returns
  exactly the page that a plain scan would: of all stored messages, latest first, those in the time
  window, on the chosen hosts and matching the filter, from the offset on, up to the limit. So index,
  incremental update, merge of the files and the skipping of whole entries never lose, repeat or
  reorder a message.\<close>

theorem query_is_a_plain_scan:
  assumes "store_reachable pathFor cod lib (st, ms)" "library_ok lib"
    and "CompileTextFilter lib (QText q) = Some match"
  shows "snd (Query lib cod q st) = Inr (page_of match q (message_log pathFor ms))"
  using assms by (rule query_answer)

text \<open>Three messages from two sources, the third appended after a query has indexed the files.\<close>

definition from_source :: "string \<Rightarrow> time \<Rightarrow> string \<Rightarrow> Message" where
  "from_source i t source =
     \<lparr>ID = i, ReceivedAt = t, Timestamp = None, Transport = ''udp'', Source = source, Priority = None,
      Facility = None, Severity = None, Hostname = source, AppName = [], ProcID = [], MsgID = [],
      Tag = [], Text = [], StructuredData = [], Raw = []\<rparr>"

definition sample_messages :: "Message list" where
  "sample_messages = [from_source ''a'' 5 ''x'', from_source ''b'' 7 ''y'', from_source ''c'' 6 ''x'']"

definition sample_codec :: codec where
  "sample_codec =
     \<lparr>encode = \<lambda>m. ID m @ [newline_byte],
      decode = map_of (map (\<lambda>m. (ID m @ [newline_byte], m)) sample_messages),
      decode_key = map_of (map (\<lambda>m. (ID m @ [newline_byte], (ReceivedAt m, Hostname m))) sample_messages)\<rparr>"

definition sample_library :: text_library where
  "sample_library = \<lparr>toLower = \<lambda>s. s, compile = \<lambda>_. None, json_text = \<lambda>_. ''null''\<rparr>"

definition sample_path :: "Message \<Rightarrow> string" where
  "sample_path m = Source m @ ''.ndjson''"

definition plain_query :: "int \<Rightarrow> int \<Rightarrow> StoreQuery" where
  "plain_query most off =
     \<lparr>QText = [], QHosts = [], QLimit = most, QOffset = off, QSince = None, QUntil = None\<rparr>"

definition sample_store :: "FileStore \<times> Message list" where
  "sample_store =
     run (store_step sample_path sample_codec sample_library)
       [Appended (Written 1) 9 1 (from_source ''a'' 5 ''x''), Appended (Written 2) 9 2 (from_source ''b'' 7 ''y''),
        Queried (plain_query 10 0), Appended (Written 3) 9 3 (from_source ''c'' 6 ''x'')]
       (NewFileStore, [])"

lemma sample_store_reachable: "store_reachable sample_path sample_codec sample_library sample_store"
  unfolding sample_store_def by (rule reach_run[OF reach.start]) (simp, code_simp)

theorem query_is_a_plain_scan_witness:
  "snd (Query sample_library sample_codec (plain_query 2 0) (fst sample_store))
     = Inr [from_source ''b'' 7 ''y'', from_source ''c'' 6 ''x'']"
proof -
  obtain st ms where s: "sample_store = (st, ms)" by (cases sample_store)
  have m: "CompileTextFilter sample_library (QText (plain_query 2 0)) = Some (\<lambda>m. True)"
    by (simp add: CompileTextFilter_def sample_library_def plain_query_def)
  have "page_of (\<lambda>m. True) (plain_query 2 0) (message_log sample_path (snd sample_store))
      = [from_source ''b'' 7 ''y'', from_source ''c'' 6 ''x'']"
    by code_simp
  moreover have "library_ok sample_library" by (simp add: library_ok_def sample_library_def)
  ultimately show ?thesis
    using query_is_a_plain_scan[OF sample_store_reachable[unfolded s] _ m] by (simp add: s)
qed

end
