(* ===== verification/Api_Properties.thy ===== *)
theory Api_Properties
  imports Message_Api Store_Query Api_Client
begin

text \<open>
  The page's request for messages (\<open>frontend/src/api.ts\<close>) read and answered by
  \<open>internal/api/router.go\<close> over \<open>internal/storage\<close>.
\<close>

section \<open>The query of an address\<close>

text \<open>What \<open>r.URL.Query()\<close> gives a handler: what follows the first question mark, parsed.\<close>

definition query_of :: "string \<Rightarrow> params" where
  "query_of address = (case dropWhile (\<lambda>c. c \<noteq> CHR ''?'') address of [] \<Rightarrow> [] | _ # text \<Rightarrow> parse_query text)"

lemma query_of_path: "CHR ''?'' \<notin> set path \<Longrightarrow> query_of (path @ ''?'' @ text) = parse_query text"
  by (subgoal_tac "dropWhile (\<lambda>c. c \<noteq> CHR ''?'') path = []") (auto simp: query_of_def dropWhile_append)

section \<open>A page of messages, from the browser to the disk\<close>

lemma clean_values_set: "set (clean_values sn vs) = {v. v \<noteq> [] \<and> v \<in> go_trim ` set vs} - set sn"
  by (induction sn vs rule: clean_values.induct) (auto simp: Let_def)

lemma selected_clean: "set (selectedHosts (cleanQueryValues vs)) = {v. v \<noteq> [] \<and> v \<in> go_trim ` set vs}"
  by (auto simp: selectedHosts_def cleanQueryValues_def clean_values_set image_iff)

text \<open>The hosts a page request selects.\<close>

definition asked_hosts :: "ListMessagesParams \<Rightarrow> string set" where
  "asked_hosts p = {h. h \<noteq> [] \<and> (\<exists>x \<in> set (hosts p). h = go_trim (js_trim x))}"

definition asked_rows :: "(Message \<Rightarrow> bool) \<Rightarrow> ListMessagesParams \<Rightarrow> Message list \<Rightarrow> Message list" where
  "asked_rows match p = filter (\<lambda>m. (asked_hosts p = {} \<or> Hostname m \<in> asked_hosts p) \<and> match m)"

lemma asked_hosts_selected:
  "set (selectedHosts (cleanQueryValues (filter (\<lambda>h. h \<noteq> []) (map js_trim (hosts p))))) = asked_hosts p"
proof -
  have "go_trim h = [] " if "h = []" for h :: string using that by simp
  then show ?thesis
    unfolding selected_clean asked_hosts_def by (auto simp: image_iff)
qed

text \<open>What the server finds in the page's request.\<close>

lemma asked_values:
  "values_get (listMessages_query p) ''limit'' = dec (limit p)"
  "values_get (listMessages_query p) ''offset'' = dec (offset p)"
  "values_get (listMessages_query p) ''q'' = js_trim (query p)"
  "values_get (listMessages_query p) ''since'' = []" "values_get (listMessages_query p) ''until'' = []"
  "values_all (listMessages_query p) ''host'' = filter (\<lambda>h. h \<noteq> []) (map js_trim (hosts p))"
  by (simp_all add: values_get_def values_all_def listMessages_query_form map_add_def filter_hosts o_def
      split: option.split)

text \<open>C9: The page gets what it asked for. The address it requests, read and answered by the server after any
  appends and queries, brings the rows of the filter and hosts in force from the offset on, at
  most as many as the limit, latest first, and says whether there are more.\<close>

theorem page_request_is_answered:
  assumes "store_reachable pathFor cod lib (st, ms)" "library_ok lib"
    and "CompileTextFilter lib (js_trim (query p)) = Some match"
    and "0 < limit p" "limit p \<le> maxMessageLimit" "0 \<le> offset p" "offset p < 2 ^ 63"
  defines "rows \<equiv> asked_rows match p (message_log pathFor ms)"
  shows "snd (handleMessages parse_time lib cod (query_of (url (listMessages_request p))) st) =
         Answer \<lparr>Data = take (nat (limit p)) (drop (nat (offset p)) rows),
                 Meta = \<lparr>Count = int (length (take (nat (limit p)) (drop (nat (offset p)) rows))),
                         MetaLimit = limit p, MetaOffset = offset p,
                         HasMore = (offset p + limit p < int (length rows))\<rparr>\<rparr>"
proof -
  define vs where "vs = listMessages_query p"
  note vs = asked_values[of p, folded vs_def]
  define q where "q = \<lparr>QText = js_trim (query p), QHosts = cleanQueryValues (filter (\<lambda>h. h \<noteq> []) (map js_trim (hosts p))),
      QLimit = limit p, QOffset = offset p, QSince = None, QUntil = None\<rparr>"
  have parsed: "parseMessagesQuery parse_time vs = Inr q"
    using assms(4-7) by (simp add: parseMessagesQuery_def vs parse_limit_def parse_offset_def parseOptionalTime_def
        q_def maxMessageLimit_def)
  define q' where "q' = q\<lparr>QLimit := QLimit q + 1\<rparr>"
  have q': "QText q' = js_trim (query p)" "page_limit q' = Suc (nat (limit p))" "QOffset q' = offset p"
    using assms(4) by (simp_all add: q'_def q_def page_limit_def nat_add_distrib)
  have sel: "selects match q' = (\<lambda>m. (asked_hosts p = {} \<or> Hostname m \<in> asked_hosts p) \<and> match m)"
    using asked_hosts_selected[of p]
    by (auto simp: selects_def q'_def q_def recent_def before_until_def)
  let ?page = "take (Suc (nat (limit p))) (drop (nat (offset p)) rows)"
  have "snd (Message_Store.Query lib cod q' st) = Inr ?page"
    using query_answer[OF assms(1,2), of q' match] assms(3)
    by (simp add: page_of_def rows_def asked_rows_def sel q')
  then obtain st' where answer: "Message_Store.Query lib cod (q\<lparr>QLimit := QLimit q + 1\<rparr>) st = (st', Inr ?page)"
    unfolding q'_def by (metis prod.collapse)
  have "q\<lparr>QLimit := QLimit q + 1\<rparr> = q\<lparr>QLimit := limit p + 1\<rparr>" by (simp add: q_def)
  note answer = answer[unfolded this]
  have fields: "QLimit q = limit p" "QOffset q = offset p" by (simp_all add: q_def)
  have more: "limit p < int (length ?page) \<longleftrightarrow> offset p + limit p < int (length rows)"
    using assms(4,6) by (auto simp: min_def)
  have page: "(if offset p + limit p < int (length rows) then take (nat (limit p)) ?page else ?page)
      = take (nat (limit p)) (drop (nat (offset p)) rows)"
    using assms(4) by (auto simp: min_def)
  have "snd (handleMessages parse_time lib cod vs st) =
         Answer \<lparr>Data = take (nat (limit p)) (drop (nat (offset p)) rows),
                 Meta = \<lparr>Count = int (length (take (nat (limit p)) (drop (nat (offset p)) rows))),
                         MetaLimit = limit p, MetaOffset = offset p,
                         HasMore = (offset p + limit p < int (length rows))\<rparr>\<rparr>"
    unfolding handleMessages_def parsed sum.case answer prod.case Let_def fields page more snd_conv ..
  moreover have "query_of (url (listMessages_request p)) = vs"
    using query_of_path[of "''/api/v1/messages''" "serialize vs"] by (simp add: listMessages_request_def vs_def)
  ultimately show ?thesis by simp
qed

definition sample_request :: ListMessagesParams where
  "sample_request = \<lparr>query = '' '', hosts = ['' x'', []], limit = 1, offset = 0\<rparr>"

lemma sample_asked: "asked_rows (\<lambda>m. True) sample_request (message_log sample_path (snd sample_store))
    = [from_source ''c'' 6 ''x'', from_source ''a'' 5 ''x'']"
proof -
  have hosts: "asked_hosts sample_request = {''x''}"
    unfolding asked_hosts_selected[symmetric] by code_simp
  have "message_log sample_path (snd sample_store)
      = [from_source ''b'' 7 ''y'', from_source ''c'' 6 ''x'', from_source ''a'' 5 ''x'']"
    by code_simp
  then show ?thesis by (simp add: asked_rows_def hosts from_source_def)
qed

theorem page_request_is_answered_witness:
  "snd (handleMessages (\<lambda>_. None) sample_library sample_codec (query_of (url (listMessages_request sample_request)))
          (fst sample_store)) =
         Answer \<lparr>Data = [from_source ''c'' 6 ''x''],
                 Meta = \<lparr>Count = 1, MetaLimit = 1, MetaOffset = 0, HasMore = True\<rparr>\<rparr>"
proof -
  obtain st ms where s: "sample_store = (st, ms)" by (cases sample_store)
  have "js_trim (query sample_request) = []" by code_simp
  then have m: "CompileTextFilter sample_library (js_trim (query sample_request)) = Some (\<lambda>m. True)"
    by (simp add: CompileTextFilter_def sample_library_def)
  have "library_ok sample_library" by (simp add: library_ok_def sample_library_def)
  then show ?thesis
    using page_request_is_answered[OF sample_store_reachable[unfolded s] _ m, of "\<lambda>_. None"] sample_asked
    by (simp add: s sample_request_def maxMessageLimit_def)
qed

end
