(* ===== verification/Engine_Invariants.thy ===== *)
theory Engine_Invariants
  imports Incident_Engine Machine
begin

text \<open>
  What the operations of the incident engine keep. The loop that advances the clock ends; every
  tracker that is not idle points to an incident in the matching state and every incident that
  is not resolved has such a tracker; an incident's times follow from one another; every
  notification job belongs to an incident that justifies it.
\<close>

section \<open>The next tracker that is due\<close>

lemma select_due_Some:
  "select_due cfg incs now ts sel = Some (k, c) \<Longrightarrow>
   (k, c) \<in> set ts \<and> pending c \<and> (\<forall>i. map_of incs (TrackedID c) = Some i \<longrightarrow> due_at c i \<le> now)
   \<or> (\<exists>t p. sel = Some (k, c, t, p))"
proof (induction ts arbitrary: sel)
  case (Cons x ts)
  obtain key current where x: "x = (key, current)" by (cases x)
  show ?case
    using Cons.prems Cons.IH
    by (fastforce simp: x pending_def Let_def split: if_splits option.splits prod.splits)
qed auto

lemma select_due_None:
  "select_due cfg incs now ts sel = None \<Longrightarrow>
   sel = None \<and> (\<forall>(k, c) \<in> set ts. pending c \<longrightarrow> (\<exists>i. map_of incs (TrackedID c) = Some i \<and> now < due_at c i))"
proof (induction ts arbitrary: sel)
  case (Cons x ts)
  obtain key current where x: "x = (key, current)" by (cases x)
  show ?case
    using Cons.prems
    by (auto simp: x pending_def Let_def split: if_splits option.splits prod.splits dest!: Cons.IH)
qed auto

lemma range_set: "range_ok ord \<Longrightarrow> set (over_trackers ord m) = set m"
  by (metis range_ok_def set_mset_mset)

lemma range_set_incidents: "range_ok ord \<Longrightarrow> set (over_incidents ord m) = set m"
  by (metis range_ok_def set_mset_mset)

lemma next_due_Some:
  "range_ok ord \<Longrightarrow> nextDueTrackerLocked cfg ord now s = Some (k, c) \<Longrightarrow>
   (k, c) \<in> set (Trackers s) \<and> pending c
   \<and> (\<forall>i. map_of (Incidents s) (TrackedID c) = Some i \<longrightarrow> due_at c i \<le> now)"
  unfolding nextDueTrackerLocked_def by (drule select_due_Some) (auto simp: range_set)

lemma next_due_None:
  "range_ok ord \<Longrightarrow> nextDueTrackerLocked cfg ord now s = None \<Longrightarrow>
   (k, c) \<in> set (Trackers s) \<Longrightarrow> pending c \<Longrightarrow>
   \<exists>i. map_of (Incidents s) (TrackedID c) = Some i \<and> now < due_at c i"
  unfolding nextDueTrackerLocked_def by (drule select_due_None) (auto simp: range_set)

section \<open>The loop ends\<close>

lemma add_job_frame [simp]:
  "Trackers (add_job j s) = Trackers s" "Incidents (add_job j s) = Incidents s"
  "Cursors (add_job j s) = Cursors s" "Version (add_job j s) = Version s"
  by (simp_all add: add_job_def split: option.split)

lemma enqueue_frame [simp]:
  "Trackers (enqueueLocked i k t s) = Trackers s" "Incidents (enqueueLocked i k t s) = Incidents s"
  "Trackers (enqueueFallbackEscalationLocked i p t s) = Trackers s"
  "Incidents (enqueueFallbackEscalationLocked i p t s) = Incidents s"
  by (simp_all add: enqueueLocked_def enqueueFallbackEscalationLocked_def)

lemma escalate_fold_frame:
  "Trackers (fold (\<lambda>(k, i) s. if P i then enqueueFallbackEscalationLocked (f i) p t s else s) xs s) = Trackers s
   \<and> Incidents (fold (\<lambda>(k, i) s. if P i then enqueueFallbackEscalationLocked (f i) p t s else s) xs s) = Incidents s"
  by (induction xs arbitrary: s) auto

lemma escalate_frame [simp]:
  "Trackers (escalateFallbacksLocked cfg ord h p t s) = Trackers s"
  "Incidents (escalateFallbacksLocked cfg ord h p t s) = Incidents s"
  unfolding escalateFallbacksLocked_def
  by (rule escalate_fold_frame[THEN conjunct1], rule escalate_fold_frame[THEN conjunct2])

lemma activate_frame [simp]:
  "Trackers (activate cfg ord key c i s) = AList.update key (c\<lparr>Phase := phaseActive\<rparr>) (Trackers s)"
  "Incidents (activate cfg ord key c i s) =
     AList.update (IncID i)
       (i\<lparr>IncState := StateActive, ActivatedAt := Some (PendingSince c + IncDownAfter i),
          IncNotify := TrackedNotify c\<rparr>) (Incidents s)"
  by (simp_all add: activate_def Let_def split: option.split)

lemma resolve_frame [simp]:
  "Trackers (resolve cfg key c i s) = AList.update key (healthy_tracker (LastEvidenceAt c)) (Trackers s)"
  "Incidents (resolve cfg key c i s) =
     AList.update (IncID i)
       (i\<lparr>IncState := StateResolved, ResolvedAt := Some (RecoverySince c + IncRecoveredAfter i)\<rparr>) (Incidents s)"
  by (simp_all add: resolve_def Let_def)

lemma filter_update_less:
  "map_of m k = Some c \<Longrightarrow> pending c \<Longrightarrow> \<not> pending c' \<Longrightarrow>
   length (filter (\<lambda>(k, c). pending c) (AList.update k c' m)) < length (filter (\<lambda>(k, c). pending c) m)"
  by (induction m) auto

lemma filter_delete_less:
  "map_of m k = Some c \<Longrightarrow> pending c \<Longrightarrow>
   length (filter (\<lambda>(k, c). pending c) (AList.delete k m)) < length (filter (\<lambda>(k, c). pending c) m)"
proof (induction m)
  case (Cons x m)
  have "length (filter (\<lambda>(k, c). pending c) (AList.delete k m)) \<le> length (filter (\<lambda>(k, c). pending c) m)"
    by (induction m) (auto simp: AList.delete_eq)
  with Cons show ?case by (cases x) (auto simp: AList.delete_eq split: if_splits)
qed simp

definition trackers_ok :: "Snapshot \<Rightarrow> bool" where
  "trackers_ok s \<longleftrightarrow> distinct (map fst (Trackers s))"

lemma advance_due_trackers_ok: "trackers_ok s \<Longrightarrow> trackers_ok (advance_due cfg ord k c s)"
  by (auto simp: trackers_ok_def advance_due_def distinct_update distinct_delete split: option.split)

lemma advance_round_trackers_ok: "trackers_ok s \<Longrightarrow> trackers_ok (advance_round cfg ord now s)"
  by (auto simp: advance_round_def advance_due_trackers_ok split: option.split)

lemma pending_count_less:
  assumes "range_ok ord" "trackers_ok s" "\<not> nothing_due cfg ord now s"
  shows "pending_count (advance_round cfg ord now s) < pending_count s"
proof -
  obtain k c where found: "nextDueTrackerLocked cfg ord now s = Some (k, c)"
    using assms(3) by (auto simp: nothing_due_def)
  from next_due_Some[OF assms(1) this] assms(2) have c: "map_of (Trackers s) k = Some c" "pending c"
    by (auto simp: trackers_ok_def)
  have "\<not> pending (c\<lparr>Phase := phaseActive\<rparr>)" "\<not> pending (healthy_tracker t)" for t
    by (simp_all add: pending_def healthy_tracker_def)
  then show ?thesis
    using c filter_update_less[OF c] filter_delete_less[OF c]
    by (auto simp: advance_round_def found advance_due_def pending_count_def split: option.split)
qed

interpretation clock_loop: quiet_loop "nothing_due cfg ord now" "advance_round cfg ord now" for cfg ord now
  by unfold_locales (simp add: nothing_due_def advance_round_def)

lemma advance_rounds_pow:
  "advance_rounds cfg ord now n s b =
     ((advance_round cfg ord now ^^ n) s, b \<or> 0 < n \<and> \<not> nothing_due cfg ord now s)"
proof (induction n arbitrary: s b)
  case (Suc n)
  show ?case
  proof (cases "nextDueTrackerLocked cfg ord now s")
    case None
    then have "nothing_due cfg ord now s" by (simp add: nothing_due_def)
    with None show ?thesis using clock_loop.idle_pow[of cfg ord now s "Suc n"] by simp
  next
    case (Some kc)
    obtain k c where kc: "kc = (k, c)" by (cases kc)
    have "advance_round cfg ord now s = advance_due cfg ord k c s" by (simp add: advance_round_def Some kc)
    with Some Suc.IH show ?thesis by (simp add: nothing_due_def kc funpow_swap1)
  qed
qed simp

lemma fst_advanceLocked: "fst (advanceLocked cfg ord now s) = (advance_round cfg ord now ^^ pending_count s) s"
  by (simp add: advanceLocked_def advance_rounds_pow)

lemma nothing_pending: "range_ok ord \<Longrightarrow> pending_count s = 0 \<Longrightarrow> nothing_due cfg ord now s"
  by (cases "nextDueTrackerLocked cfg ord now s")
    (auto simp: nothing_due_def pending_count_def filter_empty_conv dest: next_due_Some)

lemma snd_advanceLocked: "range_ok ord \<Longrightarrow> snd (advanceLocked cfg ord now s) \<longleftrightarrow> \<not> nothing_due cfg ord now s"
  using nothing_pending[of ord s cfg now] by (auto simp: advanceLocked_def advance_rounds_pow)

lemma not_advanced: "\<not> snd (advanceLocked cfg ord now s) \<Longrightarrow> fst (advanceLocked cfg ord now s) = s"
  using clock_loop.idle_pow[of cfg ord now s "pending_count s"]
  by (auto simp: advanceLocked_def advance_rounds_pow)

lemma rounds_suffice:
  assumes "range_ok ord"
  shows "trackers_ok s \<Longrightarrow> pending_count s \<le> n \<Longrightarrow> nothing_due cfg ord now ((advance_round cfg ord now ^^ n) s)"
proof (induction n arbitrary: s)
  case 0
  then show ?case by (simp add: nothing_pending[OF assms])
next
  case (Suc n)
  show ?case
  proof (cases "nothing_due cfg ord now s")
    case True
    then show ?thesis using clock_loop.idle_pow[OF True, of "Suc n"] by simp
  next
    case False
    have "pending_count (advance_round cfg ord now s) \<le> n"
      using pending_count_less[OF assms Suc.prems(1) False] Suc.prems(2) by simp
    from Suc.IH[OF advance_round_trackers_ok[OF Suc.prems(1)] this] show ?thesis
      by (simp add: funpow_swap1)
  qed
qed

lemma nothing_due_after:
  "range_ok ord \<Longrightarrow> trackers_ok s \<Longrightarrow> nothing_due cfg ord now (fst (advanceLocked cfg ord now s))"
  by (simp add: fst_advanceLocked rounds_suffice)

lemma advance_loop_advanceLocked:
  "range_ok ord \<Longrightarrow> trackers_ok s \<Longrightarrow> advance_loop cfg ord now s = Some (fst (advanceLocked cfg ord now s))"
  unfolding advance_loop_def fst_advanceLocked
  by (rule clock_loop.loop_result) (simp add: rounds_suffice)

lemma advance_inv:
  assumes "\<And>s. P s \<Longrightarrow> P (advance_round cfg ord now s)" "P s"
  shows "P (fst (advanceLocked cfg ord now s))"
proof -
  have "P ((advance_round cfg ord now ^^ n) s)" for n
    by (induction n) (simp_all add: assms)
  then show ?thesis by (simp add: fst_advanceLocked)
qed

section \<open>Trackers and incidents\<close>

definition busy :: "tracker \<Rightarrow> bool" where
  "busy c \<longleftrightarrow> Phase c = phasePendingFailure \<or> Phase c = phaseActive \<or> Phase c = phasePendingRecovery"

definition key_of :: "Incident \<Rightarrow> string" where
  "key_of i = IncHostname i @ [CHR 0x00] @ IncInterface i"

text \<open>The times of an incident in each of its states.\<close>

definition incident_ok :: "Incident \<Rightarrow> bool" where
  "incident_ok i \<longleftrightarrow>
     0 < IncDownAfter i \<and> 0 < IncRecoveredAfter i
     \<and> ActivatedAt i = (if IncState i = StatePendingFailure then None else Some (StartedAt i + IncDownAfter i))
     \<and> (case RecoveryFirstAt i of
          None \<Rightarrow> IncState i = StatePendingFailure \<or> IncState i = StateActive
        | Some r \<Rightarrow> StartedAt i \<le> r \<and> (IncState i = StatePendingRecovery \<or> IncState i = StateResolved))
     \<and> ResolvedAt i =
         (if IncState i = StateResolved then map_option (\<lambda>r. r + IncRecoveredAfter i) (RecoveryFirstAt i) else None)"

definition tracked :: "tracker \<Rightarrow> Incident \<Rightarrow> bool" where
  "tracked c i \<longleftrightarrow>
     (Phase c = phasePendingFailure \<longrightarrow>
        IncState i = StatePendingFailure \<and> PendingSince c = StartedAt i \<and> TrackedNotify c = IncNotify i)
     \<and> (Phase c = phaseActive \<longrightarrow> IncState i = StateActive)
     \<and> (Phase c = phasePendingRecovery \<longrightarrow>
          IncState i = StatePendingRecovery \<and> RecoveryFirstAt i = Some (RecoverySince c))
     \<and> StartedAt i \<le> LastEvidenceAt c \<and> LastEvidenceAt c \<noteq> 0"

text \<open>Over the maps: \<open>T\<close> of trackers and \<open>I\<close> of incidents.\<close>

definition linked :: "(string \<rightharpoonup> tracker) \<Rightarrow> (string \<rightharpoonup> Incident) \<Rightarrow> bool" where
  "linked T I \<longleftrightarrow>
     (\<forall>n i. I n = Some i \<longrightarrow> IncID i = n \<and> incident_ok i)
     \<and> (\<forall>k c. T k = Some c \<longrightarrow> busy c \<longrightarrow> (\<exists>i. I (TrackedID c) = Some i \<and> key_of i = k \<and> tracked c i))
     \<and> (\<forall>n i. I n = Some i \<longrightarrow> IncState i \<noteq> StateResolved \<longrightarrow>
          (\<exists>c. T (key_of i) = Some c \<and> busy c \<and> TrackedID c = n))"

lemma linked_id: "linked T I \<Longrightarrow> I n = Some i \<Longrightarrow> IncID i = n \<and> incident_ok i"
  by (simp add: linked_def)

lemma linked_busy:
  "linked T I \<Longrightarrow> T k = Some c \<Longrightarrow> busy c \<Longrightarrow> \<exists>i. I (TrackedID c) = Some i \<and> key_of i = k \<and> tracked c i"
  by (simp add: linked_def)

lemma linked_open:
  "linked T I \<Longrightarrow> I n = Some i \<Longrightarrow> IncState i \<noteq> StateResolved \<Longrightarrow>
   \<exists>c. T (key_of i) = Some c \<and> busy c \<and> TrackedID c = n"
  by (simp add: linked_def)

text \<open>One tracker and its incident are rewritten.\<close>

lemma linked_replace:
  assumes "linked T I" "IncID i = n" "incident_ok i" "key_of i = k"
    and new: "busy c \<Longrightarrow> TrackedID c = n \<and> tracked c i" "IncState i \<noteq> StateResolved \<Longrightarrow> busy c"
    and old: "\<And>i0. I n = Some i0 \<Longrightarrow> key_of i0 = k"
      "\<And>c0. T k = Some c0 \<Longrightarrow> busy c0 \<Longrightarrow> TrackedID c0 = n"
  shows "linked (T(k \<mapsto> c)) (I(n \<mapsto> i))"
proof -
  have "(\<exists>i'. (I(n \<mapsto> i)) (TrackedID c') = Some i' \<and> key_of i' = k' \<and> tracked c' i')"
    if "(T(k \<mapsto> c)) k' = Some c'" "busy c'" for k' c'
  proof (cases "k' = k")
    case True
    with that new assms show ?thesis by auto
  next
    case False
    with that have "T k' = Some c'" "busy c'" by auto
    from linked_busy[OF assms(1) this] obtain i' where "I (TrackedID c') = Some i'" "key_of i' = k'" "tracked c' i'"
      by auto
    with False old(1) show ?thesis by (cases "TrackedID c' = n") auto
  qed
  moreover have "(\<exists>c'. (T(k \<mapsto> c)) (key_of i') = Some c' \<and> busy c' \<and> TrackedID c' = n')"
    if "(I(n \<mapsto> i)) n' = Some i'" "IncState i' \<noteq> StateResolved" for n' i'
  proof (cases "n' = n")
    case True
    with that new assms show ?thesis by auto
  next
    case False
    with that have "I n' = Some i'" "IncState i' \<noteq> StateResolved" by auto
    from linked_open[OF assms(1) this] obtain c' where "T (key_of i') = Some c'" "busy c'" "TrackedID c' = n'"
      by auto
    with False old(2) show ?thesis by (cases "key_of i' = k") auto
  qed
  ultimately show ?thesis
    using assms linked_id[OF assms(1)] by (auto simp: linked_def)
qed

text \<open>A tracker is rewritten and its incident, if it has one, stays.\<close>

lemma linked_tracker:
  assumes "linked T I" "\<And>i. busy c \<Longrightarrow> I (TrackedID c) = Some i \<Longrightarrow> tracked c i"
    and "busy c \<Longrightarrow> \<exists>c0. T k = Some c0 \<and> busy c0 \<and> TrackedID c0 = TrackedID c"
    and "\<And>c0. T k = Some c0 \<Longrightarrow> busy c0 \<Longrightarrow> busy c \<and> TrackedID c0 = TrackedID c"
  shows "linked (T(k \<mapsto> c)) I"
proof -
  have "\<exists>i. I (TrackedID c') = Some i \<and> key_of i = k' \<and> tracked c' i"
    if "(T(k \<mapsto> c)) k' = Some c'" "busy c'" for k' c'
    using that assms(2,3) linked_busy[OF assms(1)] by (cases "k' = k") fastforce+
  moreover have "\<exists>c'. (T(k \<mapsto> c)) (key_of i') = Some c' \<and> busy c' \<and> TrackedID c' = n'"
    if "I n' = Some i'" "IncState i' \<noteq> StateResolved" for n' i'
    using that assms(4) linked_open[OF assms(1)] by (cases "key_of i' = k") fastforce+
  ultimately show ?thesis
    using assms(1) by (auto simp: linked_def)
qed

text \<open>A tracker is put to rest and its incident removed.\<close>

lemma linked_remove:
  assumes "linked T I" "T k = Some c0" "busy c0" "\<not> busy c"
  shows "linked (T(k \<mapsto> c)) (I(TrackedID c0 := None))"
proof -
  obtain i0 where i0: "I (TrackedID c0) = Some i0" "key_of i0 = k"
    using linked_busy[OF assms(1-3)] by auto
  have "\<exists>i. (I(TrackedID c0 := None)) (TrackedID c') = Some i \<and> key_of i = k' \<and> tracked c' i"
    if "(T(k \<mapsto> c)) k' = Some c'" "busy c'" for k' c'
    using that assms(4) i0 linked_busy[OF assms(1), of k' c'] by (cases "k' = k") auto
  moreover have "\<exists>c'. (T(k \<mapsto> c)) (key_of i') = Some c' \<and> busy c' \<and> TrackedID c' = n'"
    if "(I(TrackedID c0 := None)) n' = Some i'" "IncState i' \<noteq> StateResolved" for n' i'
    using that assms(2) linked_open[OF assms(1), of n' i'] by (auto split: if_splits)
  ultimately show ?thesis
    using linked_id[OF assms(1)] by (auto simp: linked_def split: if_splits)
qed

section \<open>Jobs\<close>

text \<open>Why a job may exist: its incident was confirmed and wants notifications, its kind fits the
  incident's interface and state, it was created when that state was reached, and its name says
  which incident and kind (and, for an escalation, which outage of the primary) it is for.\<close>

definition job_ok :: "Config \<Rightarrow> (string \<rightharpoonup> Incident) \<Rightarrow> NotificationJob \<Rightarrow> bool" where
  "job_ok cfg I j \<longleftrightarrow>
     (\<exists>i. I (JobIncidentID j) = Some i \<and> ActivatedAt i \<noteq> None \<and> IncNotify i
        \<and> (JobKind j \<in> {NotificationOpened, NotificationResolved} \<longleftrightarrow> IncInterface i = Interface cfg)
        \<and> (JobKind j \<in> {NotificationOpened, NotificationFallbackOpened} \<longrightarrow> ActivatedAt i = Some (CreatedAt j))
        \<and> (JobKind j \<in> {NotificationResolved, NotificationFallbackResolved} \<longrightarrow> ResolvedAt i = Some (CreatedAt j))
        \<and> (if JobKind j = NotificationFallbackEscalated
           then \<exists>n p. I n = Some p \<and> IncHostname p = IncHostname i \<and> IncInterface p = Interface cfg
                  \<and> ActivatedAt p \<noteq> None
                  \<and> JobID j = JobIncidentID j @ '':'' @ kind_text NotificationFallbackEscalated @ '':'' @ n
           else JobID j = JobIncidentID j @ '':'' @ kind_text (JobKind j)))"

definition jobs_ok :: "Config \<Rightarrow> (string \<rightharpoonup> Incident) \<Rightarrow> (string \<rightharpoonup> NotificationJob) \<Rightarrow> bool" where
  "jobs_ok cfg I J \<longleftrightarrow> (\<forall>n j. J n = Some j \<longrightarrow> JobID j = n \<and> job_ok cfg I j)"

text \<open>Nothing a job rests on is taken back.\<close>

definition extends :: "(string \<rightharpoonup> Incident) \<Rightarrow> (string \<rightharpoonup> Incident) \<Rightarrow> bool" where
  "extends I I' \<longleftrightarrow>
     (\<forall>n i. I n = Some i \<longrightarrow> ActivatedAt i \<noteq> None \<longrightarrow>
        (\<exists>i'. I' n = Some i' \<and> ActivatedAt i' = ActivatedAt i \<and> IncHostname i' = IncHostname i
            \<and> IncInterface i' = IncInterface i \<and> (IncNotify i \<longrightarrow> IncNotify i')
            \<and> (ResolvedAt i \<noteq> None \<longrightarrow> ResolvedAt i' = ResolvedAt i)))"

lemma extends_update:
  assumes "\<And>i0. I n = Some i0 \<Longrightarrow> ActivatedAt i0 \<noteq> None \<Longrightarrow>
     ActivatedAt i = ActivatedAt i0 \<and> IncHostname i = IncHostname i0 \<and> IncInterface i = IncInterface i0
     \<and> (IncNotify i0 \<longrightarrow> IncNotify i) \<and> (ResolvedAt i0 \<noteq> None \<longrightarrow> ResolvedAt i = ResolvedAt i0)"
  shows "extends I (I(n \<mapsto> i))"
  using assms by (auto simp: extends_def)

lemma job_ok_extends:
  assumes "job_ok cfg I j" "extends I I'"
  shows "job_ok cfg I' j"
proof -
  obtain i where i: "I (JobIncidentID j) = Some i" "ActivatedAt i \<noteq> None" "IncNotify i"
    "JobKind j \<in> {NotificationOpened, NotificationResolved} \<longleftrightarrow> IncInterface i = Interface cfg"
    "JobKind j \<in> {NotificationOpened, NotificationFallbackOpened} \<longrightarrow> ActivatedAt i = Some (CreatedAt j)"
    "JobKind j \<in> {NotificationResolved, NotificationFallbackResolved} \<longrightarrow> ResolvedAt i = Some (CreatedAt j)"
    "if JobKind j = NotificationFallbackEscalated
     then \<exists>n p. I n = Some p \<and> IncHostname p = IncHostname i \<and> IncInterface p = Interface cfg
            \<and> ActivatedAt p \<noteq> None
            \<and> JobID j = JobIncidentID j @ '':'' @ kind_text NotificationFallbackEscalated @ '':'' @ n
     else JobID j = JobIncidentID j @ '':'' @ kind_text (JobKind j)"
    using assms(1) unfolding job_ok_def by blast
  obtain i' where i': "I' (JobIncidentID j) = Some i'" "ActivatedAt i' = ActivatedAt i"
    "IncHostname i' = IncHostname i" "IncInterface i' = IncInterface i" "IncNotify i'"
    "ResolvedAt i \<noteq> None \<longrightarrow> ResolvedAt i' = ResolvedAt i"
    using assms(2) i(1-3) unfolding extends_def by metis
  have "if JobKind j = NotificationFallbackEscalated
     then \<exists>n p. I' n = Some p \<and> IncHostname p = IncHostname i' \<and> IncInterface p = Interface cfg
            \<and> ActivatedAt p \<noteq> None
            \<and> JobID j = JobIncidentID j @ '':'' @ kind_text NotificationFallbackEscalated @ '':'' @ n
     else JobID j = JobIncidentID j @ '':'' @ kind_text (JobKind j)"
    using i(7) i'(3) assms(2) unfolding extends_def by (metis (no_types, lifting))
  then show ?thesis
    unfolding job_ok_def using i i' by (intro exI[of _ i']) auto
qed

lemma jobs_ok_extends: "jobs_ok cfg I J \<Longrightarrow> extends I I' \<Longrightarrow> jobs_ok cfg I' J"
  by (auto simp: jobs_ok_def intro: job_ok_extends)

section \<open>The invariant of the service\<close>

declare map_of_eq_Some_iff [simp del]

definition keyed :: "Snapshot \<Rightarrow> bool" where
  "keyed s \<longleftrightarrow> distinct (map fst (Trackers s)) \<and> distinct (map fst (Incidents s)) \<and> distinct (map fst (Jobs s))"

definition engine_inv :: "Config \<Rightarrow> Snapshot \<Rightarrow> bool" where
  "engine_inv cfg s \<longleftrightarrow>
     keyed s \<and> linked (map_of (Trackers s)) (map_of (Incidents s))
     \<and> jobs_ok cfg (map_of (Incidents s)) (map_of (Jobs s))"

lemma engine_inv_trackers_ok: "engine_inv cfg s \<Longrightarrow> trackers_ok s"
  by (simp add: engine_inv_def keyed_def trackers_ok_def)

lemma engine_inv_rewrite:
  assumes "engine_inv cfg s" "Trackers s' = AList.update k c (Trackers s)"
    and "Incidents s' = AList.update n i (Incidents s)" "Jobs s' = Jobs s"
    and "linked ((map_of (Trackers s))(k \<mapsto> c)) ((map_of (Incidents s))(n \<mapsto> i))"
    and "extends (map_of (Incidents s)) ((map_of (Incidents s))(n \<mapsto> i))"
  shows "engine_inv cfg s'"
  using assms jobs_ok_extends[OF _ assms(6)]
  by (simp add: engine_inv_def keyed_def update_conv' distinct_update)

lemma engine_inv_track:
  assumes "engine_inv cfg s" "Trackers s' = AList.update k c (Trackers s)"
    and "Incidents s' = Incidents s" "Jobs s' = Jobs s"
    and "linked ((map_of (Trackers s))(k \<mapsto> c)) (map_of (Incidents s))"
  shows "engine_inv cfg s'"
  using assms by (simp add: engine_inv_def keyed_def update_conv' distinct_update)

lemma add_job_inv:
  assumes "engine_inv cfg s" "job_ok cfg (map_of (Incidents s)) j"
  shows "engine_inv cfg (add_job j s)"
  using assms
  by (auto simp: add_job_def engine_inv_def keyed_def jobs_ok_def update_conv' distinct_update split: option.split)

lemma enqueue_inv:
  assumes "engine_inv cfg s" "map_of (Incidents s) n = Some i" "ActivatedAt i \<noteq> None" "IncNotify i"
    and "k \<noteq> NotificationFallbackEscalated"
    and "k \<in> {NotificationOpened, NotificationResolved} \<longleftrightarrow> IncInterface i = Interface cfg"
    and "k \<in> {NotificationOpened, NotificationFallbackOpened} \<longrightarrow> ActivatedAt i = Some t"
    and "k \<in> {NotificationResolved, NotificationFallbackResolved} \<longrightarrow> ResolvedAt i = Some t"
  shows "engine_inv cfg (enqueueLocked n k t s)"
  unfolding enqueueLocked_def
  by (rule add_job_inv[OF assms(1)])
    (use assms in \<open>auto simp: job_ok_def new_job_def intro!: exI[of _ i]\<close>)

lemma enqueue_escalation_inv:
  assumes "engine_inv cfg s" "map_of (Incidents s) n = Some i" "ActivatedAt i \<noteq> None" "IncNotify i"
    and "IncInterface i \<noteq> Interface cfg" "map_of (Incidents s) m = Some p" "ActivatedAt p \<noteq> None"
    and "IncHostname p = IncHostname i" "IncInterface p = Interface cfg"
  shows "engine_inv cfg (enqueueFallbackEscalationLocked n m t s)"
  unfolding enqueueFallbackEscalationLocked_def
  by (rule add_job_inv[OF assms(1)])
    (use assms in \<open>auto simp: job_ok_def new_job_def intro!: exI[of _ i] exI[of _ m]\<close>)

lemma keyed_incident:
  "engine_inv cfg s \<Longrightarrow> (n, i) \<in> set (Incidents s) \<Longrightarrow> map_of (Incidents s) n = Some i \<and> IncID i = n \<and> incident_ok i"
  using linked_id[of "map_of (Trackers s)" "map_of (Incidents s)" n i]
  by (auto simp: engine_inv_def keyed_def)

lemma escalate_fold_inv:
  assumes "\<forall>(n, i) \<in> set xs. map_of I n = Some i \<and> IncID i = n \<and> incident_ok i"
    and "map_of I m = Some p" "ActivatedAt p \<noteq> None" "IncHostname p = h" "IncInterface p = Interface cfg"
  shows "engine_inv cfg s \<Longrightarrow> Incidents s = I \<Longrightarrow>
    engine_inv cfg (fold (\<lambda>(k, i) s. if escalates cfg h i then enqueueFallbackEscalationLocked (IncID i) m t s else s) xs s)"
  using assms(1)
proof (induction xs arbitrary: s)
  case (Cons x xs)
  obtain n i where x: "x = (n, i)" by (cases x)
  have "engine_inv cfg (enqueueFallbackEscalationLocked (IncID i) m t s)" if "escalates cfg h i"
    using Cons.prems that assms(2-5)
    by (intro enqueue_escalation_inv[where i = i and p = p])
      (auto simp: x escalates_def incident_ok_def split: if_splits)
  with Cons show ?case by (auto simp: x)
qed simp

lemma activate_inv:
  assumes "range_ok ord" "engine_inv cfg s" "map_of (Trackers s) key = Some c"
    and "Phase c = phasePendingFailure" "map_of (Incidents s) (TrackedID c) = Some i"
  shows "engine_inv cfg (activate cfg ord key c i s)"
proof -
  let ?t = "PendingSince c + IncDownAfter i"
  define i' where "i' = i\<lparr>IncState := StateActive, ActivatedAt := Some ?t, IncNotify := TrackedNotify c\<rparr>"
  define s1 where "s1 = s\<lparr>Incidents := AList.update (IncID i) i' (Incidents s),
      Trackers := AList.update key (c\<lparr>Phase := phaseActive\<rparr>) (Trackers s)\<rparr>"
  have inv: "linked (map_of (Trackers s)) (map_of (Incidents s))"
    using assms(2) by (simp add: engine_inv_def)
  from linked_busy[OF inv assms(3)] assms(4,5) have i: "key_of i = key" "tracked c i"
    by (auto simp: busy_def)
  from linked_id[OF inv assms(5)] have n: "IncID i = TrackedID c" "incident_ok i" by auto
  have s1: "engine_inv cfg s1"
  proof (rule engine_inv_rewrite[OF assms(2)])
    show "linked ((map_of (Trackers s))(key \<mapsto> c\<lparr>Phase := phaseActive\<rparr>))
        ((map_of (Incidents s))(IncID i \<mapsto> i'))"
      using n i assms(3-5)
      by (intro linked_replace[OF inv])
        (auto simp: i'_def incident_ok_def key_of_def tracked_def busy_def split: option.splits)
    show "extends (map_of (Incidents s)) ((map_of (Incidents s))(IncID i \<mapsto> i'))"
      by (rule extends_update) (use n i assms(4,5) in \<open>auto simp: incident_ok_def tracked_def\<close>)
  qed (simp_all add: s1_def)
  have here: "map_of (Incidents s1) (IncID i) = Some i'"
    by (simp add: s1_def update_conv')
  define s2 where "s2 = (if \<not> IncNotify i' then s1
      else if IncInterface i' = Interface cfg then enqueueLocked (IncID i') NotificationOpened ?t s1
      else (case primaryDownAtLocked cfg ord (IncHostname i') ?t s1 of
              Some p \<Rightarrow> enqueueFallbackEscalationLocked (IncID i') (IncID p) ?t s1
            | None \<Rightarrow> enqueueLocked (IncID i') NotificationFallbackOpened ?t s1))"
  have s2: "engine_inv cfg s2 \<and> Incidents s2 = Incidents s1"
  proof (cases "IncNotify i' \<and> IncInterface i' \<noteq> Interface cfg")
    case True
    show ?thesis
    proof (cases "primaryDownAtLocked cfg ord (IncHostname i') ?t s1")
      case None
      with True s1 here show ?thesis
        by (auto simp: s2_def i'_def intro!: enqueue_inv[where i = i'])
    next
      case (Some p)
      then obtain m where "(m, p) \<in> set (Incidents s1)" "down_at cfg (IncHostname i') ?t p"
        using range_set_incidents[OF assms(1)]
        by (auto simp: primaryDownAtLocked_def find_Some_iff) (metis nth_mem)
      with keyed_incident[OF s1] True Some s1 here show ?thesis
        by (auto simp: s2_def i'_def down_at_def split: option.splits
            intro!: enqueue_escalation_inv[where i = i' and p = p])
    qed
  next
    case False
    with s1 here show ?thesis
      by (auto simp: s2_def i'_def intro!: enqueue_inv[where i = i'])
  qed
  have "activate cfg ord key c i s =
      (if IncInterface i' = Interface cfg then escalateFallbacksLocked cfg ord (IncHostname i') (IncID i') ?t s2 else s2)"
    by (simp add: activate_def s2_def s1_def i'_def Let_def cong: option.case_cong)
  moreover have "engine_inv cfg (escalateFallbacksLocked cfg ord (IncHostname i') (IncID i') ?t s2)"
    if "IncInterface i' = Interface cfg"
    unfolding escalateFallbacksLocked_def
    by (rule escalate_fold_inv[where I = "Incidents s2" and p = i'])
      (use s2 here that keyed_incident[of cfg s2] range_set_incidents[OF assms(1)] in \<open>auto simp: i'_def\<close>)
  ultimately show ?thesis using s2 by simp
qed

lemma add_job_trackers: "(add_job j s)\<lparr>Trackers := T\<rparr> = add_job j (s\<lparr>Trackers := T\<rparr>)"
  by (simp add: add_job_def split: option.split)

lemma resolve_inv:
  assumes "engine_inv cfg s" "map_of (Trackers s) key = Some c"
    and "Phase c = phasePendingRecovery" "map_of (Incidents s) (TrackedID c) = Some i"
  shows "engine_inv cfg (resolve cfg key c i s)"
proof -
  let ?t = "RecoverySince c + IncRecoveredAfter i"
  define i' where "i' = i\<lparr>IncState := StateResolved, ResolvedAt := Some ?t\<rparr>"
  define s1 where "s1 = s\<lparr>Incidents := AList.update (IncID i) i' (Incidents s),
      Trackers := AList.update key (healthy_tracker (LastEvidenceAt c)) (Trackers s)\<rparr>"
  have inv: "linked (map_of (Trackers s)) (map_of (Incidents s))"
    using assms(1) by (simp add: engine_inv_def)
  from linked_busy[OF inv assms(2)] assms(3,4) have i: "key_of i = key" "tracked c i"
    by (auto simp: busy_def)
  from linked_id[OF inv assms(4)] have n: "IncID i = TrackedID c" "incident_ok i" by auto
  have s1: "engine_inv cfg s1"
  proof (rule engine_inv_rewrite[OF assms(1)])
    show "linked ((map_of (Trackers s))(key \<mapsto> healthy_tracker (LastEvidenceAt c)))
        ((map_of (Incidents s))(IncID i \<mapsto> i'))"
      using n i assms(2-4)
      by (intro linked_replace[OF inv])
        (auto simp: i'_def incident_ok_def key_of_def tracked_def busy_def healthy_tracker_def)
    show "extends (map_of (Incidents s)) ((map_of (Incidents s))(IncID i \<mapsto> i'))"
      by (rule extends_update) (use n i assms(3,4) in \<open>auto simp: i'_def incident_ok_def tracked_def\<close>)
  qed (simp_all add: s1_def)
  have here: "map_of (Incidents s1) (IncID i) = Some i'"
    by (simp add: s1_def update_conv')
  have "ActivatedAt i' \<noteq> None"
    using n i assms(3) by (simp add: i'_def incident_ok_def tracked_def)
  have "resolve cfg key c i s =
      (if IncNotify i' then enqueueLocked (IncID i')
         (if IncInterface i' = Interface cfg then NotificationResolved else NotificationFallbackResolved) ?t s1
       else s1)"
    by (simp add: resolve_def s1_def i'_def Let_def enqueueLocked_def add_job_trackers)
  with s1 here \<open>ActivatedAt i' \<noteq> None\<close> show ?thesis
    by (auto simp: i'_def intro!: enqueue_inv[where i = i'])
qed

lemma advance_round_inv:
  assumes "range_ok ord" "engine_inv cfg s"
  shows "engine_inv cfg (advance_round cfg ord now s)"
proof (cases "nextDueTrackerLocked cfg ord now s")
  case None
  with assms show ?thesis by (simp add: advance_round_def)
next
  case (Some kc)
  then obtain k c where kc: "nextDueTrackerLocked cfg ord now s = Some (k, c)" by (cases kc) auto
  have linked: "linked (map_of (Trackers s)) (map_of (Incidents s))" and "keyed s"
    using assms(2) by (simp_all add: engine_inv_def)
  with next_due_Some[OF assms(1) kc] have c: "map_of (Trackers s) k = Some c" "pending c"
    by (auto simp: keyed_def)
  with linked_busy[OF linked c(1)] obtain i where i: "map_of (Incidents s) (TrackedID c) = Some i"
    by (auto simp: pending_def busy_def)
  show ?thesis
    using c i activate_inv[OF assms c(1) _ i] resolve_inv[OF assms(2) c(1) _ i]
    by (auto simp: advance_round_def kc advance_due_def pending_def)
qed

lemma advance_engine_inv:
  "range_ok ord \<Longrightarrow> engine_inv cfg s \<Longrightarrow> engine_inv cfg (fst (advanceLocked cfg ord now s))"
  by (rule advance_inv[where P = "engine_inv cfg"]) (simp_all add: advance_round_inv)

text \<open>Advancing the clock touches no tracker's last evidence, unless it deletes the tracker, and keeps
  every incident.\<close>

lemma advance_round_last:
  assumes "range_ok ord" "engine_inv cfg s"
  shows "map_option LastEvidenceAt (map_of (Trackers (advance_round cfg ord now s)) k) =
         map_option LastEvidenceAt (map_of (Trackers s) k)"
proof (cases "nextDueTrackerLocked cfg ord now s")
  case (Some kc)
  then obtain k' c where kc: "nextDueTrackerLocked cfg ord now s = Some (k', c)" by (cases kc) auto
  have linked: "linked (map_of (Trackers s)) (map_of (Incidents s))" and "keyed s"
    using assms(2) by (simp_all add: engine_inv_def)
  with next_due_Some[OF assms(1) kc] have c: "map_of (Trackers s) k' = Some c" "pending c"
    by (auto simp: keyed_def)
  with linked_busy[OF linked c(1)] obtain i where "map_of (Incidents s) (TrackedID c) = Some i"
    by (auto simp: pending_def busy_def)
  with c show ?thesis
    by (simp add: advance_round_def kc advance_due_def update_conv' healthy_tracker_def)
qed (simp add: advance_round_def)

lemma advance_last:
  assumes "range_ok ord" "engine_inv cfg s"
  shows "LastEvidenceAt (tracker_of (fst (advanceLocked cfg ord now s)) k) = LastEvidenceAt (tracker_of s k)"
proof -
  let ?P = "\<lambda>s'. engine_inv cfg s' \<and> map_option LastEvidenceAt (map_of (Trackers s') k) =
      map_option LastEvidenceAt (map_of (Trackers s) k)"
  have "?P (fst (advanceLocked cfg ord now s))"
    by (rule advance_inv[where P = ?P])
      (use assms in \<open>auto simp: advance_round_inv advance_round_last\<close>)
  then show ?thesis
    by (cases "map_of (Trackers s) k"; cases "map_of (Trackers (fst (advanceLocked cfg ord now s))) k")
      (auto simp: tracker_of_def)
qed

section \<open>Evidence\<close>

text \<open>A new incident gets a name no incident has: the digests of different outages differ, and
  the record that began an outage is not replayed after the outage ended.\<close>

definition fresh_name ::
  "(string \<Rightarrow> string \<Rightarrow> time \<Rightarrow> string \<Rightarrow> string) \<Rightarrow> Config \<Rightarrow> range_order \<Rightarrow> evidence \<Rightarrow> Snapshot \<Rightarrow> bool" where
  "fresh_name mk cfg ord e s \<longleftrightarrow>
     (let s' = fst (advanceLocked cfg ord (seen_at e) s)
      in observeOnly e \<or> online e \<or> busy (tracker_of s' (tracker_key e))
         \<or> map_of (Incidents s') (mk (hostname e) (iface e) (seen_at e) (messageID e)) = None)"

definition config_ok :: "Config \<Rightarrow> bool" where
  "config_ok cfg \<longleftrightarrow> 0 < DownAfter cfg \<and> 0 < RecoveredAfter cfg"

lemma tracked_later: "tracked c i \<Longrightarrow> LastEvidenceAt c \<le> t \<Longrightarrow> t \<noteq> 0 \<Longrightarrow> tracked (c\<lparr>LastEvidenceAt := t\<rparr>) i"
  by (auto simp: tracked_def)

text \<open>Rewriting the incident of a busy tracker together with the tracker.\<close>

lemma touch_inv:
  assumes inv: "engine_inv cfg s" and c: "map_of (Trackers s) k = Some c" "busy c"
    and c': "busy c'" "TrackedID c' = TrackedID c"
    and f: "\<And>i. tracked c i \<Longrightarrow> incident_ok i \<Longrightarrow> IncID (f i) = IncID i \<and> key_of (f i) = key_of i
        \<and> incident_ok (f i) \<and> tracked c' (f i) \<and> IncHostname (f i) = IncHostname i
        \<and> IncInterface (f i) = IncInterface i \<and> ActivatedAt (f i) = ActivatedAt i \<and> ResolvedAt (f i) = ResolvedAt i
        \<and> (IncNotify i \<longrightarrow> IncNotify (f i))"
  shows "engine_inv cfg ((touch c f s)\<lparr>Trackers := AList.update k c' (Trackers (touch c f s))\<rparr>)"
proof -
  have linked: "linked (map_of (Trackers s)) (map_of (Incidents s))"
    using inv by (simp add: engine_inv_def)
  from linked_busy[OF linked c] obtain i where i: "map_of (Incidents s) (TrackedID c) = Some i"
    "key_of i = k" "tracked c i"
    by auto
  from linked_id[OF linked i(1)] have n: "IncID i = TrackedID c" "incident_ok i" by auto
  note fi = f[OF i(3) n(2)]
  show ?thesis
  proof (rule engine_inv_rewrite[OF inv])
    show "linked ((map_of (Trackers s))(k \<mapsto> c')) ((map_of (Incidents s))(TrackedID c \<mapsto> f i))"
      by (rule linked_replace[OF linked]) (use fi n i c c' in auto)
    show "extends (map_of (Incidents s)) ((map_of (Incidents s))(TrackedID c \<mapsto> f i))"
      by (rule extends_update) (use fi i in auto)
  qed (use i n fi in \<open>simp_all add: touch_def\<close>)
qed

lemma touch_cong: "TrackedID c = TrackedID c' \<Longrightarrow> touch c f s = touch c' f s"
  by (simp add: touch_def)

lemma tracker_of_busy: "busy (tracker_of s k) \<Longrightarrow> map_of (Trackers s) k = Some (tracker_of s k)"
  by (cases "map_of (Trackers s) k") (auto simp: tracker_of_def zero_tracker_def busy_def)

lemma busy_tracked:
  assumes "engine_inv cfg s" "busy (tracker_of s k)"
  obtains i where "map_of (Incidents s) (TrackedID (tracker_of s k)) = Some i" "key_of i = k"
    "tracked (tracker_of s k) i"
  using assms linked_busy[of "map_of (Trackers s)" "map_of (Incidents s)" k "tracker_of s k"] tracker_of_busy
  by (auto simp: engine_inv_def)

lemma phase_cases:
  "\<not> busy c \<longleftrightarrow> Phase c = phaseNone \<or> Phase c = phaseHealthy"
  by (cases "Phase c") (auto simp: busy_def)

text \<open>An idle tracker may be rewritten at will, as long as it stays idle.\<close>

lemma idle_inv:
  assumes "engine_inv cfg s" "\<not> busy (tracker_of s k)" "\<not> busy c"
  shows "engine_inv cfg (s\<lparr>Trackers := AList.update k c (Trackers s)\<rparr>)"
proof (rule engine_inv_track[OF assms(1)])
  show "linked ((map_of (Trackers s))(k \<mapsto> c)) (map_of (Incidents s))"
    by (rule linked_tracker) (use assms in \<open>auto simp: engine_inv_def tracker_of_def\<close>)
qed simp_all

lemma start_inv:
  assumes inv: "engine_inv cfg s" and idle: "\<not> busy (tracker_of s k)"
    and i: "map_of (Incidents s) (IncID i) = None" "key_of i = k" "incident_ok i"
    and c: "busy c" "TrackedID c = IncID i" "tracked c i"
  shows "engine_inv cfg (s\<lparr>Incidents := AList.update (IncID i) i (Incidents s), Trackers := AList.update k c (Trackers s)\<rparr>)"
proof (rule engine_inv_rewrite[OF inv])
  show "linked ((map_of (Trackers s))(k \<mapsto> c)) ((map_of (Incidents s))(IncID i \<mapsto> i))"
    by (rule linked_replace) (use inv idle i c in \<open>auto simp: engine_inv_def tracker_of_def\<close>)
  show "extends (map_of (Incidents s)) ((map_of (Incidents s))(IncID i \<mapsto> i))"
    by (rule extends_update) (use i in auto)
qed simp_all

lemma remove_inv:
  assumes inv: "engine_inv cfg s" and c: "Phase (tracker_of s k) = phasePendingFailure" "\<not> busy c'"
  shows "engine_inv cfg (s\<lparr>Incidents := AList.delete (TrackedID (tracker_of s k)) (Incidents s),
                             Trackers := AList.update k c' (Trackers s)\<rparr>)"
proof -
  let ?c = "tracker_of s k"
  have busy: "busy ?c" using c by (simp add: busy_def)
  obtain i where i: "map_of (Incidents s) (TrackedID ?c) = Some i" "tracked ?c i"
    by (rule busy_tracked[OF inv busy])
  have linked: "linked (map_of (Trackers s)) (map_of (Incidents s))"
    using inv by (simp add: engine_inv_def)
  have "ActivatedAt i = None"
    using linked_id[OF linked i(1)] i(2) c(1) by (simp add: incident_ok_def tracked_def)
  then have "extends (map_of (Incidents s)) ((map_of (Incidents s))(TrackedID ?c := None))"
    using i by (auto simp: extends_def)
  then show ?thesis
    using inv linked_remove[OF linked tracker_of_busy[OF busy] busy c(2)] jobs_ok_extends
    by (auto simp: engine_inv_def keyed_def update_conv' delete_conv' distinct_update distinct_delete)
qed

lemmas evidence_defs = add_evidence_def key_of_def incident_ok_def tracked_def busy_def

lemma went_down_inv:
  assumes inv: "engine_inv cfg s" and cfg: "config_ok cfg"
    and e: "seen_at e \<noteq> 0" "LastEvidenceAt (tracker_of s k) = 0 \<or> LastEvidenceAt (tracker_of s k) \<le> seen_at e"
    and k: "k = tracker_key e"
    and fresh: "busy (tracker_of s k) \<or> map_of (Incidents s) (mk (hostname e) (iface e) (seen_at e) (messageID e)) = None"
    and result: "went_down mk cfg e eligible ((tracker_of s k)\<lparr>LastEvidenceAt := seen_at e\<rparr>) s = (c', s')"
  shows "engine_inv cfg (s'\<lparr>Trackers := AList.update k c' (Trackers s')\<rparr>)"
proof (cases "busy (tracker_of s k)")
  case False
  let ?i = "started mk cfg e eligible"
  have "s' = s\<lparr>Incidents := AList.update (IncID ?i) ?i (Incidents s)\<rparr>"
    "busy c'" "TrackedID c' = IncID ?i" "tracked c' ?i"
    using result False e(1)
    by (auto simp: went_down_def Let_def phase_cases started_def evidence_defs split: phase.splits)
  then show ?thesis
    using start_inv[OF inv False, of ?i c'] fresh False cfg
    by (simp add: started_def k tracker_key_def key_of_def incident_ok_def config_ok_def)
next
  case True
  let ?c = "tracker_of s k"
  obtain i where "tracked ?c i" by (rule busy_tracked[OF inv True])
  then have later: "LastEvidenceAt ?c \<le> seen_at e" using e(2) by (auto simp: tracked_def)
  have go: "engine_inv cfg (s'\<lparr>Trackers := AList.update k c' (Trackers s')\<rparr>)"
    if "s' = touch ?c f s" "busy c'" "TrackedID c' = TrackedID ?c"
      "\<And>i. tracked ?c i \<Longrightarrow> incident_ok i \<Longrightarrow> IncID (f i) = IncID i \<and> key_of (f i) = key_of i
        \<and> incident_ok (f i) \<and> tracked c' (f i) \<and> IncHostname (f i) = IncHostname i
        \<and> IncInterface (f i) = IncInterface i \<and> ActivatedAt (f i) = ActivatedAt i \<and> ResolvedAt (f i) = ResolvedAt i
        \<and> (IncNotify i \<longrightarrow> IncNotify (f i))" for f
    unfolding that(1) using touch_inv[OF inv tracker_of_busy[OF True] True that(2,3,4)] .
  consider "Phase ?c = phasePendingFailure" | "Phase ?c = phasePendingRecovery" | "Phase ?c = phaseActive"
    using True by (auto simp: busy_def)
  then show ?thesis
  proof cases
    case 1
    let ?n = "TrackedNotify ?c \<or> eligible"
    have r: "c' = ?c\<lparr>LastEvidenceAt := seen_at e, ReachabilityDown := (ReachabilityDown ?c \<or> reachability e), TrackedNotify := ?n\<rparr>"
      "s' = touch ?c (\<lambda>i. add_evidence e (i\<lparr>IncNotify := ?n\<rparr>)) s"
      using result 1 by (auto simp: went_down_def Let_def intro: touch_cong)
    show ?thesis
      by (rule go[OF r(2)]) (use 1 r(1) later e(1) in \<open>auto simp: evidence_defs split: option.splits\<close>)
  next
    case 2
    have r: "c' = ?c\<lparr>LastEvidenceAt := seen_at e, Phase := phaseActive, RecoverySince := 0,
          ReachabilityDown := (ReachabilityDown ?c \<or> reachability e)\<rparr>"
      "s' = touch ?c (\<lambda>i. add_evidence e (i\<lparr>IncState := StateActive, RecoveryFirstAt := None\<rparr>)) s"
      using result 2 by (auto simp: went_down_def Let_def intro: touch_cong)
    show ?thesis
      by (rule go[OF r(2)]) (use 2 r(1) later e(1) in \<open>auto simp: evidence_defs split: option.splits\<close>)
  next
    case 3
    have r: "c' = ?c\<lparr>LastEvidenceAt := seen_at e, ReachabilityDown := (ReachabilityDown ?c \<or> reachability e)\<rparr>"
      "s' = touch ?c (add_evidence e) s"
      using result 3 by (auto simp: went_down_def Let_def intro: touch_cong)
    show ?thesis
      by (rule go[OF r(2)]) (use 3 r(1) later e(1) in \<open>auto simp: evidence_defs split: option.splits\<close>)
  qed
qed

lemma came_up_inv:
  assumes inv: "engine_inv cfg s"
    and e: "seen_at e \<noteq> 0" "LastEvidenceAt (tracker_of s k) = 0 \<or> LastEvidenceAt (tracker_of s k) \<le> seen_at e"
    and result: "came_up e ((tracker_of s k)\<lparr>LastEvidenceAt := seen_at e\<rparr>) s = (c', s')"
  shows "engine_inv cfg (s'\<lparr>Trackers := AList.update k c' (Trackers s')\<rparr>)"
proof (cases "busy (tracker_of s k)")
  case False
  then have "s' = s" "\<not> busy c'"
    using result by (auto simp: came_up_def phase_cases healthy_tracker_def split: phase.splits)
  then show ?thesis using idle_inv[OF inv False] by simp
next
  case True
  let ?c = "tracker_of s k"
  obtain i where "tracked ?c i" by (rule busy_tracked[OF inv True])
  then have later: "LastEvidenceAt ?c \<le> seen_at e" using e(2) by (auto simp: tracked_def)
  have go: "engine_inv cfg (s'\<lparr>Trackers := AList.update k c' (Trackers s')\<rparr>)"
    if "s' = touch ?c f s" "busy c'" "TrackedID c' = TrackedID ?c"
      "\<And>i. tracked ?c i \<Longrightarrow> incident_ok i \<Longrightarrow> IncID (f i) = IncID i \<and> key_of (f i) = key_of i
        \<and> incident_ok (f i) \<and> tracked c' (f i) \<and> IncHostname (f i) = IncHostname i
        \<and> IncInterface (f i) = IncInterface i \<and> ActivatedAt (f i) = ActivatedAt i \<and> ResolvedAt (f i) = ResolvedAt i
        \<and> (IncNotify i \<longrightarrow> IncNotify (f i))" for f
    unfolding that(1) using touch_inv[OF inv tracker_of_busy[OF True] True that(2,3,4)] .
  consider "Phase ?c = phasePendingFailure" | "Phase ?c = phasePendingRecovery" | "Phase ?c = phaseActive"
    using True by (auto simp: busy_def)
  then show ?thesis
  proof cases
    case 1
    with result have "c' = healthy_tracker (seen_at e)"
      "s' = s\<lparr>Incidents := AList.delete (TrackedID ?c) (Incidents s)\<rparr>"
      by (auto simp: came_up_def)
    then show ?thesis
      using remove_inv[OF inv 1, of c'] by (simp add: busy_def healthy_tracker_def)
  next
    case 2
    have r: "c' = ?c\<lparr>LastEvidenceAt := seen_at e\<rparr>" "s' = touch ?c (add_evidence e) s"
      using result 2 by (auto simp: came_up_def intro: touch_cong)
    show ?thesis
      by (rule go[OF r(2)]) (use 2 r(1) later e(1) in \<open>auto simp: evidence_defs split: option.splits\<close>)
  next
    case 3
    have r: "c' = ?c\<lparr>LastEvidenceAt := seen_at e, Phase := phasePendingRecovery, RecoverySince := seen_at e\<rparr>"
      "s' = touch ?c (\<lambda>i. add_evidence e (i\<lparr>IncState := StatePendingRecovery, RecoveryFirstAt := Some (seen_at e)\<rparr>)) s"
      using result 3 by (auto simp: came_up_def intro: touch_cong)
    show ?thesis
      by (rule go[OF r(2)]) (use 3 r(1) later e(1) in \<open>auto simp: evidence_defs split: option.splits\<close>)
  qed
qed

lemma observe_evidence_inv:
  assumes ord: "range_ok ord" and inv: "engine_inv cfg s" and cfg: "config_ok cfg"
    and e: "seen_at e \<noteq> 0" and fresh: "fresh_name mk cfg ord e s"
  shows "engine_inv cfg (observe_evidence mk cfg ord e eligible s)"
proof -
  let ?k = "tracker_key e"
  define s1 where "s1 = fst (advanceLocked cfg ord (seen_at e) s)"
  have s1: "engine_inv cfg s1" unfolding s1_def by (rule advance_engine_inv[OF ord inv])
  show ?thesis
  proof (cases "LastEvidenceAt (tracker_of s ?k) \<noteq> 0 \<and> seen_at e < LastEvidenceAt (tracker_of s ?k)")
    case True
    with inv show ?thesis by (simp add: observe_evidence_def Let_def)
  next
    case False
    then have last: "LastEvidenceAt (tracker_of s ?k) = 0 \<or> LastEvidenceAt (tracker_of s ?k) \<le> seen_at e" by auto
    then have last1: "LastEvidenceAt (tracker_of s1 ?k) = 0 \<or> LastEvidenceAt (tracker_of s1 ?k) \<le> seen_at e"
      unfolding s1_def advance_last[OF ord inv] .
    show ?thesis
    proof (cases "observeOnly e")
      case True
      let ?c = "tracker_of s ?k"
      let ?c' = "?c\<lparr>Phase := (if Phase ?c = phaseNone then phaseHealthy else Phase ?c), LastEvidenceAt := seen_at e\<rparr>"
      have "linked ((map_of (Trackers s))(?k \<mapsto> ?c')) (map_of (Incidents s))"
      proof (rule linked_tracker)
        show linked: "linked (map_of (Trackers s)) (map_of (Incidents s))"
          using inv by (simp add: engine_inv_def)
        show "\<exists>c0. map_of (Trackers s) ?k = Some c0 \<and> busy c0 \<and> TrackedID c0 = TrackedID ?c'" if "busy ?c'"
          using that tracker_of_busy[of s ?k] by (auto simp: busy_def split: if_splits)
        show "tracked ?c' i" if "busy ?c'" "map_of (Incidents s) (TrackedID ?c') = Some i" for i
        proof -
          have "busy ?c" using that(1) by (auto simp: busy_def split: if_splits)
          from busy_tracked[OF inv this] that(2) have "tracked ?c i" by auto
          with last e show ?thesis by (auto simp: tracked_def)
        qed
        show "busy ?c' \<and> TrackedID c0 = TrackedID ?c'" if "map_of (Trackers s) ?k = Some c0" "busy c0" for c0
          using that by (auto simp: tracker_of_def busy_def)
      qed
      then show ?thesis
        using True False engine_inv_track[OF inv] by (auto simp: observe_evidence_def Let_def)
    next
      case watched: False
      show ?thesis
      proof (cases "online e \<and> iface e = Interface cfg \<and> ReachabilityDown (tracker_of s1 ?k) \<and> \<not> reachability e")
        case True
        with watched False s1 show ?thesis by (auto simp: observe_evidence_def Let_def s1_def)
      next
        case guard: False
        obtain c' s' where r: "(if online e then came_up e ((tracker_of s1 ?k)\<lparr>LastEvidenceAt := seen_at e\<rparr>) s1
            else went_down mk cfg e eligible ((tracker_of s1 ?k)\<lparr>LastEvidenceAt := seen_at e\<rparr>) s1) = (c', s')"
          by (meson surj_pair)
        have "observe_evidence mk cfg ord e eligible s = s'\<lparr>Trackers := AList.update ?k c' (Trackers s')\<rparr>"
          using False watched guard r unfolding observe_evidence_def Let_def s1_def[symmetric]
          by (simp only: if_False simp_thms prod.case)
        moreover have "busy (tracker_of s1 ?k) \<or> map_of (Incidents s1) (mk (hostname e) (iface e) (seen_at e) (messageID e)) = None"
          if "\<not> online e"
          using fresh watched that by (auto simp: fresh_name_def Let_def s1_def)
        ultimately show ?thesis
          using came_up_inv[OF s1 e last1] went_down_inv[OF s1 cfg e last1 refl] r
          by (cases "online e") auto
      qed
    qed
  qed
qed

text \<open>What a message does to the state keeps the invariant.\<close>

definition names_ok ::
  "(string \<Rightarrow> string \<Rightarrow> time \<Rightarrow> string \<Rightarrow> string) \<Rightarrow> Config \<Rightarrow> range_order \<Rightarrow> Message \<Rightarrow> string \<Rightarrow> Snapshot \<Rightarrow> bool" where
  "names_ok mk cfg ord m ref s \<longleftrightarrow>
     (case classify m (Interface cfg) of None \<Rightarrow> True | Some e \<Rightarrow> fresh_name mk cfg ord (e\<lparr>sourceRef := ref\<rparr>) s)"

lemma observeLocked_inv:
  assumes "range_ok ord" "engine_inv cfg s" "config_ok cfg" "names_ok mk cfg ord m ref s"
  shows "engine_inv cfg (observeLocked mk cfg ord m eligible ref s)"
proof (cases "classify m (Interface cfg)")
  case (Some e)
  with classify_form[OF Some] assms show ?thesis
    by (auto simp: observeLocked_def names_ok_def intro!: observe_evidence_inv)
qed (use assms in \<open>simp add: observeLocked_def\<close>)

end
