(* ===== verification/Incident_Machine.thy ===== *)
theory Incident_Machine
  imports Incident_Service Engine_Invariants
begin

text \<open>
  The incident service as a machine of its operations, the invariant of the states it reaches, and
  its properties, with runs on concrete evidence.
\<close>

section \<open>The machine\<close>

datatype engine_event =
    Observed range_order "string option" Message bool
  | Applied "string option" "(range_order \<times> Observation) list" "Cursor gomap" time
  | Ticked range_order "string option" time
  | Sent "string option" string string string time
  | Not_sent "string option" string string time bool
  | Cursors_set "string option" "Cursor gomap"

fun engine_step ::
  "(string \<Rightarrow> string \<Rightarrow> time \<Rightarrow> string \<Rightarrow> string) \<Rightarrow> engine_event \<Rightarrow> Service \<Rightarrow> Service" where
  "engine_step mk (Observed ord out m eligible) sv = fst (Observe mk ord out m eligible sv)"
| "engine_step mk (Applied out obs cursors t) sv = fst (Apply mk out obs cursors t sv)"
| "engine_step mk (Ticked ord out now) sv = fst (Tick ord out now sv)"
| "engine_step mk (Sent out i adapter external t) sv = fst (MarkNotificationSent out i adapter external t sv)"
| "engine_step mk (Not_sent out i m retry permanent) sv = fst (MarkNotificationFailed out i m retry permanent sv)"
| "engine_step mk (Cursors_set out cursors) sv = fst (SetCursors out cursors sv)"

fun names_all_ok ::
  "(string \<Rightarrow> string \<Rightarrow> time \<Rightarrow> string \<Rightarrow> string) \<Rightarrow> Config \<Rightarrow> (range_order \<times> Observation) list
   \<Rightarrow> Snapshot \<Rightarrow> bool" where
  "names_all_ok mk c [] s = True"
| "names_all_ok mk c ((ord, ob) # obs) s =
     (names_ok mk c ord (ObsMessage ob) (SourceRef ob) s
      \<and> names_all_ok mk c obs (observeLocked mk c ord (ObsMessage ob) (NotifyEligible ob) (SourceRef ob) s))"

text \<open>What is assumed of the world: Go's ranges visit every entry once, and a new incident's name is
  new.\<close>

fun orders :: "engine_event \<Rightarrow> range_order list" where
  "orders (Observed ord out m eligible) = [ord]"
| "orders (Applied out obs cursors t) = map fst obs"
| "orders (Ticked ord out now) = [ord]"
| "orders _ = []"

fun names_new ::
  "(string \<Rightarrow> string \<Rightarrow> time \<Rightarrow> string \<Rightarrow> string) \<Rightarrow> Service \<Rightarrow> engine_event \<Rightarrow> bool" where
  "names_new mk sv (Observed ord out m eligible) = names_ok mk (cfg sv) ord m [] (state sv)"
| "names_new mk sv (Applied out obs cursors t) = names_all_ok mk (cfg sv) obs (state sv)"
| "names_new mk sv _ = True"

definition engine_allowed ::
  "(string \<Rightarrow> string \<Rightarrow> time \<Rightarrow> string \<Rightarrow> string) \<Rightarrow> Service \<Rightarrow> engine_event \<Rightarrow> bool" where
  "engine_allowed mk sv ev \<longleftrightarrow> list_all range_ok (orders ev) \<and> names_new mk sv ev"

definition service_inv :: "Service \<Rightarrow> bool" where
  "service_inv sv \<longleftrightarrow> config_ok (cfg sv) \<and> engine_inv (cfg sv) (state sv)"

lemma engine_inv_rest [simp]:
  "engine_inv c (s\<lparr>Cursors := x\<rparr>) = engine_inv c s"
  "engine_inv c (s\<lparr>Bootstrapped := b\<rparr>) = engine_inv c s"
  "engine_inv c (s\<lparr>LastCheckpointAt := t\<rparr>) = engine_inv c s"
  by (simp_all add: engine_inv_def keyed_def)

lemma save_frame [simp]:
  "state (fst (saveLocked out sv)) = state sv" "cfg (fst (saveLocked out sv)) = cfg sv"
  by (simp_all add: saveLocked_def split: option.split)

lemma observe_all_inv:
  "list_all range_ok (map fst obs) \<Longrightarrow> engine_inv c s \<Longrightarrow> config_ok c \<Longrightarrow> names_all_ok mk c obs s \<Longrightarrow>
   engine_inv c (observe_all mk c obs s)"
  by (induction mk c obs s rule: observe_all.induct) (simp_all add: observeLocked_inv)

text \<open>A job may be rewritten in what its justification does not look at.\<close>

definition same_job :: "NotificationJob \<Rightarrow> NotificationJob \<Rightarrow> bool" where
  "same_job j j' \<longleftrightarrow>
     JobID j' = JobID j \<and> JobIncidentID j' = JobIncidentID j \<and> JobKind j' = JobKind j \<and> CreatedAt j' = CreatedAt j"

lemma job_ok_same: "same_job j j' \<Longrightarrow> job_ok c I j' = job_ok c I j"
  by (simp add: same_job_def job_ok_def)

lemma job_update_inv:
  assumes "engine_inv c s" "map_of (Jobs s) n = Some j" "same_job j j'"
  shows "engine_inv c (s\<lparr>Jobs := AList.update n j' (Jobs s)\<rparr>)"
  using assms job_ok_same[OF assms(3)]
  by (auto simp: engine_inv_def keyed_def jobs_ok_def update_conv' distinct_update same_job_def)

lemma update_same: "map_of m n = Some v \<Longrightarrow> AList.update n v m = m"
  by (induction m) auto

lemma update_update [simp]: "AList.update n v (AList.update n w m) = AList.update n v m"
  by (induction m) auto

lemma mark_cases:
  "mark out i f sv =
     (case map_of (Jobs (state sv)) i of
        None \<Rightarrow> (sv, Some (JobNotFound i))
      | Some job \<Rightarrow>
          let sv' = sv\<lparr>state := (state sv)\<lparr>Jobs := AList.update i (f job) (Jobs (state sv))\<rparr>\<rparr>
          in if \<not> persistent sv then (sv', None)
             else (case out of None \<Rightarrow> (sv'\<lparr>store := Some (state sv')\<rparr>, None)
                             | Some err \<Rightarrow> (sv, Some (SaveFailed err))))"
  by (auto simp: mark_def saveLocked_def Let_def update_same split: option.split)

lemma mark_inv:
  assumes "engine_inv (cfg sv) (state sv)" "\<And>j. same_job j (f j)"
  shows "engine_inv (cfg sv) (state (fst (mark out i f sv)))
       \<and> cfg (fst (mark out i f sv)) = cfg sv"
  using assms job_update_inv[OF assms(1)]
  by (auto simp: mark_cases Let_def split: option.split)

lemma service_inv_step:
  assumes "service_inv sv" "engine_allowed mk sv ev"
  shows "service_inv (engine_step mk ev sv)"
proof (cases ev)
  case (Ticked ord out now)
  with assms show ?thesis
    unfolding engine_allowed_def using advance_engine_inv[of ord "cfg sv" "state sv" now]
    by (auto simp: service_inv_def Tick_def Let_def split: prod.split)
next
  case (Sent out i adapter external t)
  with assms mark_inv[of sv "\<lambda>j. j\<lparr>SentAt := Some t, JobAdapter := adapter, ExternalID := external, JobLastError := []\<rparr>" out i]
  show ?thesis by (simp add: service_inv_def MarkNotificationSent_def same_job_def)
next
  case (Not_sent out i m retry permanent)
  with assms mark_inv[of sv "\<lambda>j. j\<lparr>JobAttempts := JobAttempts j + 1, JobLastError := m, NextAt := retry,
                       JobPermanent := permanent\<rparr>" out i]
  show ?thesis by (simp add: service_inv_def MarkNotificationFailed_def same_job_def)
qed (use assms in \<open>simp_all add: engine_allowed_def service_inv_def Observe_def Apply_def SetCursors_def observeLocked_inv observe_all_inv\<close>)

text \<open>A service starts empty, as \<open>New\<close> makes it.\<close>

definition service_start :: "Service \<Rightarrow> bool" where
  "service_start sv \<longleftrightarrow> (\<exists>c persistence on_disk. New c persistence on_disk = Inr sv)"

lemma service_inv_start: "service_start sv \<Longrightarrow> service_inv sv"
  by (auto simp: service_start_def New_def Let_def service_inv_def config_ok_def engine_inv_def keyed_def
      linked_def jobs_ok_def empty_snapshot_def split: if_splits)

interpretation incident_machine: invariant_machine service_start "engine_step mk" "engine_allowed mk" service_inv for mk
  by unfold_locales (simp_all add: service_inv_start service_inv_step)

abbreviation service_reachable ::
  "(string \<Rightarrow> string \<Rightarrow> time \<Rightarrow> string \<Rightarrow> string) \<Rightarrow> Service \<Rightarrow> bool" where
  "service_reachable mk \<equiv> reach service_start (engine_step mk) (engine_allowed mk)"

end
