(* ===== verification/Engine_Properties.thy ===== *)
theory Engine_Properties
  imports Incident_Machine
begin

text \<open>
  The properties of the incident engine, each with a run on concrete evidence.
\<close>

section \<open>A concrete service\<close>

definition sample_mk :: "string \<Rightarrow> string \<Rightarrow> time \<Rightarrow> string \<Rightarrow> string" where
  "sample_mk host ifc t m = host @ ''/'' @ ifc @ ''/'' @ m"

definition listed :: range_order where
  "listed = \<lparr>over_trackers = id, over_incidents = id\<rparr>"

lemma listed_ok [simp]: "range_ok listed"
  by (simp add: range_ok_def listed_def)

definition sample_config :: Config where
  "sample_config = \<lparr>Interface = ''wan'', DownAfter = 60, RecoveredAfter = 30\<rparr>"

definition syslog :: "string \<Rightarrow> time \<Rightarrow> string \<Rightarrow> string \<Rightarrow> Message" where
  "syslog i t tag text =
     \<lparr>ID = i, ReceivedAt = t, Timestamp = None, Transport = ''udp'', Source = [], Priority = None,
      Facility = None, Severity = None, Hostname = ''router'', AppName = [], ProcID = [], MsgID = [],
      Tag = tag, Text = text, StructuredData = [], Raw = []\<rparr>"

definition goes_down :: "string \<Rightarrow> time \<Rightarrow> string \<Rightarrow> Message" where
  "goes_down i t ifc = syslog i t ''netifd'' (interface_is ifc '' is now down'')"

definition comes_up :: "string \<Rightarrow> time \<Rightarrow> string \<Rightarrow> Message" where
  "comes_up i t ifc = syslog i t ''netifd'' (interface_is ifc '' is now up'')"

definition seen :: "Message \<Rightarrow> range_order \<times> Observation" where
  "seen m = (listed, \<lparr>ObsMessage = m, NotifyEligible = True, SourceRef = ID m\<rparr>)"

definition new_service :: Service where
  "new_service = projr (New sample_config True None)"

lemma new_service_start [simp]: "service_start new_service"
  unfolding service_start_def
  by (rule exI[of _ sample_config], rule exI[of _ True], rule exI[of _ None])
    (simp add: new_service_def New_def sample_config_def)

definition service_run :: "engine_event list \<Rightarrow> Service" where
  "service_run es = run (engine_step sample_mk) es new_service"

lemma service_run_reachable:
  assumes "list_all (\<lambda>e. set (orders e) \<subseteq> {listed}) es"
    "allowed_run (engine_step sample_mk) (names_new sample_mk) es new_service"
  shows "service_reachable sample_mk (service_run es)"
  unfolding service_run_def
proof (rule reach_run[OF reach.start])
  have "list_all (\<lambda>e. list_all range_ok (orders e)) es"
    using assms(1) listed_ok by (fastforce simp: list_all_iff)
  then show "allowed_run (engine_step sample_mk) (engine_allowed sample_mk) es new_service"
    using assms(2) unfolding engine_allowed_def[abs_def] allowed_run_split by simp
qed simp

text \<open>The primary goes down, then the Starlink backup; both outages are confirmed; the primary recovers.\<close>

definition outage :: "engine_event list" where
  "outage =
     [Applied None [seen (goes_down ''a'' 100 ''wan''), seen (goes_down ''b'' 120 ''wwan'')] [] 130,
      Ticked listed None 200,
      Applied None [seen (comes_up ''c'' 210 ''wan'')] [] 220,
      Ticked listed None 300]"

lemma outage_reachable: "service_reachable sample_mk (service_run outage)"
proof (rule service_run_reachable)
  show "list_all (\<lambda>e. set (orders e) \<subseteq> {listed}) outage"
    by (simp add: outage_def seen_def)
  show "allowed_run (engine_step sample_mk) (names_new sample_mk) outage new_service"
    by code_simp
qed

section \<open>Incidents\<close>

lemma reachable_inv:
  "service_reachable mk sv \<Longrightarrow> config_ok (cfg sv) \<and> engine_inv (cfg sv) (state sv)"
  using incident_machine.reach_inv[of mk sv] by (simp add: service_inv_def)

text \<open>C12: The times of every incident follow from one another. While it is suspected nothing else is
  known; it counts as an outage exactly its confirmation time after it started; a recovery is
  never earlier than the start; it is resolved exactly its recovery time after the recovery was
  first seen.\<close>

theorem incident_timeline:
  assumes "service_reachable mk sv" "map_of (Incidents (state sv)) n = Some i"
  shows "IncID i = n \<and> 0 < IncDownAfter i \<and> 0 < IncRecoveredAfter i
       \<and> (IncState i = StatePendingFailure \<longrightarrow>
            ActivatedAt i = None \<and> RecoveryFirstAt i = None \<and> ResolvedAt i = None)
       \<and> (IncState i \<noteq> StatePendingFailure \<longrightarrow> ActivatedAt i = Some (StartedAt i + IncDownAfter i))
       \<and> (IncState i = StateActive \<longrightarrow> RecoveryFirstAt i = None \<and> ResolvedAt i = None)
       \<and> (IncState i = StatePendingRecovery \<longrightarrow>
            (\<exists>r. RecoveryFirstAt i = Some r \<and> StartedAt i \<le> r) \<and> ResolvedAt i = None)
       \<and> (IncState i = StateResolved \<longrightarrow>
            (\<exists>r. RecoveryFirstAt i = Some r \<and> StartedAt i \<le> r \<and> ResolvedAt i = Some (r + IncRecoveredAfter i)))"
proof -
  have "IncID i = n" "incident_ok i"
    using reachable_inv[OF assms(1)] linked_id assms(2) by (auto simp: engine_inv_def)
  then show ?thesis by (auto simp: incident_ok_def split: option.splits)
qed

theorem incident_timeline_witness:
  "\<exists>i. map_of (Incidents (state (service_run outage))) ''router/wan/a'' = Some i
     \<and> ActivatedAt i = Some 160 \<and> ResolvedAt i = Some 240"
proof -
  define i where "i = the (map_of (Incidents (state (service_run outage))) ''router/wan/a'')"
  have "map_of (Incidents (state (service_run outage))) ''router/wan/a'' \<noteq> None"
    by code_simp
  then have i: "map_of (Incidents (state (service_run outage))) ''router/wan/a'' = Some i"
    by (auto simp: i_def)
  have "IncState i = StateResolved \<and> StartedAt i = 100 \<and> IncDownAfter i = 60
      \<and> RecoveryFirstAt i = Some 210 \<and> IncRecoveredAfter i = 30"
    unfolding i_def by code_simp
  with incident_timeline[OF outage_reachable i] i show ?thesis by auto
qed

text \<open>C4: A router's interface has at most one incident that is not resolved, and that incident is
  the one its tracker is on, in the phase that matches; a tracker that is not idle is on such an
  incident.\<close>

theorem one_open_incident:
  assumes "service_reachable mk sv"
  shows "(\<forall>n i m j. map_of (Incidents (state sv)) n = Some i \<and> map_of (Incidents (state sv)) m = Some j
            \<and> IncHostname i = IncHostname j \<and> IncInterface i = IncInterface j
            \<and> IncState i \<noteq> StateResolved \<and> IncState j \<noteq> StateResolved \<longrightarrow> n = m)
       \<and> (\<forall>n i. map_of (Incidents (state sv)) n = Some i \<and> IncState i \<noteq> StateResolved \<longrightarrow>
            (\<exists>c. map_of (Trackers (state sv)) (key_of i) = Some c \<and> TrackedID c = n
               \<and> (Phase c = phasePendingFailure \<longleftrightarrow> IncState i = StatePendingFailure)
               \<and> (Phase c = phaseActive \<longleftrightarrow> IncState i = StateActive)
               \<and> (Phase c = phasePendingRecovery \<longleftrightarrow> IncState i = StatePendingRecovery)))
       \<and> (\<forall>k c. map_of (Trackers (state sv)) k = Some c \<and> Phase c \<notin> {phaseNone, phaseHealthy} \<longrightarrow>
            (\<exists>i. map_of (Incidents (state sv)) (TrackedID c) = Some i \<and> key_of i = k \<and> IncState i \<noteq> StateResolved))"
proof -
  let ?T = "map_of (Trackers (state sv))" and ?I = "map_of (Incidents (state sv))"
  have linked: "linked ?T ?I"
    using reachable_inv[OF assms] by (simp add: engine_inv_def)
  have phases: "(Phase c = phasePendingFailure \<longleftrightarrow> IncState i = StatePendingFailure)
      \<and> (Phase c = phaseActive \<longleftrightarrow> IncState i = StateActive)
      \<and> (Phase c = phasePendingRecovery \<longleftrightarrow> IncState i = StatePendingRecovery) \<and> IncState i \<noteq> StateResolved"
    if "tracked c i" "busy c" for c i
    using that by (auto simp: tracked_def busy_def)
  have busies: "busy c \<longleftrightarrow> Phase c \<notin> {phaseNone, phaseHealthy}" for c
    using phase_cases[of c] by auto
  have opens: "\<exists>c. ?T (key_of i) = Some c \<and> TrackedID c = n \<and> tracked c i \<and> busy c"
    if "?I n = Some i" "IncState i \<noteq> StateResolved" for n i
    using linked_open[OF linked that] linked_busy[OF linked] that(1) by fastforce
  show ?thesis
  proof (intro conjI allI impI; elim conjE)
    fix n i m j
    assume "?I n = Some i" "?I m = Some j" "IncHostname i = IncHostname j" "IncInterface i = IncInterface j"
      "IncState i \<noteq> StateResolved" "IncState j \<noteq> StateResolved"
    then show "n = m" using opens[of n i] opens[of m j] by (auto simp: key_of_def)
  next
    fix n i
    assume "?I n = Some i" "IncState i \<noteq> StateResolved"
    from opens[OF this] show "\<exists>c. ?T (key_of i) = Some c \<and> TrackedID c = n
        \<and> (Phase c = phasePendingFailure \<longleftrightarrow> IncState i = StatePendingFailure)
        \<and> (Phase c = phaseActive \<longleftrightarrow> IncState i = StateActive)
        \<and> (Phase c = phasePendingRecovery \<longleftrightarrow> IncState i = StatePendingRecovery)"
      using phases by blast
  next
    fix k c
    assume "?T k = Some c" "Phase c \<notin> {phaseNone, phaseHealthy}"
    then have "?T k = Some c" "busy c" using busies by auto
    from linked_busy[OF linked this] phases[OF _ this(2)]
    show "\<exists>i. ?I (TrackedID c) = Some i \<and> key_of i = k \<and> IncState i \<noteq> StateResolved"
      by metis
  qed
qed

theorem one_open_incident_witness:
  "\<exists>c. map_of (Trackers (state (service_run outage))) (''router'' @ [CHR 0x00] @ ''wwan'') = Some c
     \<and> Phase c = phaseActive \<and> TrackedID c = ''router/wwan/b''"
proof -
  define i where "i = the (map_of (Incidents (state (service_run outage))) ''router/wwan/b'')"
  have "map_of (Incidents (state (service_run outage))) ''router/wwan/b'' \<noteq> None"
    by code_simp
  then have found: "map_of (Incidents (state (service_run outage))) ''router/wwan/b'' = Some i"
    by (auto simp: i_def)
  have state: "IncState i = StateActive" and key: "key_of i = ''router'' @ [CHR 0x00] @ ''wwan''"
    unfolding i_def by code_simp+
  from one_open_incident[OF outage_reachable, THEN conjunct2, THEN conjunct1, rule_format, of "''router/wwan/b''" i]
    found state
  obtain c where "map_of (Trackers (state (service_run outage))) (key_of i) = Some c"
    "TrackedID c = ''router/wwan/b''" "Phase c = phaseActive"
    by auto
  then show ?thesis unfolding key by blast
qed

section \<open>Notifications\<close>




section \<open>The clock\<close>

lemma something_due:
  fixes now :: time
  assumes "range_ok ord" "engine_inv c s"
  shows "\<not> nothing_due c ord now s \<longleftrightarrow>
    (\<exists>k t i. map_of (Trackers s) k = Some t \<and> pending t \<and> map_of (Incidents s) (TrackedID t) = Some i \<and> due_at t i \<le> now)"
proof
  assume "\<not> nothing_due c ord now s"
  then obtain k t where "nextDueTrackerLocked c ord now s = Some (k, t)" by (auto simp: nothing_due_def)
  note due = next_due_Some[OF assms(1) this]
  then have t: "map_of (Trackers s) k = Some t" using assms(2) by (simp add: engine_inv_def keyed_def)
  then obtain i where "map_of (Incidents s) (TrackedID t) = Some i"
    using linked_busy[of "map_of (Trackers s)" "map_of (Incidents s)" k t] assms(2) due
    by (auto simp: engine_inv_def pending_def busy_def)
  with t due show "\<exists>k t i. map_of (Trackers s) k = Some t \<and> pending t
      \<and> map_of (Incidents s) (TrackedID t) = Some i \<and> due_at t i \<le> now" by blast
next
  assume "\<exists>k t i. map_of (Trackers s) k = Some t \<and> pending t
    \<and> map_of (Incidents s) (TrackedID t) = Some i \<and> due_at t i \<le> now"
  then obtain k t i where t: "(k, t) \<in> set (Trackers s)" "pending t" "map_of (Incidents s) (TrackedID t) = Some i"
      "due_at t i \<le> now"
    using map_of_SomeD by fast
  show "\<not> nothing_due c ord now s"
  proof
    assume "nothing_due c ord now s"
    then have "nextDueTrackerLocked c ord now s = None" by (simp add: nothing_due_def)
    from next_due_None[OF assms(1) this t(1,2)] t(3,4) show False by auto
  qed
qed

text \<open>C25: The loop that advances the clock always ends, in any order in which Go may visit the
  trackers. When it ends nothing is due: every suspected outage and every suspected recovery has a
  due time that lies after \<open>now\<close>. It reports a change exactly when something was due, that is, when some
  suspected outage or recovery had a due time not after \<open>now\<close>, and without one it changes nothing.\<close>

theorem clock_loop_ends:
  fixes now :: time
  assumes "service_reachable mk sv" "range_ok ord"
  defines "result \<equiv> advanceLocked (cfg sv) ord now (state sv)"
  shows "advance_loop (cfg sv) ord now (state sv) = Some (fst result)
       \<and> (\<forall>k c. map_of (Trackers (fst result)) k = Some c \<and> pending c \<longrightarrow>
            (\<exists>i. map_of (Incidents (fst result)) (TrackedID c) = Some i \<and> now < due_at c i))
       \<and> (snd result \<longleftrightarrow> (\<exists>k c i. map_of (Trackers (state sv)) k = Some c \<and> pending c
             \<and> map_of (Incidents (state sv)) (TrackedID c) = Some i \<and> due_at c i \<le> now))
       \<and> (\<not> snd result \<longrightarrow> fst result = state sv)"
proof -
  have inv: "engine_inv (cfg sv) (state sv)" using reachable_inv[OF assms(1)] by simp
  note ok = engine_inv_trackers_ok[OF inv]
  have "\<exists>i. map_of (Incidents (fst result)) (TrackedID c) = Some i \<and> now < due_at c i"
    if "map_of (Trackers (fst result)) k = Some c" "pending c" for k c
    using nothing_due_after[OF assms(2) ok, of "cfg sv" now] next_due_None[OF assms(2) _ map_of_SomeD[OF that(1)] that(2)]
    by (simp add: result_def nothing_due_def)
  moreover have "snd result \<longleftrightarrow> (\<exists>k c i. map_of (Trackers (state sv)) k = Some c \<and> pending c
      \<and> map_of (Incidents (state sv)) (TrackedID c) = Some i \<and> due_at c i \<le> now)"
    unfolding result_def snd_advanceLocked[OF assms(2)] by (rule something_due[OF assms(2) inv])
  moreover have "fst result = state sv" if "\<not> snd result"
    using that not_advanced by (simp add: result_def)
  ultimately show ?thesis
    using advance_loop_advanceLocked[OF assms(2) ok] by (auto simp: result_def)
qed

definition first_outage :: "engine_event list" where
  "first_outage = [Applied None [seen (goes_down ''a'' 100 ''wan''), seen (goes_down ''b'' 120 ''wwan'')] [] 130]"

lemma first_outage_reachable: "service_reachable sample_mk (service_run first_outage)"
proof (rule service_run_reachable)
  show "list_all (\<lambda>e. set (orders e) \<subseteq> {listed}) first_outage"
    by (simp add: first_outage_def seen_def)
  show "allowed_run (engine_step sample_mk) (names_new sample_mk) first_outage new_service"
    by code_simp
qed

theorem clock_loop_ends_witness:
  "\<exists>s. advance_loop sample_config listed 170 (state (service_run first_outage)) = Some s
     \<and> map (Phase \<circ> snd) (Trackers s) = [phaseActive, phasePendingFailure]"
proof -
  have "cfg (service_run first_outage) = sample_config" by code_simp
  moreover have "map (Phase \<circ> snd) (Trackers (fst (advanceLocked sample_config listed 170 (state (service_run first_outage)))))
      = [phaseActive, phasePendingFailure]"
    by code_simp
  ultimately show ?thesis
    using clock_loop_ends[OF first_outage_reachable listed_ok, of 170] by simp
qed

text \<open>Every pending tracker has its incident.\<close>

definition all_known :: "Incident gomap \<Rightarrow> tracker gomap \<Rightarrow> bool" where
  "all_known incs ts \<longleftrightarrow> (\<forall>(k, c) \<in> set ts. pending c \<longrightarrow> map_of incs (TrackedID c) \<noteq> None)"

lemma all_known_Cons [simp]:
  "all_known incs ((k, c) # ts) \<longleftrightarrow> (pending c \<longrightarrow> map_of incs (TrackedID c) \<noteq> None) \<and> all_known incs ts"
  by (auto simp: all_known_def)

lemma inv_all_known:
  assumes "range_ok ord" "engine_inv c s"
  shows "all_known (Incidents s) (over_trackers ord (Trackers s))"
proof -
  have "\<exists>i. map_of (Incidents s) (TrackedID t) = Some i" if "(k, t) \<in> set (Trackers s)" "pending t" for k t
    using assms(2) that linked_busy[of "map_of (Trackers s)" "map_of (Incidents s)" k t]
    by (auto simp: engine_inv_def keyed_def pending_def busy_def)
  then show ?thesis
    unfolding all_known_def range_set[OF assms(1)] by fastforce
qed

text \<open>What is selected is due earliest, and before what is due at the same time but less urgent.\<close>

definition before :: "time \<times> int \<Rightarrow> time \<times> int \<Rightarrow> bool" where
  "before x y \<longleftrightarrow> fst x < fst y \<or> fst x = fst y \<and> snd x \<le> snd y"

definition urgency :: "Config \<Rightarrow> Incident gomap \<Rightarrow> tracker \<Rightarrow> time \<times> int" where
  "urgency cf incs c = (case map_of incs (TrackedID c) of None \<Rightarrow> (0, 0) | Some i \<Rightarrow> (due_at c i, priority cf c i))"

lemma before_refl [simp]: "before x x"
  by (simp add: before_def)

lemma before_trans: "before x y \<Longrightarrow> before y z \<Longrightarrow> before x z"
  by (auto simp: before_def)

lemma select_due_earliest:
  assumes "select_due cf incs now ts sel = Some (k, c)" "all_known incs ts"
    and "\<And>k0 c0 t0 p0. sel = Some (k0, c0, t0, p0) \<Longrightarrow> urgency cf incs c0 = (t0, p0)"
  shows "(\<forall>k0 c0 t0 p0. sel = Some (k0, c0, t0, p0) \<longrightarrow> before (urgency cf incs c) (t0, p0))
       \<and> (\<forall>(k', c') \<in> set ts. pending c' \<longrightarrow> fst (urgency cf incs c') \<le> now \<longrightarrow>
            before (urgency cf incs c) (urgency cf incs c'))"
  using assms
proof (induction ts arbitrary: sel)
  case Nil
  then show ?case by auto
next
  case (Cons x ts)
  obtain key current where x: "x = (key, current)" by (cases x)
  show ?case
  proof (cases "pending current")
    case False
    then have "select_due cf incs now ts sel = Some (k, c)"
      using Cons.prems(1) by (auto simp: x pending_def)
    from Cons.IH[OF this] Cons.prems(2,3) False show ?thesis by (simp add: x)
  next
    case True
    with Cons.prems(2) obtain i where i: "map_of incs (TrackedID current) = Some i" by (auto simp: x)
    then have u: "urgency cf incs current = (due_at current i, priority cf current i)" by (simp add: urgency_def)
    show ?thesis
    proof (cases "now < due_at current i")
      case True
      with \<open>pending current\<close> Cons.prems(1) i have "select_due cf incs now ts sel = Some (k, c)"
        by (auto simp: x pending_def Let_def split: if_splits)
      from Cons.IH[OF this] Cons.prems(2,3) True u show ?thesis by (simp add: x)
    next
      case False
      define sel' where "sel' = (case sel of
          None \<Rightarrow> Some (key, current, due_at current i, priority cf current i)
        | Some (k, c, t, p) \<Rightarrow>
            if due_at current i < t \<or> due_at current i = t \<and> priority cf current i < p
            then Some (key, current, due_at current i, priority cf current i) else sel)"
      have "select_due cf incs now ts sel' = Some (k, c)"
        using False \<open>pending current\<close> Cons.prems(1) i
        by (auto simp: x pending_def Let_def sel'_def split: if_splits)
      moreover have "urgency cf incs c0 = (t0, p0)" if "sel' = Some (k0, c0, t0, p0)" for k0 c0 t0 p0
        using that Cons.prems(3) u by (auto simp: sel'_def split: option.splits if_splits prod.splits)
      ultimately have IH: "(\<forall>k0 c0 t0 p0. sel' = Some (k0, c0, t0, p0) \<longrightarrow> before (urgency cf incs c) (t0, p0))
          \<and> (\<forall>(k', c') \<in> set ts. pending c' \<longrightarrow> fst (urgency cf incs c') \<le> now \<longrightarrow>
               before (urgency cf incs c) (urgency cf incs c'))"
        using Cons.IH[of sel'] Cons.prems(2) by (simp add: x)
      have "sel' \<noteq> None"
        by (auto simp: sel'_def split: option.split)
      then obtain k1 c1 t1 p1 where sel1: "sel' = Some (k1, c1, t1, p1)"
        by (cases sel') auto
      have first: "before (urgency cf incs c) (t1, p1)" using IH sel1 by blast
      have "before (t1, p1) (due_at current i, priority cf current i)"
        and "\<And>k0 c0 t0 p0. sel = Some (k0, c0, t0, p0) \<Longrightarrow> before (t1, p1) (t0, p0)"
        using sel1 by (auto simp: sel'_def before_def split: option.splits if_splits)
      with first before_trans have "before (urgency cf incs c) (due_at current i, priority cf current i)"
        and "\<And>k0 c0 t0 p0. sel = Some (k0, c0, t0, p0) \<Longrightarrow> before (urgency cf incs c) (t0, p0)"
        by blast+
      with IH u show ?thesis by (auto simp: x)
    qed
  qed
qed

text \<open>The clock handles what is due in order of time, and at one instant recoveries first, then
  the outage of the primary, then those of its fallbacks: the tracker it picks is due no later than
  any other due tracker and, at the same time, no less urgent, in whatever order Go visits them.\<close>

theorem next_due_is_earliest:
  assumes "service_reachable mk sv" "range_ok ord"
    and "nextDueTrackerLocked (cfg sv) ord now (state sv) = Some (k, c)"
    and "map_of (Incidents (state sv)) (TrackedID c) = Some i"
    and "map_of (Trackers (state sv)) k' = Some c'" "pending c'"
    and "map_of (Incidents (state sv)) (TrackedID c') = Some i'" "due_at c' i' \<le> now"
  shows "due_at c i < due_at c' i'
       \<or> due_at c i = due_at c' i' \<and> priority (cfg sv) c i \<le> priority (cfg sv) c' i'"
proof -
  have inv: "engine_inv (cfg sv) (state sv)" using reachable_inv[OF assms(1)] by simp
  have "(k', c') \<in> set (over_trackers ord (Trackers (state sv)))"
    using map_of_SomeD[OF assms(5)] range_set[OF assms(2)] by simp
  then have "before (urgency (cfg sv) (Incidents (state sv)) c) (urgency (cfg sv) (Incidents (state sv)) c')"
    using select_due_earliest[OF assms(3)[unfolded nextDueTrackerLocked_def] inv_all_known[OF assms(2) inv]] assms(6-8)
    by (auto simp: urgency_def)
  with assms(4,7) show ?thesis by (auto simp: urgency_def before_def)
qed

definition same_time :: "engine_event list" where
  "same_time = [Applied None [seen (goes_down ''b'' 100 ''wwan''), seen (goes_down ''a'' 100 ''wan'')] [] 130]"

lemma same_time_reachable: "service_reachable sample_mk (service_run same_time)"
proof (rule service_run_reachable)
  show "list_all (\<lambda>e. set (orders e) \<subseteq> {listed}) same_time"
    by (simp add: same_time_def seen_def)
  show "allowed_run (engine_step sample_mk) (names_new sample_mk) same_time new_service"
    by code_simp
qed

theorem next_due_is_earliest_witness:
  "let s = state (service_run same_time);
       c = snd (the (nextDueTrackerLocked sample_config listed 170 s));
       i = the (map_of (Incidents s) (TrackedID c));
       c' = the (map_of (Trackers s) (''router'' @ [CHR 0x00] @ ''wwan''));
       i' = the (map_of (Incidents s) (TrackedID c'))
   in IncInterface i = ''wan'' \<and> IncInterface i' = ''wwan'' \<and> due_at c i = 160 \<and> due_at c' i' = 160
    \<and> priority sample_config c i \<le> priority sample_config c' i'"
proof -
  let ?s = "state (service_run same_time)" and ?k' = "''router'' @ [CHR 0x00] @ ''wwan''"
  define kc where "kc = the (nextDueTrackerLocked sample_config listed 170 ?s)"
  define i where "i = the (map_of (Incidents ?s) (TrackedID (snd kc)))"
  define c' where "c' = the (map_of (Trackers ?s) ?k')"
  define i' where "i' = the (map_of (Incidents ?s) (TrackedID c'))"
  have "cfg (service_run same_time) = sample_config"
    "nextDueTrackerLocked sample_config listed 170 ?s \<noteq> None"
    "map_of (Trackers ?s) ?k' \<noteq> None"
    by code_simp+
  moreover have "map_of (Incidents ?s) (TrackedID (snd kc)) \<noteq> None" "map_of (Incidents ?s) (TrackedID c') \<noteq> None"
    unfolding kc_def c'_def by code_simp+
  ultimately have found: "cfg (service_run same_time) = sample_config"
    "nextDueTrackerLocked sample_config listed 170 ?s = Some (fst kc, snd kc)"
    "map_of (Trackers ?s) ?k' = Some c'" "map_of (Incidents ?s) (TrackedID (snd kc)) = Some i"
    "map_of (Incidents ?s) (TrackedID c') = Some i'"
    by (auto simp: kc_def i_def c'_def i'_def)
  have vals: "IncInterface i = ''wan'' \<and> IncInterface i' = ''wwan'' \<and> due_at (snd kc) i = 160 \<and> due_at c' i' = 160
      \<and> pending c'"
    unfolding i_def i'_def c'_def kc_def by code_simp
  have picked: "nextDueTrackerLocked (cfg (service_run same_time)) listed 170 ?s = Some (fst kc, snd kc)"
    using found(1,2) by simp
  from next_due_is_earliest[OF same_time_reachable listed_ok picked found(4,3) _ found(5)] vals found(1)
  show ?thesis
    unfolding Let_def kc_def[symmetric] i_def[symmetric] c'_def[symmetric] i'_def[symmetric] by simp
qed

text \<open>A later clock picks what an earlier clock picks, as long as that one has anything due.\<close>

lemma select_due_later:
  assumes "now \<le> later" "all_known incs ts"
    and "sel = sel' \<and> (\<forall>k c t p. sel = Some (k, c, t, p) \<longrightarrow> t \<le> now)
       \<or> sel = None \<and> (\<forall>k c t p. sel' = Some (k, c, t, p) \<longrightarrow> now < t)"
    and "select_due cf incs now ts sel = Some kc"
  shows "select_due cf incs later ts sel' = Some kc"
  using assms(2-)
proof (induction ts arbitrary: sel sel')
  case Nil
  then show ?case by auto
next
  case (Cons x ts)
  obtain key current where x: "x = (key, current)" by (cases x)
  show ?case
  proof (cases "pending current")
    case False
    then have "select_due cf incs now ts sel = Some kc"
      using Cons.prems(3) by (auto simp: x pending_def)
    from Cons.IH[OF _ Cons.prems(2) this] Cons.prems(1) False show ?thesis by (auto simp: x pending_def)
  next
    case True
    with Cons.prems(1) obtain i where i: "map_of incs (TrackedID current) = Some i" by (auto simp: x)
    define d p where "d = due_at current i" and "p = priority cf current i"
    define upd where "upd sel = (case sel of None \<Rightarrow> Some (key, current, d, p)
        | Some (k, c, t, q) \<Rightarrow> if d < t \<or> d = t \<and> p < q then Some (key, current, d, p) else sel)" for sel
    have step: "select_due cf incs m (x # ts) sel =
        select_due cf incs m ts (if m < d then sel else upd sel)" for m sel
      using True i unfolding upd_def d_def p_def
      by (auto simp: x pending_def Let_def cong: option.case_cong split: option.split)
    have rest: "all_known incs ts" using Cons.prems(1) by (simp add: x)
    have rel: "(let a = (if now < d then sel else upd sel); b = (if later < d then sel' else upd sel')
        in a = b \<and> (\<forall>k c t p. a = Some (k, c, t, p) \<longrightarrow> t \<le> now)
           \<or> a = None \<and> (\<forall>k c t p. b = Some (k, c, t, p) \<longrightarrow> now < t))"
    proof (cases sel)
      case None
      then show ?thesis
        using Cons.prems(2) assms(1) by (auto simp: upd_def Let_def split: option.splits if_splits)
    next
      case (Some q)
      then show ?thesis
        using Cons.prems(2) assms(1) by (cases q) (auto simp: upd_def Let_def split: if_splits)
    qed
    show ?thesis
      using Cons.IH[OF rest rel[unfolded Let_def]] Cons.prems(3) unfolding step by blast
  qed
qed

lemma next_due_later:
  assumes "range_ok ord" "engine_inv c s" "now \<le> later"
    and "nextDueTrackerLocked cf ord now s = Some kc"
  shows "nextDueTrackerLocked cf ord later s = Some kc"
  using assms(4) unfolding nextDueTrackerLocked_def
  by (rule select_due_later[OF assms(3) inv_all_known[OF assms(1,2)], rotated]) simp

lemma rounds_inv:
  "range_ok ord \<Longrightarrow> engine_inv c s \<Longrightarrow> engine_inv c ((advance_round c ord now ^^ n) s)"
  by (induction n) (simp_all add: advance_round_inv)

lemma rounds_later:
  assumes "range_ok ord" "engine_inv c s" "now \<le> later"
  shows "\<exists>m. (advance_round c ord now ^^ n) s = (advance_round c ord later ^^ m) s"
proof (induction n)
  case 0
  show ?case by (rule exI[of _ 0]) simp
next
  case (Suc n)
  then obtain m where m: "(advance_round c ord now ^^ n) s = (advance_round c ord later ^^ m) s" by blast
  let ?t = "(advance_round c ord now ^^ n) s"
  have inv: "engine_inv c ?t" by (rule rounds_inv[OF assms(1,2)])
  show ?case
  proof (cases "nextDueTrackerLocked c ord now ?t")
    case None
    then have "(advance_round c ord now ^^ Suc n) s = ?t" by (simp add: advance_round_def)
    with m show ?thesis by metis
  next
    case (Some kc)
    with next_due_later[OF assms(1) inv assms(3) Some]
    have "advance_round c ord now ?t = advance_round c ord later ?t" by (simp add: advance_round_def)
    then have "(advance_round c ord now ^^ Suc n) s = (advance_round c ord later ^^ Suc m) s"
      using m by simp
    then show ?thesis by blast
  qed
qed

text \<open>C23: How often the clock ticks does not matter: advancing it to one time and then to a later one
  gives exactly the state that advancing it once to the later time gives.\<close>

theorem ticks_compose:
  assumes "service_reachable mk sv" "range_ok ord" "now \<le> later"
  shows "fst (advanceLocked (cfg sv) ord later (fst (advanceLocked (cfg sv) ord now (state sv))))
       = fst (advanceLocked (cfg sv) ord later (state sv))"
proof -
  let ?c = "cfg sv" and ?s = "state sv"
  let ?t = "fst (advanceLocked ?c ord now ?s)"
  have inv: "engine_inv ?c ?s" using reachable_inv[OF assms(1)] by simp
  obtain m where m: "?t = (advance_round ?c ord later ^^ m) ?s"
    using rounds_later[OF assms(2) inv assms(3)] by (auto simp: fst_advanceLocked)
  have "fst (advanceLocked ?c ord later ?t) = (advance_round ?c ord later ^^ pending_count ?t) ?t"
    by (simp add: fst_advanceLocked)
  also have "\<dots> = (advance_round ?c ord later ^^ (pending_count ?t + m)) ?s"
    using m by (metis funpow_add o_apply)
  finally have n: "fst (advanceLocked ?c ord later ?t) = (advance_round ?c ord later ^^ (pending_count ?t + m)) ?s" .
  have "engine_inv ?c ?t" by (rule advance_engine_inv[OF assms(2) inv])
  then have "nothing_due ?c ord later (fst (advanceLocked ?c ord later ?t))"
    by (intro nothing_due_after[OF assms(2)] engine_inv_trackers_ok)
  then have "advance_loop ?c ord later ?s = Some (fst (advanceLocked ?c ord later ?t))"
    unfolding n advance_loop_def by (rule clock_loop.loop_result)
  with advance_loop_advanceLocked[OF assms(2) engine_inv_trackers_ok[OF inv], of ?c later]
  show ?thesis by simp
qed

theorem ticks_compose_witness:
  "fst (advanceLocked sample_config listed 300 (fst (advanceLocked sample_config listed 170 (state (service_run first_outage)))))
   = fst (advanceLocked sample_config listed 300 (state (service_run first_outage)))
   \<and> length (Jobs (fst (advanceLocked sample_config listed 300 (state (service_run first_outage))))) = 2"
proof -
  have "cfg (service_run first_outage) = sample_config" by code_simp
  moreover have "length (Jobs (fst (advanceLocked sample_config listed 300 (state (service_run first_outage))))) = 2"
    by code_simp
  ultimately show ?thesis
    using ticks_compose[OF first_outage_reachable listed_ok, of 170 300] by simp
qed

section \<open>Replayed evidence\<close>

lemma append_again: "appendEvidence (appendEvidence ids m) m = appendEvidence ids m"
  by (simp add: appendEvidence_def)

lemma add_again: "add_evidence e (add_evidence e i) = add_evidence e i"
  by (simp add: add_evidence_def append_again)

lemma append_fields [simp]:
  "IncID (add_evidence e i) = IncID i" "IncState (add_evidence e i) = IncState i"
  "IncDownAfter (add_evidence e i) = IncDownAfter i" "IncRecoveredAfter (add_evidence e i) = IncRecoveredAfter i"
  "IncNotify (add_evidence e i) = IncNotify i" "key_of (add_evidence e i) = key_of i"
  by (simp_all add: add_evidence_def key_of_def)

text \<open>The tracker has taken the evidence: taking it again changes nothing.\<close>

definition taken :: "evidence \<Rightarrow> bool \<Rightarrow> tracker \<Rightarrow> (string \<rightharpoonup> Incident) \<Rightarrow> bool" where
  "taken e eligible c I \<longleftrightarrow>
     LastEvidenceAt c = seen_at e
     \<and> (busy c \<longrightarrow> (\<exists>i. I (TrackedID c) = Some i \<and> IncID i = TrackedID c \<and> add_evidence e i = i
                    \<and> (Phase c = phasePendingFailure \<longrightarrow> IncNotify i = TrackedNotify c)))
     \<and> (if online e then Phase c = phaseHealthy \<or> Phase c = phasePendingRecovery
        else (Phase c = phasePendingFailure \<and> (eligible \<longrightarrow> TrackedNotify c) \<or> Phase c = phaseActive)
           \<and> (reachability e \<longrightarrow> ReachabilityDown c))"

lemma touch_nothing: "map_of (Incidents s) (TrackedID c) = Some i \<Longrightarrow> f i = i \<Longrightarrow> IncID i = TrackedID c \<Longrightarrow> touch c f s = s"
  by (simp add: touch_def update_same)

lemma taken_up: "taken e eligible c (map_of (Incidents s)) \<Longrightarrow> online e \<Longrightarrow> came_up e (c\<lparr>LastEvidenceAt := seen_at e\<rparr>) s = (c, s)"
  by (auto simp: taken_def came_up_def busy_def intro!: touch_nothing)

lemma taken_down:
  assumes "taken e eligible c (map_of (Incidents s))" "\<not> online e"
  shows "went_down mk cf e eligible (c\<lparr>LastEvidenceAt := seen_at e\<rparr>) s = (c, s)"
proof -
  have c: "c\<lparr>LastEvidenceAt := seen_at e\<rparr> = c" "(ReachabilityDown c \<or> reachability e) = ReachabilityDown c"
    using assms by (auto simp: taken_def)
  obtain i where i: "map_of (Incidents s) (TrackedID c) = Some i" "IncID i = TrackedID c"
    "add_evidence e i = i" "Phase c = phasePendingFailure \<longrightarrow> IncNotify i = TrackedNotify c"
    using assms by (auto simp: taken_def busy_def)
  consider "Phase c = phasePendingFailure" "eligible \<longrightarrow> TrackedNotify c" | "Phase c = phaseActive"
    using assms by (auto simp: taken_def)
  then show ?thesis
  proof cases
    case 1
    then have n: "(TrackedNotify c \<or> eligible) = TrackedNotify c" by auto
    have "c\<lparr>ReachabilityDown := ReachabilityDown c, TrackedNotify := TrackedNotify c\<rparr> = c" by simp
    moreover have "i\<lparr>IncNotify := TrackedNotify c\<rparr> = i\<lparr>IncNotify := IncNotify i\<rparr>" using i(4) 1 by simp
    then have "touch c (\<lambda>i. add_evidence e (i\<lparr>IncNotify := TrackedNotify c\<rparr>)) s = s"
      using i by (intro touch_nothing[where i = i]) simp_all
    ultimately show ?thesis
      unfolding c(1) went_down_def Let_def c(2) n using 1 by simp
  next
    case 2
    have "c\<lparr>ReachabilityDown := ReachabilityDown c\<rparr> = c" by simp
    moreover have "touch c (add_evidence e) s = s"
      using i by (intro touch_nothing[where i = i]) simp_all
    ultimately show ?thesis
      unfolding c(1) went_down_def Let_def c(2) using 2 by simp
  qed
qed

text \<open>What taking evidence does to the tracker's own incident, and that it does nothing to others.\<close>

definition others_kept :: "string \<Rightarrow> Snapshot \<Rightarrow> Snapshot \<Rightarrow> bool" where
  "others_kept k s s' \<longleftrightarrow> Trackers s' = Trackers s
     \<and> (\<forall>n i. map_of (Incidents s) n = Some i \<longrightarrow> key_of i \<noteq> k \<longrightarrow> map_of (Incidents s') n = Some i)"

lemma touch_kept:
  assumes "engine_inv cf s" "busy (tracker_of s k)" "TrackedID c = TrackedID (tracker_of s k)"
    and "\<And>i. IncID (f i) = IncID i"
  obtains i where "map_of (Incidents s) (TrackedID c) = Some i" "IncID i = TrackedID c"
    "tracked (tracker_of s k) i" "incident_ok i"
    "map_of (Incidents (touch c f s)) (TrackedID c) = Some (f i)" "others_kept k s (touch c f s)"
proof -
  obtain i where i: "map_of (Incidents s) (TrackedID (tracker_of s k)) = Some i" "key_of i = k"
    "tracked (tracker_of s k) i"
    by (rule busy_tracked[OF assms(1,2)])
  have "IncID i = TrackedID c \<and> incident_ok i"
    using assms(1,3) i linked_id by (auto simp: engine_inv_def)
  then show thesis
    using that i assms(3,4) by (auto simp: touch_def update_conv' others_kept_def)
qed

lemma went_down_taken:
  assumes inv: "engine_inv cf s" and k: "k = tracker_key e" and down: "\<not> online e"
    and fresh: "busy (tracker_of s k) \<or> map_of (Incidents s) (mk (hostname e) (iface e) (seen_at e) (messageID e)) = None"
    and result: "went_down mk cf e eligible ((tracker_of s k)\<lparr>LastEvidenceAt := seen_at e\<rparr>) s = (c', s')"
  shows "taken e eligible c' (map_of (Incidents s')) \<and> others_kept k s s'"
proof (cases "busy (tracker_of s k)")
  case False
  then have "s' = s\<lparr>Incidents := AList.update (IncID (started mk cf e eligible)) (started mk cf e eligible) (Incidents s)\<rparr>"
    "c' = \<lparr>Phase = phasePendingFailure, PendingSince = seen_at e, RecoverySince = 0,
       LastEvidenceAt = seen_at e, StartMessageID = messageID e, StartSourceRef = sourceRef e,
       TrackedID = IncID (started mk cf e eligible), TrackedNotify = eligible, ReachabilityDown = reachability e\<rparr>"
    using result by (auto simp: went_down_def Let_def phase_cases split: phase.splits)
  then show ?thesis
    using fresh False down
    by (auto simp: taken_def others_kept_def update_conv' started_def add_evidence_def appendEvidence_def)
next
  case True
  let ?c = "tracker_of s k"
  consider "Phase ?c = phasePendingFailure" | "Phase ?c = phasePendingRecovery" | "Phase ?c = phaseActive"
    using True by (auto simp: busy_def)
  then show ?thesis
  proof cases
    case 1
    let ?n = "TrackedNotify ?c \<or> eligible"
    have r: "c' = ?c\<lparr>LastEvidenceAt := seen_at e, ReachabilityDown := (ReachabilityDown ?c \<or> reachability e), TrackedNotify := ?n\<rparr>"
      "s' = touch c' (\<lambda>i. add_evidence e (i\<lparr>IncNotify := ?n\<rparr>)) s"
      using result 1 by (auto simp: went_down_def Let_def intro: touch_cong)
    show ?thesis
      by (rule touch_kept[OF inv True, of c' "\<lambda>i. add_evidence e (i\<lparr>IncNotify := ?n\<rparr>)"])
        (use r(1) 1 down in \<open>auto simp: r(2) taken_def add_again\<close>)
  next
    case 2
    have r: "c' = ?c\<lparr>LastEvidenceAt := seen_at e, Phase := phaseActive, RecoverySince := 0,
          ReachabilityDown := (ReachabilityDown ?c \<or> reachability e)\<rparr>"
      "s' = touch c' (\<lambda>i. add_evidence e (i\<lparr>IncState := StateActive, RecoveryFirstAt := None\<rparr>)) s"
      using result 2 by (auto simp: went_down_def Let_def intro: touch_cong)
    show ?thesis
      by (rule touch_kept[OF inv True, of c' "\<lambda>i. add_evidence e (i\<lparr>IncState := StateActive, RecoveryFirstAt := None\<rparr>)"])
        (use r(1) 2 down in \<open>auto simp: r(2) taken_def add_again\<close>)
  next
    case 3
    have r: "c' = ?c\<lparr>LastEvidenceAt := seen_at e, ReachabilityDown := (ReachabilityDown ?c \<or> reachability e)\<rparr>"
      "s' = touch c' (add_evidence e) s"
      using result 3 by (auto simp: went_down_def Let_def intro: touch_cong)
    show ?thesis
      by (rule touch_kept[OF inv True, of c' "add_evidence e"])
        (use r(1) 3 down in \<open>auto simp: r(2) taken_def add_again\<close>)
  qed
qed

lemma came_up_taken:
  assumes inv: "engine_inv cf s" and up: "online e"
    and result: "came_up e ((tracker_of s k)\<lparr>LastEvidenceAt := seen_at e\<rparr>) s = (c', s')"
  shows "taken e eligible c' (map_of (Incidents s')) \<and> others_kept k s s'
       \<and> (ReachabilityDown c' \<longrightarrow> ReachabilityDown (tracker_of s k))"
proof (cases "busy (tracker_of s k)")
  case False
  then show ?thesis
    using result up
    by (auto simp: came_up_def phase_cases taken_def others_kept_def healthy_tracker_def busy_def
        zero_tracker_def split: phase.splits)
next
  case True
  let ?c = "tracker_of s k"
  consider "Phase ?c = phasePendingFailure" | "Phase ?c = phasePendingRecovery" | "Phase ?c = phaseActive"
    using True by (auto simp: busy_def)
  then show ?thesis
  proof cases
    case 1
    obtain i where "map_of (Incidents s) (TrackedID ?c) = Some i" "key_of i = k"
      by (rule busy_tracked[OF inv True])
    with result 1 up show ?thesis
      by (auto simp: came_up_def taken_def others_kept_def healthy_tracker_def zero_tracker_def busy_def delete_conv')
  next
    case 2
    have r: "c' = ?c\<lparr>LastEvidenceAt := seen_at e\<rparr>" "s' = touch c' (add_evidence e) s"
      using result 2 by (auto simp: came_up_def intro: touch_cong)
    show ?thesis
      by (rule touch_kept[OF inv True, of c' "add_evidence e"])
        (use r(1) 2 up in \<open>auto simp: r(2) taken_def add_again\<close>)
  next
    case 3
    have r: "c' = ?c\<lparr>LastEvidenceAt := seen_at e, Phase := phasePendingRecovery, RecoverySince := seen_at e\<rparr>"
      "s' = touch c' (\<lambda>i. add_evidence e (i\<lparr>IncState := StatePendingRecovery, RecoveryFirstAt := Some (seen_at e)\<rparr>)) s"
      using result 3 by (auto simp: came_up_def intro: touch_cong)
    show ?thesis
      by (rule touch_kept[OF inv True, of c' "\<lambda>i. add_evidence e (i\<lparr>IncState := StatePendingRecovery, RecoveryFirstAt := Some (seen_at e)\<rparr>)"])
        (use r(1) 3 up in \<open>auto simp: r(2) taken_def add_again\<close>)
  qed
qed

text \<open>After the evidence, its tracker is not due.\<close>

lemma came_up_not_due:
  assumes inv: "engine_inv cf s" 
    and quiet: "\<And>i. pending (tracker_of s k) \<Longrightarrow> map_of (Incidents s) (TrackedID (tracker_of s k)) = Some i \<Longrightarrow>
      seen_at e < due_at (tracker_of s k) i"
    and result: "came_up e ((tracker_of s k)\<lparr>LastEvidenceAt := seen_at e\<rparr>) s = (c', s')" and p: "pending c'"
  shows "\<exists>i. map_of (Incidents s') (TrackedID c') = Some i \<and> seen_at e < due_at c' i"
proof -
  let ?c = "tracker_of s k"
  have "Phase ?c = phaseActive \<or> Phase ?c = phasePendingRecovery"
    using result p by (auto simp: came_up_def pending_def healthy_tracker_def split: phase.splits)
  then have busy: "busy ?c" by (auto simp: busy_def)
  show ?thesis
  proof (cases "Phase ?c = phaseActive")
    case True
    have r: "c' = ?c\<lparr>LastEvidenceAt := seen_at e, Phase := phasePendingRecovery, RecoverySince := seen_at e\<rparr>"
      "s' = touch c' (\<lambda>i. add_evidence e (i\<lparr>IncState := StatePendingRecovery, RecoveryFirstAt := Some (seen_at e)\<rparr>)) s"
      using result True by (auto simp: came_up_def intro: touch_cong)
    show ?thesis
      by (rule touch_kept[OF inv busy, of c' "\<lambda>i. add_evidence e (i\<lparr>IncState := StatePendingRecovery, RecoveryFirstAt := Some (seen_at e)\<rparr>)"])
        (use r(1) in \<open>auto simp: r(2) due_at_def incident_ok_def\<close>)
  next
    case False
    with \<open>Phase ?c = phaseActive \<or> Phase ?c = phasePendingRecovery\<close> have pr: "Phase ?c = phasePendingRecovery" by simp
    have r: "c' = ?c\<lparr>LastEvidenceAt := seen_at e\<rparr>" "s' = touch c' (add_evidence e) s"
      using result pr by (auto simp: came_up_def intro: touch_cong)
    show ?thesis
      by (rule touch_kept[OF inv busy, of c' "add_evidence e"])
        (use r(1) pr quiet in \<open>auto simp: r(2) due_at_def pending_def\<close>)
  qed
qed

lemma went_down_not_due:
  assumes inv: "engine_inv cf s" and cf: "config_ok cf"
    and quiet: "\<And>i. pending (tracker_of s k) \<Longrightarrow> map_of (Incidents s) (TrackedID (tracker_of s k)) = Some i \<Longrightarrow>
      seen_at e < due_at (tracker_of s k) i"
    and result: "went_down mk cf e eligible ((tracker_of s k)\<lparr>LastEvidenceAt := seen_at e\<rparr>) s = (c', s')" and p: "pending c'"
  shows "\<exists>i. map_of (Incidents s') (TrackedID c') = Some i \<and> seen_at e < due_at c' i"
proof (cases "busy (tracker_of s k)")
  case False
  then have "s' = s\<lparr>Incidents := AList.update (IncID (started mk cf e eligible)) (started mk cf e eligible) (Incidents s)\<rparr>"
    "TrackedID c' = IncID (started mk cf e eligible)" "Phase c' = phasePendingFailure" "PendingSince c' = seen_at e"
    using result by (auto simp: went_down_def Let_def phase_cases split: phase.splits)
  then show ?thesis
    using cf by (auto simp: update_conv' due_at_def started_def config_ok_def)
next
  case True
  let ?c = "tracker_of s k"
  have pf: "Phase ?c = phasePendingFailure"
    using result p True by (auto simp: went_down_def Let_def pending_def busy_def split: phase.splits)
  let ?n = "TrackedNotify ?c \<or> eligible"
  have r: "c' = ?c\<lparr>LastEvidenceAt := seen_at e, ReachabilityDown := (ReachabilityDown ?c \<or> reachability e), TrackedNotify := ?n\<rparr>"
    "s' = touch c' (\<lambda>i. add_evidence e (i\<lparr>IncNotify := ?n\<rparr>)) s"
    using result pf by (auto simp: went_down_def Let_def intro: touch_cong)
  show ?thesis
    by (rule touch_kept[OF inv True, of c' "\<lambda>i. add_evidence e (i\<lparr>IncNotify := ?n\<rparr>)"])
      (use r(1) pf quiet in \<open>auto simp: r(2) due_at_def pending_def\<close>)
qed

lemma nothing_dueI:
  assumes "range_ok ord" "trackers_ok s"
    and "\<And>k c. map_of (Trackers s) k = Some c \<Longrightarrow> pending c \<Longrightarrow>
      \<exists>i. map_of (Incidents s) (TrackedID c) = Some i \<and> now < due_at c i"
  shows "nothing_due cf ord now s"
proof -
  have "nextDueTrackerLocked cf ord now s \<noteq> Some (k, c)" for k c
    using next_due_Some[OF assms(1), of cf now s k c] assms(2) assms(3)[of k c] by (fastforce simp: trackers_ok_def)
  then show ?thesis by (cases "nextDueTrackerLocked cf ord now s") (auto simp: nothing_due_def)
qed

lemma idle_advance: "nothing_due cf ord now s \<Longrightarrow> fst (advanceLocked cf ord now s) = s"
  by (simp add: fst_advanceLocked clock_loop.idle_pow)

text \<open>The effect of evidence that is neither late nor set aside.\<close>

definition take_evidence ::
  "(string \<Rightarrow> string \<Rightarrow> time \<Rightarrow> string \<Rightarrow> string) \<Rightarrow> Config \<Rightarrow> evidence \<Rightarrow> bool \<Rightarrow> Snapshot \<Rightarrow> tracker \<times> Snapshot" where
  "take_evidence mk cf e eligible s =
     (let c = (tracker_of s (tracker_key e))\<lparr>LastEvidenceAt := seen_at e\<rparr>
      in if online e then came_up e c s else went_down mk cf e eligible c s)"

definition late :: "evidence \<Rightarrow> Snapshot \<Rightarrow> bool" where
  "late e s \<longleftrightarrow> LastEvidenceAt (tracker_of s (tracker_key e)) \<noteq> 0 \<and> seen_at e < LastEvidenceAt (tracker_of s (tracker_key e))"

definition set_aside :: "Config \<Rightarrow> evidence \<Rightarrow> Snapshot \<Rightarrow> bool" where
  "set_aside cf e s \<longleftrightarrow>
     online e \<and> iface e = Interface cf \<and> ReachabilityDown (tracker_of s (tracker_key e)) \<and> \<not> reachability e"

lemma observe_evidence_cases:
  "observe_evidence mk cf ord e eligible s =
     (if late e s then s
      else if observeOnly e
      then s\<lparr>Trackers := AList.update (tracker_key e)
               ((tracker_of s (tracker_key e))
                  \<lparr>Phase := (if Phase (tracker_of s (tracker_key e)) = phaseNone then phaseHealthy
                             else Phase (tracker_of s (tracker_key e))), LastEvidenceAt := seen_at e\<rparr>) (Trackers s)\<rparr>
      else let s = fst (advanceLocked cf ord (seen_at e) s)
           in if set_aside cf e s then s
              else let (c, s) = take_evidence mk cf e eligible s
                   in s\<lparr>Trackers := AList.update (tracker_key e) c (Trackers s)\<rparr>)"
  by (simp add: observe_evidence_def late_def set_aside_def take_evidence_def Let_def)

lemma tracker_of_update [simp]: "tracker_of (s\<lparr>Trackers := AList.update k c T\<rparr>) k = c"
  by (simp add: tracker_of_def update_conv')

lemma observe_again:
  assumes ord: "range_ok ord" "range_ok ord'" and inv: "engine_inv cf s" and cf: "config_ok cf"
    and e: "seen_at e \<noteq> 0" and fresh: "fresh_name mk cf ord e s"
  shows "observe_evidence mk cf ord' e eligible (observe_evidence mk cf ord e eligible s) =
         observe_evidence mk cf ord e eligible s"
proof -
  let ?k = "tracker_key e"
  define s1 where "s1 = fst (advanceLocked cf ord (seen_at e) s)"
  have s1: "engine_inv cf s1" unfolding s1_def by (rule advance_engine_inv[OF ord(1) inv])
  have linked: "linked (map_of (Trackers s1)) (map_of (Incidents s1))" using s1 by (simp add: engine_inv_def)
  have quiet: "nothing_due cf ord (seen_at e) s1"
    unfolding s1_def by (rule nothing_due_after[OF ord(1) engine_inv_trackers_ok[OF inv]])
  have due: "\<exists>i. map_of (Incidents s1) (TrackedID c) = Some i \<and> seen_at e < due_at c i"
    if "map_of (Trackers s1) k = Some c" "pending c" for k c
    using next_due_None[OF ord(1) quiet[unfolded nothing_due_def] map_of_SomeD[OF that(1)] that(2)] .
  consider "late e s" | "\<not> late e s" "observeOnly e" | "\<not> late e s" "\<not> observeOnly e" "set_aside cf e s1"
    | "\<not> late e s" "\<not> observeOnly e" "\<not> set_aside cf e s1" by blast
  then show ?thesis
  proof cases
    case 1
    then show ?thesis by (simp add: observe_evidence_cases)
  next
    case 2
    then show ?thesis by (simp add: observe_evidence_cases late_def)
  next
    case 3
    have "\<not> late e s1"
      using 3(1) unfolding late_def s1_def advance_last[OF ord(1) inv] .
    moreover have "nothing_due cf ord' (seen_at e) s1"
      by (rule nothing_dueI[OF ord(2) engine_inv_trackers_ok[OF s1] due])
    ultimately show ?thesis
      using 3 by (simp add: observe_evidence_cases idle_advance flip: s1_def)
  next
    case 4
    obtain c' s' where r: "take_evidence mk cf e eligible s1 = (c', s')" by (cases "take_evidence mk cf e eligible s1")
    define s2 where "s2 = s'\<lparr>Trackers := AList.update ?k c' (Trackers s')\<rparr>"
    have s2: "observe_evidence mk cf ord e eligible s = s2"
      using 4 r by (simp add: observe_evidence_cases s2_def flip: s1_def)
    have inv2: "engine_inv cf s2"
      unfolding s2[symmetric] by (rule observe_evidence_inv[OF ord(1) inv cf e fresh])
    have fresh1: "busy (tracker_of s1 ?k) \<or> map_of (Incidents s1) (mk (hostname e) (iface e) (seen_at e) (messageID e)) = None"
      if "\<not> online e"
      using fresh 4 that by (auto simp: fresh_name_def Let_def s1_def)
    have taken: "taken e eligible c' (map_of (Incidents s'))" and kept: "others_kept ?k s1 s'"
      and rd: "online e \<Longrightarrow> ReachabilityDown c' \<Longrightarrow> ReachabilityDown (tracker_of s1 ?k)"
      using r came_up_taken[OF s1, of e ?k c' s' eligible] went_down_taken[OF s1 refl, of e mk eligible c' s'] fresh1
      by (auto simp: take_evidence_def Let_def split: if_splits)
    have own: "\<exists>i. map_of (Incidents s') (TrackedID c') = Some i \<and> seen_at e < due_at c' i" if "pending c'"
    proof -
      have q: "seen_at e < due_at (tracker_of s1 ?k) i" if "pending (tracker_of s1 ?k)"
          "map_of (Incidents s1) (TrackedID (tracker_of s1 ?k)) = Some i" for i
        using due[OF tracker_of_busy that(1)] that by (auto simp: busy_def pending_def)
      show ?thesis
        using r came_up_not_due[OF s1 q, of c' s'] went_down_not_due[OF s1 cf q, of mk eligible c' s'] that
        by (auto simp: take_evidence_def Let_def split: if_splits)
    qed
    have "nothing_due cf ord' (seen_at e) s2"
    proof (rule nothing_dueI[OF ord(2) engine_inv_trackers_ok[OF inv2]])
      fix k c assume c: "map_of (Trackers s2) k = Some c" "pending c"
      show "\<exists>i. map_of (Incidents s2) (TrackedID c) = Some i \<and> seen_at e < due_at c i"
      proof (cases "k = ?k")
        case True
        with c own show ?thesis by (simp add: s2_def update_conv')
      next
        case False
        with c kept have c1: "map_of (Trackers s1) k = Some c"
          by (auto simp: s2_def update_conv' others_kept_def)
        from due[OF c1 c(2)] obtain i where i: "map_of (Incidents s1) (TrackedID c) = Some i" "seen_at e < due_at c i"
          by blast
        have "key_of i = k"
          using linked_busy[OF linked c1] c(2) i(1) by (auto simp: pending_def busy_def)
        with i False kept show ?thesis by (auto simp: s2_def others_kept_def)
      qed
    qed
    then have idle: "fst (advanceLocked cf ord' (seen_at e) s2) = s2" by (rule idle_advance)
    have at: "tracker_of s2 ?k = c'" "LastEvidenceAt c' = seen_at e"
      using taken by (simp_all add: s2_def taken_def)
    have "\<not> late e s2" "\<not> set_aside cf e s2"
      using 4(3) rd at by (auto simp: late_def set_aside_def)
    moreover have "take_evidence mk cf e eligible s2 = (c', s2)"
      using taken_up[of e eligible c' s2] taken_down[of e eligible c' s2 mk cf] taken
      by (auto simp: take_evidence_def at s2_def Let_def)
    moreover have "s2\<lparr>Trackers := AList.update ?k c' (Trackers s2)\<rparr> = s2"
      by (simp add: s2_def)
    ultimately show ?thesis
      unfolding s2 using 4(2) by (simp add: observe_evidence_cases idle)
  qed
qed

text \<open>C13: Replayed records are harmless: taking a message a second time right after the first leaves
  the service's state exactly as it is, down to the evidence lists, whatever the message says and
  in whatever order Go visits its maps.\<close>

theorem replay_is_harmless:
  assumes "service_reachable mk sv" "range_ok ord" "range_ok ord'" "names_ok mk (cfg sv) ord m ref (state sv)"
  shows "observeLocked mk (cfg sv) ord' m eligible ref (observeLocked mk (cfg sv) ord m eligible ref (state sv))
       = observeLocked mk (cfg sv) ord m eligible ref (state sv)"
proof (cases "classify m (Interface (cfg sv))")
  case None
  then show ?thesis by (simp add: observeLocked_def)
next
  case (Some e)
  have inv: "config_ok (cfg sv)" "engine_inv (cfg sv) (state sv)"
    using reachable_inv[OF assms(1)] by auto
  have "seen_at (e\<lparr>sourceRef := ref\<rparr>) \<noteq> 0" using classify_form[OF Some] by simp
  then show ?thesis
    using observe_again[OF assms(2,3) inv(2,1), of "e\<lparr>sourceRef := ref\<rparr>" mk eligible] assms(4) Some
    by (simp add: observeLocked_def names_ok_def)
qed

theorem replay_is_harmless_witness:
  "observeLocked sample_mk sample_config listed (comes_up ''c'' 210 ''wan'') True ''c''
     (observeLocked sample_mk sample_config listed (comes_up ''c'' 210 ''wan'') True ''c'' (state (service_run first_outage)))
   = observeLocked sample_mk sample_config listed (comes_up ''c'' 210 ''wan'') True ''c'' (state (service_run first_outage))
   \<and> length (Jobs (observeLocked sample_mk sample_config listed (comes_up ''c'' 210 ''wan'') True ''c''
       (state (service_run first_outage)))) = 2"
proof -
  have "cfg (service_run first_outage) = sample_config" by code_simp
  moreover have "names_ok sample_mk sample_config listed (comes_up ''c'' 210 ''wan'') ''c'' (state (service_run first_outage))"
    by code_simp
  moreover have "length (Jobs (observeLocked sample_mk sample_config listed (comes_up ''c'' 210 ''wan'') True ''c''
       (state (service_run first_outage)))) = 2"
    by code_simp
  ultimately show ?thesis
    using replay_is_harmless[OF first_outage_reachable listed_ok listed_ok, of "comes_up ''c'' 210 ''wan''" "''c''" True]
    by simp
qed

section \<open>Confirmation\<close>

lemma advance_jobs_inv:
  "range_ok ord \<Longrightarrow> service_reachable mk sv \<Longrightarrow> engine_inv (cfg sv) (fst (advanceLocked (cfg sv) ord now (state sv)))"
  using reachable_inv by (simp add: advance_engine_inv)

lemma job_confirmed: "job_ok cf I j \<Longrightarrow> \<exists>i. I (JobIncidentID j) = Some i \<and> ActivatedAt i \<noteq> None"
  unfolding job_ok_def by (elim exE conjE) (intro exI conjI)

text \<open>A failure that ends before it was confirmed leaves nothing behind. When evidence that an
  interface is up finds its failure still suspected, the incident is gone, the interface is healthy
  again, no notification mentions the incident, and no other incident or job has changed since the
  clock was advanced to the evidence.\<close>

theorem short_failure_leaves_nothing:
  fixes eligible :: bool and ref :: string
  assumes "service_reachable mk sv" "range_ok ord"
    and "classify m (Interface (cfg sv)) = Some e" "online e"
  defines "earlier \<equiv> fst (advanceLocked (cfg sv) ord (ReceivedAt m) (state sv))"
  assumes "map_of (Trackers earlier) (tracker_key e) = Some c" "Phase c = phasePendingFailure"
    and "LastEvidenceAt c \<le> ReceivedAt m"
    and "reachability e \<or> \<not> ReachabilityDown c \<or> iface e \<noteq> Interface (cfg sv)"
  defines "result \<equiv> observeLocked mk (cfg sv) ord m eligible ref (state sv)"
  shows "map_of (Incidents result) = (map_of (Incidents earlier))(TrackedID c := None)
       \<and> map_of (Incidents earlier) (TrackedID c) \<noteq> None
       \<and> map_of (Trackers result) (tracker_key e) = Some (healthy_tracker (ReceivedAt m))
       \<and> Jobs result = Jobs earlier
       \<and> (\<forall>n j. map_of (Jobs result) n = Some j \<longrightarrow> JobIncidentID j \<noteq> TrackedID c)"
proof -
  have inv: "engine_inv (cfg sv) (state sv)" using reachable_inv[OF assms(1)] by simp
  have binv: "engine_inv (cfg sv) earlier"
    unfolding earlier_def by (rule advance_jobs_inv[OF assms(2,1)])
  note e = classify_form[OF assms(3)]
  have "seen_at e = ReceivedAt m" "\<not> observeOnly e" using e assms(4) by auto
  note facts = this
  have bc: "tracker_of earlier (tracker_key e) = c" using assms(6) by (simp add: tracker_of_def)
  let ?e = "e\<lparr>sourceRef := ref\<rparr>"
  have key: "tracker_key ?e = tracker_key e" by (simp add: tracker_key_def)
  have "LastEvidenceAt (tracker_of (state sv) (tracker_key e)) = LastEvidenceAt c"
    using advance_last[OF assms(2) inv, of "ReceivedAt m" "tracker_key e"] bc by (simp add: earlier_def)
  then have "\<not> late ?e (state sv)"
    using assms(8) facts by (simp add: late_def key)
  moreover have "\<not> set_aside (cfg sv) ?e earlier"
    using assms(9) bc by (auto simp: set_aside_def key)
  moreover have "take_evidence mk (cfg sv) ?e eligible earlier =
      (healthy_tracker (ReceivedAt m), earlier\<lparr>Incidents := AList.delete (TrackedID c) (Incidents earlier)\<rparr>)"
    using assms(4,7) facts bc by (simp add: take_evidence_def key came_up_def)
  ultimately have result: "result = earlier\<lparr>Incidents := AList.delete (TrackedID c) (Incidents earlier),
      Trackers := AList.update (tracker_key e) (healthy_tracker (ReceivedAt m)) (Trackers earlier)\<rparr>"
    using facts assms(3)
    by (simp add: result_def observeLocked_def observe_evidence_cases key flip: earlier_def)
  obtain i where i: "map_of (Incidents earlier) (TrackedID c) = Some i" "tracked c i"
    using busy_tracked[OF binv, of "tracker_key e"] bc assms(7) by (auto simp: busy_def)
  have "ActivatedAt i = None"
    using i binv linked_id assms(7) by (auto simp: engine_inv_def incident_ok_def tracked_def)
  then have "JobIncidentID j \<noteq> TrackedID c" if "map_of (Jobs earlier) n = Some j" for n j
    using binv i(1) that job_confirmed[of "cfg sv" "map_of (Incidents earlier)" j]
    by (auto simp: engine_inv_def jobs_ok_def simp del: not_None_eq)
  then show ?thesis
    using i(1) by (auto simp: result delete_conv' update_conv')
qed

theorem short_failure_leaves_nothing_witness:
  "map_of (Incidents (observeLocked sample_mk sample_config listed (comes_up ''c'' 150 ''wan'') True ''c''
     (state (service_run first_outage)))) ''router/wan/a'' = None"
proof -
  let ?sv = "service_run first_outage" and ?m = "comes_up ''c'' 150 ''wan''"
  define e where "e = the (classify ?m (Interface sample_config))"
  define c where "c = tracker_of (fst (advanceLocked sample_config listed 150 (state ?sv))) (''router'' @ [CHR 0x00] @ ''wan'')"
  have sv: "cfg ?sv = sample_config" by code_simp
  have "classify ?m (Interface sample_config) \<noteq> None" by code_simp
  then have e: "classify ?m (Interface (cfg ?sv)) = Some e" by (auto simp: e_def sv)
  have e': "online e" "tracker_key e = ''router'' @ [CHR 0x00] @ ''wan''" "ReceivedAt ?m = 150"
    unfolding e_def by code_simp+
  have c: "Phase c = phasePendingFailure \<and> LastEvidenceAt c = 100 \<and> \<not> ReachabilityDown c \<and> TrackedID c = ''router/wan/a''"
    unfolding c_def by code_simp
  then have "map_of (Trackers (fst (advanceLocked sample_config listed 150 (state ?sv)))) (tracker_key e) = Some c"
    using tracker_of_busy[of "fst (advanceLocked sample_config listed 150 (state ?sv))" "tracker_key e"]
    by (simp add: e' c_def busy_def)
  with short_failure_leaves_nothing[OF first_outage_reachable listed_ok e e'(1), of c] c sv e'(3)
  show ?thesis by simp
qed

end
