(* ===== verification/Service_Properties.thy ===== *)
theory Service_Properties
  imports Engine_Properties
begin

text \<open>
  Properties of whole runs of the incident service: outages the router itself reported, deliveries,
  lists and checkpoints.
\<close>

section \<open>An unreachable primary\<close>

lemma advance_keeps_idle:
  assumes "range_ok ord" "trackers_ok s" "map_of (Trackers s) k = Some c" "\<not> pending c"
  shows "map_of (Trackers (fst (advanceLocked cf ord now s))) k = Some c"
proof -
  have "trackers_ok (advance_round cf ord now s) \<and> map_of (Trackers (advance_round cf ord now s)) k = Some c"
    if "trackers_ok s \<and> map_of (Trackers s) k = Some c" for s
  proof (cases "nextDueTrackerLocked cf ord now s")
    case None
    with that show ?thesis by (simp add: advance_round_def)
  next
    case (Some x)
    obtain k' c' where x: "x = (k', c')" by (cases x)
    have "(k', c') \<in> set (Trackers s)" "pending c'"
      using next_due_Some[OF assms(1) Some[unfolded x]] by auto
    with that assms(4) have "k' \<noteq> k" by (auto simp: trackers_ok_def)
    with that have "map_of (Trackers (advance_round cf ord now s)) k = Some c"
      by (auto simp: advance_round_def Some x advance_due_def update_conv' delete_conv' split: option.split)
    with that show ?thesis by (simp add: advance_round_trackers_ok)
  qed
  from advance_inv[of "\<lambda>s. trackers_ok s \<and> map_of (Trackers s) k = Some c", OF this] assms(2,3)
  show ?thesis by auto
qed

lemma taking_keeps_trackers [simp]:
  "Trackers (snd (came_up e c s)) = Trackers s"
  "Trackers (snd (went_down mk cf e eligible c s)) = Trackers s"
  by (simp_all add: came_up_def went_down_def touch_def Let_def split: phase.split option.split)

lemma take_keeps_trackers [simp]: "Trackers (snd (take_evidence mk cf e eligible s)) = Trackers s"
  by (simp add: take_evidence_def Let_def)

text \<open>The tracker of \<open>k\<close> is on the confirmed outage \<open>n\<close> and the router said it is unreachable.\<close>

definition latched :: "string \<Rightarrow> string \<Rightarrow> Snapshot \<Rightarrow> bool" where
  "latched k n s \<longleftrightarrow>
     (\<exists>c. map_of (Trackers s) k = Some c \<and> Phase c = phaseActive \<and> ReachabilityDown c \<and> TrackedID c = n)"

text \<open>The message says, from the reachability test of the router, that the interface of \<open>k\<close> is back.\<close>

definition restores :: "Config \<Rightarrow> string \<Rightarrow> Message \<Rightarrow> bool" where
  "restores cf k m \<longleftrightarrow>
     (case classify m (Interface cf) of
        None \<Rightarrow> False | Some e \<Rightarrow> tracker_key e = k \<and> online e \<and> reachability e)"

lemma after_last_separator:
  "a @ [z] @ b = c @ [z] @ d \<Longrightarrow> z \<notin> set b \<Longrightarrow> z \<notin> set d \<Longrightarrow> a = c \<and> b = d"
  by (auto simp: append_eq_append_conv2 append_eq_Cons_conv Cons_eq_append_conv)

lemma latched_observed:
  assumes ord: "range_ok ord" and inv: "engine_inv cf s" and c: "latched k n s"
    and k: "k = host @ [CHR 0x00] @ Interface cf" "CHR 0x00 \<notin> set (Interface cf)"
    and m: "\<not> restores cf k m"
  shows "latched k n (observeLocked mk cf ord m eligible ref s)"
proof (cases "classify m (Interface cf)")
  case None
  with c show ?thesis by (simp add: observeLocked_def)
next
  case (Some e0)
  define e where "e = e0\<lparr>sourceRef := ref\<rparr>"
  define s1 where "s1 = fst (advanceLocked cf ord (seen_at e) s)"
  obtain c0 where c0: "map_of (Trackers s) k = Some c0" "Phase c0 = phaseActive" "ReachabilityDown c0" "TrackedID c0 = n"
    using c by (auto simp: latched_def)
  then have s1: "map_of (Trackers s1) k = Some c0"
    unfolding s1_def by (intro advance_keeps_idle[OF ord engine_inv_trackers_ok[OF inv]]) (simp_all add: pending_def)
  have l1: "latched k n s1" using s1 c0 by (auto simp: latched_def)
  have names: "CHR 0x00 \<notin> set (iface e)"
    using classify_form[OF Some] k(2) by (auto simp: e_def)
  have obs: "observeLocked mk cf ord m eligible ref s = observe_evidence mk cf ord e eligible s"
    by (simp add: observeLocked_def Some e_def)
  show ?thesis
  proof (cases "tracker_key e = k")
    case False
    then show ?thesis
      unfolding obs using c l1 c0 s1
      by (auto simp: observe_evidence_cases latched_def update_conv' Let_def simp flip: s1_def split: prod.split)
        (metis snd_conv take_keeps_trackers)
  next
    case True
    have i: "iface e = Interface cf"
      using after_last_separator[of "hostname e" "CHR 0x00" "iface e" host "Interface cf"] True k names
      by (simp add: tracker_key_def)
    have t: "tracker_of s k = c0" "tracker_of s1 k = c0" using c0 s1 by (simp_all add: tracker_of_def)
    have "\<not> (online e \<and> reachability e)"
      using m True by (auto simp: restores_def Some e_def tracker_key_def)
    then show ?thesis
      unfolding obs using True t c c0 l1 i
      by (auto simp: observe_evidence_cases latched_def update_conv' Let_def set_aside_def take_evidence_def
          went_down_def simp flip: s1_def split: prod.split)
  qed
qed


lemma latched_observed_all:
  assumes "list_all range_ok (map fst obs)" "engine_inv cf s" "config_ok cf" "names_all_ok mk cf obs s"
    and "latched k n s" "k = host @ [CHR 0x00] @ Interface cf" "CHR 0x00 \<notin> set (Interface cf)"
    and "\<forall>ob \<in> set (map snd obs). \<not> restores cf k (ObsMessage ob)"
  shows "latched k n (observe_all mk cf obs s)"
  using assms
  by (induction mk cf obs s rule: observe_all.induct) (simp_all add: observeLocked_inv latched_observed)

lemma latched_rest [simp]:
  "latched k n (s\<lparr>Cursors := x\<rparr>) = latched k n s" "latched k n (s\<lparr>Bootstrapped := b\<rparr>) = latched k n s"
  "latched k n (s\<lparr>LastCheckpointAt := t\<rparr>) = latched k n s" "latched k n (s\<lparr>Jobs := j\<rparr>) = latched k n s"
  by (simp_all add: latched_def)

lemma mark_latched [simp]: "latched k n (state (fst (mark out i f sv))) = latched k n (state sv)"
  by (auto simp: mark_cases Let_def split: option.split)

fun taken_messages :: "engine_event \<Rightarrow> Message list" where
  "taken_messages (Observed ord out m eligible) = [m]"
| "taken_messages (Applied out obs cursors t) = map (ObsMessage \<circ> snd) obs"
| "taken_messages _ = []"

lemma latched_advanced:
  assumes "range_ok ord" "engine_inv cf s" "latched k n s"
  shows "latched k n (fst (advanceLocked cf ord now s))"
proof -
  obtain c where "map_of (Trackers s) k = Some c" "Phase c = phaseActive" "ReachabilityDown c" "TrackedID c = n"
    using assms(3) by (auto simp: latched_def)
  then show ?thesis
    using advance_keeps_idle[OF assms(1) engine_inv_trackers_ok[OF assms(2)], of k c cf now]
    by (auto simp: latched_def pending_def)
qed

lemma latched_step:
  assumes "service_inv sv" "engine_allowed mk sv ev" "latched k n (state sv)"
    and "k = host @ [CHR 0x00] @ Interface (cfg sv)" "CHR 0x00 \<notin> set (Interface (cfg sv))"
    and "\<forall>m \<in> set (taken_messages ev). \<not> restores (cfg sv) k m"
  shows "latched k n (state (engine_step mk ev sv))"
proof (cases ev)
  case (Ticked ord out now)
  with assms latched_advanced[of ord "cfg sv" "state sv" k n now] show ?thesis
    by (auto simp: service_inv_def engine_allowed_def Tick_def Let_def split: prod.split)
qed (use assms in \<open>simp_all add: engine_allowed_def service_inv_def Observe_def Apply_def SetCursors_def
        MarkNotificationSent_def MarkNotificationFailed_def latched_observed latched_observed_all\<close>)

lemma step_cfg [simp]: "cfg (engine_step mk ev sv) = cfg sv"
  by (cases ev) (auto simp: Observe_def Apply_def Tick_def SetCursors_def MarkNotificationSent_def
      MarkNotificationFailed_def mark_cases Let_def split: prod.split option.split)

lemma latched_run:
  assumes "service_inv sv" "allowed_run (engine_step mk) (engine_allowed mk) es sv" "latched k n (state sv)"
    and "k = host @ [CHR 0x00] @ Interface (cfg sv)" "CHR 0x00 \<notin> set (Interface (cfg sv))"
    and "\<forall>ev \<in> set es. \<forall>m \<in> set (taken_messages ev). \<not> restores (cfg sv) k m"
  shows "latched k n (state (run (engine_step mk) es sv))"
  using assms
proof (induction es arbitrary: sv)
  case (Cons ev es)
  have "latched k n (state (engine_step mk ev sv))"
    using Cons.prems by (intro latched_step[of sv mk ev k n host]) auto
  then show ?case
    using Cons.prems Cons.IH[of "engine_step mk ev sv"] service_inv_step[of sv mk ev] by simp
qed simp

text \<open>Once the router has said that the primary is unreachable, only the router saying that it is
  reachable ends the outage. Whatever else happens, from messages that the interface is up to ticks,
  restarts of the checkpoint and deliveries, the incident stays active.\<close>

theorem unreachable_primary_stays_down:
  assumes "service_reachable mk sv" "k = host @ [CHR 0x00] @ Interface (cfg sv)"
    and "CHR 0x00 \<notin> set (Interface (cfg sv))"
    and "map_of (Trackers (state sv)) k = Some c" "Phase c = phaseActive" "ReachabilityDown c"
    and "allowed_run (engine_step mk) (engine_allowed mk) es sv"
    and "\<forall>ev \<in> set es. \<forall>m \<in> set (taken_messages ev). \<not> restores (cfg sv) k m"
  shows "\<exists>i. map_of (Incidents (state (run (engine_step mk) es sv))) (TrackedID c) = Some i
           \<and> key_of i = k \<and> IncState i = StateActive \<and> ResolvedAt i = None"
proof -
  let ?sv = "run (engine_step mk) es sv"
  have inv: "engine_inv (cfg ?sv) (state ?sv)"
    using reachable_inv[OF reach_run[OF assms(1,7)]] by simp
  have "service_inv sv" using reachable_inv[OF assms(1)] by (simp add: service_inv_def)
  moreover have "latched k (TrackedID c) (state sv)" using assms(4-6) by (auto simp: latched_def)
  ultimately have "latched k (TrackedID c) (state ?sv)"
    using latched_run[of sv mk es k "TrackedID c" host] assms(2,3,7,8) by simp
  then obtain c' where c': "map_of (Trackers (state ?sv)) k = Some c'" "Phase c' = phaseActive" "TrackedID c' = TrackedID c"
    by (auto simp: latched_def)
  moreover have "linked (map_of (Trackers (state ?sv))) (map_of (Incidents (state ?sv)))"
    using inv by (simp add: engine_inv_def)
  ultimately obtain i where "map_of (Incidents (state ?sv)) (TrackedID c') = Some i" "key_of i = k" "tracked c' i"
    using linked_busy[of _ _ k c'] by (auto simp: busy_def)
  with c' \<open>linked _ _\<close> show ?thesis
    using linked_id[of _ _ "TrackedID c'" i] by (auto simp: tracked_def incident_ok_def)
qed

text \<open>The router says that its primary is unreachable; a minute later \<open>netifd\<close> says it is up.\<close>

definition unreachable :: "engine_event list" where
  "unreachable =
     [Applied None [seen (syslog ''a'' 100 ''gl-repeater'' ''(repeater.lua:7) interface wan status offline'')] [] 130,
      Ticked listed None 200]"

lemma unreachable_reachable: "service_reachable sample_mk (service_run unreachable)"
proof (rule service_run_reachable)
  show "list_all (\<lambda>e. set (orders e) \<subseteq> {listed}) unreachable"
    by (simp add: unreachable_def seen_def)
  show "allowed_run (engine_step sample_mk) (names_new sample_mk) unreachable new_service"
    by code_simp
qed

theorem unreachable_primary_stays_down_witness:
  "\<exists>i. map_of (Incidents (state (service_run (unreachable @ [Applied None [seen (comes_up ''b'' 260 ''wan'')] [] 270,
          Ticked listed None 400])))) ''router/wan/a'' = Some i
     \<and> IncState i = StateActive"
proof -
  let ?sv = "service_run unreachable" and ?k = "''router'' @ [CHR 0x00] @ ''wan''"
    and ?es = "[Applied None [seen (comes_up ''b'' 260 ''wan'')] [] 270, Ticked listed None 400]"
  define c where "c = the (map_of (Trackers (state ?sv)) ?k)"
  have "map_of (Trackers (state ?sv)) ?k \<noteq> None" by code_simp
  then have c: "map_of (Trackers (state ?sv)) ?k = Some c" by (auto simp: c_def)
  have c': "Phase c = phaseActive" "ReachabilityDown c" "TrackedID c = ''router/wan/a''"
    unfolding c_def by code_simp+
  have cf: "Interface (cfg ?sv) = ''wan''" by code_simp
  have "allowed_run (engine_step sample_mk) (names_new sample_mk) ?es ?sv" by code_simp
  then have "allowed_run (engine_step sample_mk) (engine_allowed sample_mk) ?es ?sv"
    unfolding engine_allowed_def[abs_def] allowed_run_split by (simp add: seen_def)
  moreover have "\<not> restores (cfg ?sv) ?k (comes_up ''b'' 260 ''wan'')" by code_simp
  then have "\<forall>ev \<in> set ?es. \<forall>m \<in> set (taken_messages ev). \<not> restores (cfg ?sv) ?k m"
    by (simp add: seen_def)
  ultimately have "\<exists>i. map_of (Incidents (state (run (engine_step sample_mk) ?es ?sv))) (TrackedID c) = Some i
      \<and> key_of i = ?k \<and> IncState i = StateActive \<and> ResolvedAt i = None"
    using unreachable_primary_stays_down[OF unreachable_reachable, of ?k "''router''" c ?es] c c' cf by simp
  then show ?thesis
    using c'(3) by (auto simp: service_run_def run_append)
qed

section \<open>Jobs\<close>

definition visits_all :: "job_order \<Rightarrow> bool" where
  "visits_all ord \<longleftrightarrow> (\<forall>m. mset (ord m) = mset m)"

lemma visits_set: "visits_all ord \<Longrightarrow> set (ord m) = set m"
  by (metis set_mset_mset visits_all_def)

lemma due_in_jobs:
  "visits_all ord \<Longrightarrow> j \<in> set (DueNotifications ord now sv) \<Longrightarrow>
   \<exists>k. (k, j) \<in> set (Jobs (state sv)) \<and> waiting j \<and> NextAt j \<le> now"
  by (auto simp: DueNotifications_def visits_set)

section \<open>Checkpoints\<close>

text \<open>What the state of a service that was never given another's snapshot looks like.\<close>

definition versions_ok :: "Snapshot \<Rightarrow> bool" where
  "versions_ok s \<longleftrightarrow> Version s = 1 \<and> (\<forall>n i. map_of (Incidents s) n = Some i \<longrightarrow> RuleVersion i = 3)"

lemma versions_rest [simp]:
  "versions_ok (s\<lparr>Trackers := y\<rparr>) = versions_ok s" "versions_ok (s\<lparr>Jobs := j\<rparr>) = versions_ok s"
  "versions_ok (s\<lparr>Cursors := z\<rparr>) = versions_ok s" "versions_ok (s\<lparr>Bootstrapped := b\<rparr>) = versions_ok s"
  "versions_ok (s\<lparr>LastCheckpointAt := t\<rparr>) = versions_ok s"
  by (simp_all add: versions_ok_def)

lemma versions_update [simp]:
  "versions_ok s \<Longrightarrow> RuleVersion i = 3 \<Longrightarrow> versions_ok (s\<lparr>Incidents := AList.update n i (Incidents s)\<rparr>)"
  "versions_ok s \<Longrightarrow> versions_ok (s\<lparr>Incidents := AList.delete n (Incidents s)\<rparr>)"
  by (auto simp: versions_ok_def update_conv' delete_conv')

lemma versions_jobs [simp]:
  "versions_ok (add_job j s) = versions_ok s" "versions_ok (enqueueLocked i k t s) = versions_ok s"
  "versions_ok (enqueueFallbackEscalationLocked i p t s) = versions_ok s"
  by (simp_all add: enqueueLocked_def enqueueFallbackEscalationLocked_def add_job_def split: option.split)

lemma versions_escalate [simp]: "versions_ok (escalateFallbacksLocked cf ord h p t s) = versions_ok s"
proof -
  have "versions_ok (fold (\<lambda>(k, i) s. if escalates cf h i
      then enqueueFallbackEscalationLocked (IncID i) p t s else s) xs s) = versions_ok s" for xs
    by (induction xs arbitrary: s) (simp_all add: split_beta)
  then show ?thesis by (simp add: escalateFallbacksLocked_def)
qed

lemma versions_touch:
  "versions_ok s \<Longrightarrow> (\<And>i. RuleVersion (f i) = RuleVersion i) \<Longrightarrow> versions_ok (touch c f s)"
  by (auto simp: touch_def versions_ok_def update_conv' split: option.split)

lemma versions_due: "versions_ok s \<Longrightarrow> versions_ok (advance_due cf ord k c s)"
proof (cases "map_of (Incidents s) (TrackedID c)")
  case (Some i)
  assume "versions_ok s"
  moreover from this Some have "RuleVersion i = 3" by (simp add: versions_ok_def)
  ultimately show ?thesis
    by (auto simp: advance_due_def activate_def resolve_def Let_def Some split: option.split)
qed (simp add: advance_due_def)

lemma versions_advance: "versions_ok s \<Longrightarrow> versions_ok (fst (advanceLocked cf ord now s))"
  by (rule advance_inv) (auto simp: advance_round_def versions_due split: option.split)

lemma versions_take: "versions_ok s \<Longrightarrow> versions_ok (snd (take_evidence mk cf e eligible s))"
  by (simp add: take_evidence_def came_up_def went_down_def Let_def started_def add_evidence_def
      versions_touch split: phase.split)

lemma versions_observe: "versions_ok s \<Longrightarrow> versions_ok (observeLocked mk cf ord m eligible ref s)"
  using versions_take[OF versions_advance]
  by (auto simp: observeLocked_def observe_evidence_cases Let_def versions_advance split: option.split prod.split)
    (metis snd_conv)

lemma versions_observe_all: "versions_ok s \<Longrightarrow> versions_ok (observe_all mk cf obs s)"
  by (induction mk cf obs s rule: observe_all.induct) (simp_all add: versions_observe)

lemma versions_mark: "versions_ok (state (fst (mark out i f sv))) = versions_ok (state sv)"
  by (auto simp: mark_cases Let_def split: option.split)

lemma versions_step: "versions_ok (state sv) \<Longrightarrow> versions_ok (state (engine_step mk ev sv))"
proof (cases ev)
  case (Ticked ord out now)
  assume "versions_ok (state sv)"
  from versions_advance[OF this, of "cfg sv" ord now] Ticked show ?thesis
    by (auto simp: Tick_def Let_def split: prod.split)
qed (simp_all add: Observe_def Apply_def SetCursors_def MarkNotificationSent_def MarkNotificationFailed_def
      versions_observe versions_observe_all versions_mark)

lemma saved_or_kept:
  "store (engine_step mk ev sv) = store sv \<or> store (engine_step mk ev sv) = Some (state (engine_step mk ev sv))"
  by (cases ev) (auto simp: Observe_def Apply_def Tick_def SetCursors_def MarkNotificationSent_def
      MarkNotificationFailed_def mark_cases saveLocked_def Let_def split: prod.split option.split)

lemma step_persistent [simp]: "persistent (engine_step mk ev sv) = persistent sv"
  by (cases ev) (auto simp: Observe_def Apply_def Tick_def SetCursors_def MarkNotificationSent_def
      MarkNotificationFailed_def mark_cases saveLocked_def Let_def split: prod.split option.split)

text \<open>A process that starts with an empty store.\<close>

definition first_start :: "Service \<Rightarrow> bool" where
  "first_start sv \<longleftrightarrow> (\<exists>c. New c True None = Inr sv)"

abbreviation first_process ::
  "(string \<Rightarrow> string \<Rightarrow> time \<Rightarrow> string \<Rightarrow> string) \<Rightarrow> Service \<Rightarrow> bool" where
  "first_process mk \<equiv> reach first_start (engine_step mk) (engine_allowed mk)"

lemma first_process_reachable: "first_process mk sv \<Longrightarrow> service_reachable mk sv"
  by (induction rule: reach.induct) (auto simp: first_start_def service_start_def intro: reach.intros)

lemma new_fields:
  "New c p d = Inr sv \<Longrightarrow> versions_ok (state sv) \<and> persistent sv = p \<and> store sv = d \<and> Interface (cfg sv) \<noteq> []
    \<and> 0 < DownAfter (cfg sv) \<and> 0 < RecoveredAfter (cfg sv)"
  by (auto simp: New_def Let_def versions_ok_def empty_snapshot_def split: if_splits)

lemma first_process_inv:
  "first_process mk sv \<Longrightarrow> versions_ok (state sv) \<and> persistent sv \<and> Interface (cfg sv) \<noteq> []
     \<and> 0 < DownAfter (cfg sv) \<and> 0 < RecoveredAfter (cfg sv)"
  by (induction rule: reach.induct) (auto simp: first_start_def versions_step dest: new_fields)

lemma store_was_state:
  "first_process mk sv \<Longrightarrow> store sv = Some snap \<Longrightarrow>
   \<exists>w. first_process mk w \<and> cfg w = cfg sv \<and> state w = snap \<and> store w = Some snap"
proof (induction rule: reach.induct)
  case (start sv)
  then show ?case by (auto simp: first_start_def dest: new_fields)
next
  case (step sv ev)
  then show ?case
    using saved_or_kept[of mk ev sv] reach.step[OF step.hyps] by auto
qed

lemma load_restores:
  assumes "versions_ok snap" "persistent sv"
  shows "Load (Inr snap) sv = (sv\<lparr>state := snap\<rparr>, None)"
proof -
  have "map_prod id (migrate_tracker (Incidents snap)) x = x" for x
    using assms(1) by (cases x) (auto simp: migrate_tracker_def versions_ok_def split: option.split)
  then have "map (map_prod id (migrate_tracker (Incidents snap))) (Trackers snap) = Trackers snap"
    by (intro map_idI)
  with assms show ?thesis by (simp add: Load_def versions_ok_def initializeSnapshot_def)
qed

text \<open>Whenever the process dies, what is in its store is the whole state it had after one of its saves,
  and a new process that loads it is exactly the service of that moment: nothing is lost from that
  checkpoint, nothing of a later one is in it, and saves that failed left no trace.\<close>

theorem restart_from_checkpoint:
  assumes "first_process mk sv" "store sv = Some snap"
  shows "\<exists>w fresh. first_process mk w \<and> cfg w = cfg sv \<and> state w = snap \<and> store w = Some snap
           \<and> New (cfg sv) True (Some snap) = Inr fresh \<and> Load (Inr snap) fresh = (w, None)"
proof -
  obtain w where w: "first_process mk w" "cfg w = cfg sv" "state w = snap" "store w = Some snap"
    using store_was_state[OF assms] by blast
  note facts = first_process_inv[OF w(1)]
  define fresh where "fresh = \<lparr>cfg = cfg sv, persistent = True, state = empty_snapshot, store = Some snap\<rparr>"
  have "New (cfg sv) True (Some snap) = Inr fresh"
    using facts w(2) by (simp add: New_def fresh_def)
  moreover have "Load (Inr snap) fresh = (w, None)"
    using load_restores[of snap fresh] facts w by (simp add: fresh_def)
  ultimately show ?thesis using w by blast
qed

lemma outage_first: "first_process sample_mk (service_run outage)"
proof -
  have "first_start new_service"
    unfolding first_start_def
    by (rule exI[of _ sample_config]) (simp add: new_service_def New_def sample_config_def)
  moreover have "list_all (\<lambda>e. list_all range_ok (orders e)) outage"
    by (simp add: outage_def seen_def)
  moreover have "allowed_run (engine_step sample_mk) (names_new sample_mk) outage new_service"
    by code_simp
  ultimately show ?thesis
    unfolding service_run_def engine_allowed_def[abs_def]
    by (intro reach_run[OF reach.start]) (simp_all add: allowed_run_split)
qed

text \<open>The process that saw both outages, restarted.\<close>

theorem restart_from_checkpoint_witness:
  "\<exists>w fresh. New sample_config True (Some (state (service_run outage))) = Inr fresh
     \<and> Load (Inr (state (service_run outage))) fresh = (w, None) \<and> length (Incidents (state w)) = 2"
proof -
  have s: "store (service_run outage) = Some (state (service_run outage))" by code_simp
  have "length (Incidents (state (service_run outage))) = 2" by code_simp
  moreover have "cfg (service_run outage) = sample_config" by code_simp
  ultimately show ?thesis
    using restart_from_checkpoint[OF outage_first s] by metis
qed

section \<open>Lists of incidents\<close>

definition matching :: "State option \<Rightarrow> Service \<Rightarrow> Incident set" where
  "matching q sv = {i. (\<exists>k. (k, i) \<in> set (Incidents (state sv))) \<and> (q = None \<or> q = Some (IncState i))}"

text \<open>The list before it is cut into pages.\<close>

definition newest_first :: "range_order \<Rightarrow> State option \<Rightarrow> Service \<Rightarrow> Incident list" where
  "newest_first ord q sv =
     sort_key (\<lambda>i. - StartedAt i)
       (filter (\<lambda>i. q = None \<or> q = Some (IncState i)) (map snd (over_incidents ord (Incidents (state sv)))))"

lemma newest_first_set: "range_ok ord \<Longrightarrow> set (newest_first ord q sv) = matching q sv"
  by (force simp: newest_first_def matching_def range_set_incidents)

lemma newest_first_distinct:
  assumes "service_reachable mk sv" "range_ok ord"
  shows "distinct (map IncID (newest_first ord q sv))"
proof -
  let ?I = "Incidents (state sv)"
  have ids: "IncID i = k" if "(k, i) \<in> set ?I" for k i
    using reachable_inv[OF assms(1)] linked_id that by (auto simp: engine_inv_def keyed_def)
  have "distinct (map fst ?I)"
    using reachable_inv[OF assms(1)] by (simp add: engine_inv_def keyed_def)
  moreover have "map fst ?I = map (IncID \<circ> snd) ?I"
    using ids by (intro map_cong) auto
  ultimately have "distinct (map IncID (map snd ?I))" by simp
  moreover have "mset (map IncID (map snd (over_incidents ord ?I))) = mset (map IncID (map snd ?I))"
    using assms(2) by (simp add: range_ok_def)
  ultimately have "distinct (map IncID (map snd (over_incidents ord ?I)))"
    by (metis mset_eq_imp_distinct_iff)
  then have inj: "distinct (map snd (over_incidents ord ?I))" "inj_on IncID (set (map snd (over_incidents ord ?I)))"
    by (simp_all only: distinct_map)
  show ?thesis
    unfolding newest_first_def distinct_map
    using inj by (auto simp: distinct_filter intro: inj_on_subset)
qed

lemma newest_first_unique:
  assumes "range_ok ord" "range_ok ord'" "inj_on StartedAt (matching q sv)"
  shows "newest_first ord q sv = newest_first ord' q sv"
proof -
  let ?f = "\<lambda>ord. filter (\<lambda>i. q = None \<or> q = Some (IncState i)) (map snd (over_incidents ord (Incidents (state sv))))"
  have "set (?f ord) = matching q sv"
    using newest_first_set[OF assms(1)] by (simp add: newest_first_def)
  moreover have "inj_on (\<lambda>i. - StartedAt i) (matching q sv)"
    using assms(3) by (auto simp: inj_on_def)
  moreover have "mset (?f ord) = mset (?f ord')"
    using assms(1,2) by (simp add: range_ok_def mset_filter)
  ultimately show ?thesis
    unfolding newest_first_def by (intro sort_key_unique) simp_all
qed

lemma list_is_slice:
  "List_incidents ord q sv =
     (let xs = newest_first ord (QueryState q) sv; xs = drop (nat (QueryOffset q)) xs
      in if 0 < QueryLimit q then take (nat (QueryLimit q)) xs else xs)"
proof -
  let ?xs = "newest_first ord (QueryState q) sv"
  have "take (nat (stop - start)) (drop (nat start) ?xs) =
      (if 0 < lim then take (nat lim) (drop (nat start) ?xs) else drop (nat start) ?xs)"
    if "start < int (length ?xs)" "0 \<le> start"
      "stop = (if 0 < lim \<and> start + lim < int (length ?xs) then start + lim else int (length ?xs))" for start stop lim
    using that by (auto simp: nat_le_iff intro!: take_all)
  note slice = this
  show ?thesis
  proof (cases "int (length ?xs) \<le> max 0 (QueryOffset q)")
    case True
    then show ?thesis by (auto simp: List_incidents_def newest_first_def Let_def max_def split: if_splits)
  next
    case False
    then have "max 0 (QueryOffset q) < int (length ?xs)" by linarith
    from slice[OF this _ refl, of "QueryLimit q"] False show ?thesis
      by (auto simp: List_incidents_def newest_first_def Let_def max_def split: if_splits)
  qed
qed

lemma strictly_newest:
  fixes f :: "'a \<Rightarrow> int"
  shows "sorted_wrt (\<lambda>i j. f j \<le> f i) xs \<Longrightarrow> distinct (map f xs) \<Longrightarrow> sorted_wrt (\<lambda>i j. f j < f i) xs"
proof (induction xs)
  case (Cons a xs)
  then have "f a \<notin> f ` set xs" by simp
  then have "f x \<noteq> f a" if "x \<in> set xs" for x using imageI[OF that, of f] by metis
  with Cons show ?case by (auto simp: order_le_less)
qed simp

text \<open>Pages of incidents are pages of one list. As long as no two matching incidents started at the same
  instant, the list without a limit holds every matching incident once, newest first, and any page,
  asked for at any offset and in whatever order Go visits the map, is the slice of it at that offset.\<close>

theorem pages_of_one_list:
  assumes "service_reachable mk sv" "range_ok ord" "range_ok ord'" "inj_on StartedAt (matching q sv)"
  defines "everything \<equiv> List_incidents ord \<lparr>QueryState = q, QueryLimit = 0, QueryOffset = 0\<rparr> sv"
  shows "set everything = matching q sv \<and> distinct everything
       \<and> sorted_wrt (\<lambda>i j. StartedAt j < StartedAt i) everything
       \<and> (\<forall>lim off. 0 < lim \<and> 0 \<le> off \<longrightarrow>
            List_incidents ord' \<lparr>QueryState = q, QueryLimit = lim, QueryOffset = off\<rparr> sv
            = take (nat lim) (drop (nat off) everything))"
proof -
  have all: "everything = newest_first ord q sv"
    by (simp add: everything_def list_is_slice)
  have dist: "distinct everything"
    using newest_first_distinct[OF assms(1,2)] by (simp add: all distinct_map)
  have "sorted_wrt (\<lambda>i j. - StartedAt i \<le> - StartedAt j) everything"
    using sorted_sort_key[of "\<lambda>i. - StartedAt i"] by (simp add: all newest_first_def sorted_map)
  moreover have "inj_on StartedAt (set everything)"
    using assms(4) newest_first_set[OF assms(2)] by (simp add: all)
  ultimately have "sorted_wrt (\<lambda>i j. StartedAt j < StartedAt i) everything"
    using dist strictly_newest[of StartedAt everything] by (simp add: distinct_map)
  moreover have "List_incidents ord' \<lparr>QueryState = q, QueryLimit = lim, QueryOffset = off\<rparr> sv
      = take (nat lim) (drop (nat off) everything)" if "0 < lim \<and> 0 \<le> off" for lim off
    using that newest_first_unique[OF assms(2,3,4)] by (simp add: list_is_slice all)
  ultimately show ?thesis
    using dist newest_first_set[OF assms(2)] by (simp add: all)
qed

text \<open>The two outages, one on each page.\<close>

theorem pages_of_one_list_witness:
  "List_incidents listed \<lparr>QueryState = None, QueryLimit = 1, QueryOffset = 1\<rparr> (service_run outage)
   = [last (List_incidents listed \<lparr>QueryState = None, QueryLimit = 0, QueryOffset = 0\<rparr> (service_run outage))]"
proof -
  let ?sv = "service_run outage"
  have "map (StartedAt \<circ> snd) (Incidents (state ?sv)) = [100, 120]" by code_simp
  then obtain a b where ab: "Incidents (state ?sv) = [a, b]" "StartedAt (snd a) = 100" "StartedAt (snd b) = 120"
    by (auto simp: map_eq_Cons_conv)
  then have "inj_on StartedAt (matching None ?sv)"
    by (auto simp: matching_def inj_on_def)
  from pages_of_one_list[OF outage_reachable listed_ok listed_ok this]
  have "List_incidents listed \<lparr>QueryState = None, QueryLimit = 1, QueryOffset = 1\<rparr> ?sv
      = take 1 (drop 1 (List_incidents listed \<lparr>QueryState = None, QueryLimit = 0, QueryOffset = 0\<rparr> ?sv))"
    by simp
  moreover have "length (List_incidents listed \<lparr>QueryState = None, QueryLimit = 0, QueryOffset = 0\<rparr> ?sv) = 2"
    by code_simp
  ultimately show ?thesis
    by (auto simp: numeral_2_eq_2 length_Suc_conv)
qed

end
