(* ===== verification/Outage_Page.thy ===== *)
theory Outage_Page
  imports Api_Properties Service_Properties App_View
begin

text \<open>
  The page's requests for incidents answered by \<open>handleIncidents\<close> from the analyser, the JSON between
  the two, and what the page shows of it.
\<close>

section \<open>Incidents, from the analyser to the page\<close>

text \<open>
  The JSON the server writes for an incident is the value \<open>types.ts\<close> describes: the field tags of
  \<open>Incident\<close> and \<open>NotificationJob\<close> name the properties, a field with \<open>omitempty\<close> is left out when it is
  empty, and instants are texts by the parameter \<open>written\<close>.
\<close>

definition omit_empty :: "'a list \<Rightarrow> 'a list option" where
  "omit_empty xs = (if xs = [] then None else Some xs)"

fun wire_kind :: "NotificationKind \<Rightarrow> delivery_kind" where
  "wire_kind NotificationOpened = incident_opened"
| "wire_kind NotificationResolved = incident_resolved"
| "wire_kind NotificationFallbackOpened = fallback_opened"
| "wire_kind NotificationFallbackResolved = fallback_resolved"
| "wire_kind NotificationFallbackEscalated = fallback_escalated"

fun wire_state :: "State \<Rightarrow> incident_state" where
  "wire_state StatePendingFailure = pending_failure"
| "wire_state StateActive = active"
| "wire_state StatePendingRecovery = pending_recovery"
| "wire_state StateResolved = resolved"

definition wire_delivery :: "(time \<Rightarrow> string) \<Rightarrow> NotificationJob \<Rightarrow> NotificationDelivery" where
  "wire_delivery written j =
     \<lparr>delivery_id = JobID j, kind = wire_kind (JobKind j), attempts = JobAttempts j,
      last_error = omit_empty (JobLastError j), sent_at = map_option written (SentAt j),
      adapter = omit_empty (JobAdapter j), permanent = (if JobPermanent j then Some True else None)\<rparr>"

definition wire_incident :: "(time \<Rightarrow> string) \<Rightarrow> incidentResponse \<Rightarrow> Wire_Types.Incident" where
  "wire_incident written r =
     (let i = TheIncident r
      in \<lparr>incident_id = IncID i, rule_version = RuleVersion i, incident_hostname = IncHostname i,
          interface = IncInterface i, Wire_Types.Incident.state = wire_state (IncState i), started_at = written (StartedAt i),
          activated_at = map_option written (ActivatedAt i),
          recovery_first_at = map_option written (RecoveryFirstAt i),
          resolved_at = map_option written (ResolvedAt i), last_evidence_at = written (IncLastEvidenceAt i),
          evidence_ids = EvidenceIDs i, evidence_refs = omit_empty (EvidenceRefs i),
          down_after = IncDownAfter i, recovered_after = IncRecoveredAfter i,
          deliveries = map (wire_delivery written) (Deliveries r)\<rparr>)"

definition wire_meta :: "messagesMeta \<Rightarrow> meta" where
  "wire_meta m = \<lparr>count = Count m, meta_limit = MetaLimit m, meta_offset = MetaOffset m, has_more = HasMore m\<rparr>"

definition wire_incidents :: "(time \<Rightarrow> string) \<Rightarrow> incidentsResponse \<Rightarrow> IncidentsResponse" where
  "wire_incidents written r =
     \<lparr>incidents_data = map (wire_incident written) (IncidentData r), incidents_meta = wire_meta (IncidentMeta r)\<rparr>"

text \<open>The response a reply is written as; \<open>refusal\<close> stands for the \<open>error\<close> of a refusal.\<close>

definition replied :: "('a \<Rightarrow> 'b) \<Rightarrow> string \<Rightarrow> 'a reply \<Rightarrow> 'b response" where
  "replied f refusal out =
     \<lparr>status = reply_status out,
      json = (case out of Answer a \<Rightarrow> Inr (f a) | _ \<Rightarrow> Inl NotAnError),
      json_error = (case out of Answer a \<Rightarrow> None | _ \<Rightarrow> Some refusal)\<rparr>"

definition listed_incidents ::
  "(time \<Rightarrow> string) \<Rightarrow> range_order \<Rightarrow> job_order \<Rightarrow> string \<Rightarrow> Service \<Rightarrow> incident_filter
   \<Rightarrow> js_error + IncidentsResponse" where
  "listed_incidents written ord jobs refusal sv c =
     checkedJSON (replied (wire_incidents written) refusal
       (handleIncidents ord jobs (query_of (url (listIncidents_request c))) (Some sv)))"

lemma take_at_most: "take (nat (min 100 (int (length xs)))) xs = take 100 xs"
  by (auto simp: min_def)

lemma listed_incidents_are:
  defines "chosen c ord sv \<equiv> filter (state_selected (filter_text c)) (newest_first ord None sv)"
  shows "\<exists>m. listed_incidents written ord jobs refusal sv c =
      Inr \<lparr>incidents_data = map (\<lambda>i. wire_incident written (response_of jobs sv i)) (take 100 (chosen c ord sv)),
           incidents_meta = m\<rparr>"
proof -
  let ?vs = "[(''state'', filter_text c), (''limit'', ''100'')]"
  have vs: "query_of (url (listIncidents_request c)) = ?vs"
    using query_of_path[of "''/api/v1/incidents''" "serialize ?vs"] by (simp add: listIncidents_request_def)
  have "parsePagination ?vs 100 1000 = Inr (100, 0)"
    by (cases c; hypsubst; code_simp)
  moreover have "go_trim (values_get ?vs ''state'') = filter_text c"
    by (cases c; hypsubst; code_simp)
  moreover have "filter_text c \<in> {[], ''pending_failure'', ''active'', ''resolved''}"
    by (cases c) simp_all
  ultimately show ?thesis
    by (simp add: listed_incidents_def handleIncidents_def vs chosen_def list_is_slice Let_def replied_def
        checkedJSON_def ok_def wire_incidents_def take_at_most o_def)
qed

lemma state_classes:
  "state_selected (filter_text Only_pending_failure) = (\<lambda>i. IncState i = StatePendingFailure)"
  "state_selected (filter_text Only_active) = (\<lambda>i. IncState i \<in> {StateActive, StatePendingRecovery})"
  "state_selected (filter_text Only_resolved) = (\<lambda>i. IncState i = StateResolved)"
  by (auto simp: state_selected_def fun_eq_iff)

lemma unresolved_iff:
  "IncState i \<noteq> StateResolved \<longleftrightarrow> IncState i \<in> {StateActive, StatePendingRecovery} \<or> IncState i = StatePendingFailure"
  by (cases "IncState i") simp_all

lemma wire_state_iff:
  "wire_state st = pending_failure \<longleftrightarrow> st = StatePendingFailure" "wire_state st = active \<longleftrightarrow> st = StateActive"
  "wire_state st = pending_recovery \<longleftrightarrow> st = StatePendingRecovery" "wire_state st = resolved \<longleftrightarrow> st = StateResolved"
  by (cases st; simp)+

lemma wire_incident_fields [simp]:
  "Wire_Types.Incident.state (wire_incident written (response_of jobs sv i)) = wire_state (IncState i)"
  "incident_id (wire_incident written (response_of jobs sv i)) = IncID i"
  by (simp_all add: wire_incident_def response_of_def Let_def)

lemma promise_all_kept: "promise_all ended (Inr p) (Inr a) (Inr r) (Inr h) = Inr (p, a, r, h)"
proof -
  have "find (\<lambda>x. x \<noteq> None) (map (\<lambda>i. [None, None, None, None] ! i) (filter (\<lambda>i. i < 4) ended)
      @ [None, None, None, None :: js_error option]) = None"
    by (auto simp: find_None_iff nth_Cons' split: if_splits)
  then show ?thesis
    by (simp add: promise_all_def rejection_def Let_def)
qed

text \<open>C7: Outages reach the page, the newest hundred of each kind. When the analyser answers the page's three lists,
  each from the state it is in then, the page shows as current the hundred newest active incidents and after them the
  hundred newest ones that wait to be confirmed, as history the hundred newest resolved ones in the analyser's order,
  and no load error stays. So when the two current lists were answered from one state that has at most a hundred
  incidents of either kind, the current outages shown are exactly the unresolved incidents, each once. The order in
  which the requests end and in which Go visits its maps does not matter.\<close>

theorem outages_reach_the_page:
  fixes written :: "time \<Rightarrow> string" and jobs :: job_order and refusal :: string and ended :: "nat list"
    and health :: IncidentHealth and s :: app
  assumes "\<forall>c. service_reachable mk (sv c)" "\<forall>c. range_ok (ord c)"
  defines "answer c \<equiv> listed_incidents written (ord c) jobs refusal (sv c) c"
    and "shown c i \<equiv> wire_incident written (response_of jobs (sv c) i)"
    and "newest c \<equiv> take 100 (filter (state_selected (filter_text c)) (newest_first (ord c) None (sv c)))"
  defines "s' \<equiv> refreshIncidentsDone (promise_all ended (answer Only_pending_failure) (answer Only_active)
                    (answer Only_resolved) (Inr health)) s"
  shows "currentIncidents s' = map (shown Only_active) (newest Only_active)
                             @ map (shown Only_pending_failure) (newest Only_pending_failure)
       \<and> resolvedIncidents s' =
           map (shown Only_resolved) (take 100 (List_incidents (ord Only_resolved)
             \<lparr>QueryState = Some StateResolved, QueryLimit = 0, QueryOffset = 0\<rparr> (sv Only_resolved)))
       \<and> incidentLoadError s' = None
       \<and> (sv Only_pending_failure = sv Only_active
          \<and> card {i \<in> matching None (sv Only_active). IncState i = StatePendingFailure} \<le> 100
          \<and> card {i \<in> matching None (sv Only_active). IncState i \<in> {StateActive, StatePendingRecovery}} \<le> 100
          \<longrightarrow> set (currentIncidents s')
                = shown Only_active ` {i \<in> matching None (sv Only_active). IncState i \<noteq> StateResolved}
              \<and> distinct (map incident_id (currentIncidents s')))"
proof -
  define chosen where "chosen c = filter (state_selected (filter_text c)) (newest_first (ord c) None (sv c))" for c
  define m where "m c = incidents_meta (projr (answer c))" for c
  have answers: "answer c = Inr \<lparr>incidents_data = map (shown c) (newest c), incidents_meta = m c\<rparr>" for c
    using listed_incidents_are[of written "ord c" jobs refusal "sv c" c]
    unfolding m_def answer_def shown_def[abs_def] newest_def by auto
  have newest: "newest c = take 100 (chosen c)" for c by (simp add: newest_def chosen_def)
  have members: "set (chosen c) = {i \<in> matching None (sv c). state_selected (filter_text c) i}" for c
    using newest_first_set[of "ord c" None "sv c"] assms(2) by (auto simp: chosen_def)
  note classes = state_classes
  let ?P = "newest Only_pending_failure" and ?A = "newest Only_active" and ?R = "newest Only_resolved"
  have "incidents s' = map (shown Only_pending_failure) ?P @ map (shown Only_active) ?A @ map (shown Only_resolved) ?R"
    by (simp add: s'_def refreshIncidentsDone_def promise_all_kept answers Let_def)
  moreover have classed: "i \<in> set ?P \<Longrightarrow> IncState i = StatePendingFailure"
    "i \<in> set ?A \<Longrightarrow> IncState i = StateActive \<or> IncState i = StatePendingRecovery"
    "i \<in> set ?R \<Longrightarrow> IncState i = StateResolved" for i
    unfolding newest by (auto dest!: in_set_takeD simp: members classes[unfolded filter_text.simps])
  ultimately have page: "currentIncidents s' = map (shown Only_active) ?A @ map (shown Only_pending_failure) ?P"
      "resolvedIncidents s' = map (shown Only_resolved) ?R"
    by (auto simp: currentIncidents_def activeIncidents_def pendingIncidents_def resolvedIncidents_def
        filter_map o_def shown_def wire_state_iff filter_id_conv filter_empty_conv dest!: classed)
  have "set (currentIncidents s') = shown Only_active ` {i \<in> matching None (sv Only_active). IncState i \<noteq> StateResolved}
      \<and> distinct (map incident_id (currentIncidents s'))"
    if one: "sv Only_pending_failure = sv Only_active"
      and few: "card {i \<in> matching None (sv Only_active). IncState i = StatePendingFailure} \<le> 100"
        "card {i \<in> matching None (sv Only_active). IncState i \<in> {StateActive, StatePendingRecovery}} \<le> 100"
  proof -
    have ids: "distinct (map IncID (chosen c))" for c
      using newest_first_distinct[of mk "sv c" "ord c" None] assms(1,2) by (simp add: chosen_def distinct_map_filter)
    then have "distinct (chosen c)" for c by (simp add: distinct_map)
    then have len: "length (chosen c) = card {i \<in> matching None (sv c). state_selected (filter_text c) i}" for c
      using members by (metis distinct_card)
    have whole: "?P = chosen Only_pending_failure" "?A = chosen Only_active"
      using few unfolding newest by (intro take_all; simp only: len classes one)+
    have "shown Only_pending_failure = shown Only_active" by (simp add: shown_def[abs_def] one)
    then have both: "currentIncidents s' = map (shown Only_active) (?A @ ?P)" by (simp add: page)
    have "set (currentIncidents s') = shown Only_active ` {i \<in> matching None (sv Only_active). IncState i \<noteq> StateResolved}"
      unfolding both set_map set_append whole members classes one using unresolved_iff by blast
    moreover have "distinct (map incident_id (currentIncidents s'))"
    proof -
      have "inj_on IncID (matching None (sv Only_active))"
        using newest_first_distinct[of mk "sv Only_active" "ord Only_active" None]
          newest_first_set[of "ord Only_active" None "sv Only_active"] assms(1,2)
        by (simp add: distinct_map)
      then have "IncID i \<noteq> IncID j" if "i \<in> set ?A" "j \<in> set ?P" for i j
        using that classed(1)[OF that(2)] classed(2)[OF that(1)] inj_onD[of IncID _ i j]
        unfolding whole members one by fastforce
      then have "set (map IncID ?A) \<inter> set (map IncID ?P) = {}"
        by (simp only: set_map) blast
      then show ?thesis
        using ids by (simp add: both o_def shown_def whole)
    qed
    ultimately show ?thesis by blast
  qed
  moreover have "newest Only_resolved = take 100 (List_incidents (ord Only_resolved)
                  \<lparr>QueryState = Some StateResolved, QueryLimit = 0, QueryOffset = 0\<rparr> (sv Only_resolved))"
    unfolding newest chosen_def classes newest_first_def filter_sort list_is_slice
    by (simp add: eq_commute)
  moreover have "incidentLoadError s' = None"
    by (simp add: s'_def refreshIncidentsDone_def promise_all_kept answers Let_def)
  ultimately show ?thesis using page by simp
qed

text \<open>Two outages, of which one has been resolved.\<close>

theorem outages_reach_the_page_witness:
  "(let answer = listed_incidents dec listed id ''refused'' (service_run outage);
        s' = refreshIncidentsDone (promise_all [3, 2, 1, 0] (answer Only_pending_failure) (answer Only_active)
               (answer Only_resolved) (Inr \<lparr>running = True, stale = False, last_reconciled_at = None,
                 last_processed_at = None, health_error = None, pending_jobs = 1\<rparr>)) (initial Map.empty ''/incidents'')
    in map incident_id (currentIncidents s') = [''router/wwan/b''] \<and> length (resolvedIncidents s') = 1)"
proof -
  let ?sv = "service_run outage"
  have "map (\<lambda>(k, i). (IncID i, IncState i)) (Incidents (Service.state ?sv))
      = [(''router/wan/a'', StateResolved), (''router/wwan/b'', StateActive)]"
    by code_simp
  then obtain k i l j where ij: "Incidents (Service.state ?sv) = [(k, i), (l, j)]" "IncState i = StateResolved"
      "IncState j = StateActive" "IncID j = ''router/wwan/b''"
    by (auto simp: map_eq_Cons_conv)
  then have m: "matching None ?sv = {i, j}" by (auto simp: matching_def)
  then have unresolved: "{x \<in> matching None ?sv. IncState x \<noteq> StateResolved} = {j}"
    using ij by auto
  have "card {i, j} \<le> 2" using card_insert_le_m1[of 2 "{j}" i] by simp
  then have few: "card {x \<in> matching None ?sv. P x} \<le> 100" for P
    using card_mono[of "{i, j}" "{x \<in> {i, j}. P x}"] unfolding m by fastforce
  have one: "length (List_incidents listed \<lparr>QueryState = Some StateResolved, QueryLimit = 0, QueryOffset = 0\<rparr> ?sv) = 1"
    by code_simp
  have single: "xs = [x]" if "set xs = {x}" "distinct xs" for xs :: "string list" and x
    using that by (metis distinct_card length_Suc_conv card.empty card.insert One_nat_def empty_iff finite.emptyI insert_not_empty
        length_0_conv list.set_intros(1) set_empty singletonD)
  let ?answer = "listed_incidents dec listed id ''refused'' ?sv" and ?shown = "\<lambda>i. wire_incident dec (response_of id ?sv i)"
    and ?h = "\<lparr>running = True, stale = False, last_reconciled_at = None, last_processed_at = None, health_error = None, pending_jobs = 1\<rparr>"
  let ?s = "refreshIncidentsDone (promise_all [3, 2, 1, 0] (?answer Only_pending_failure) (?answer Only_active)
      (?answer Only_resolved) (Inr ?h)) (initial Map.empty ''/incidents'')"
  have reached: "\<forall>c :: incident_filter. service_reachable sample_mk ?sv" by (simp add: outage_reachable)
  have "\<forall>c :: incident_filter. range_ok listed" by (simp add: listed_ok)
  note page = outages_reach_the_page[OF reached this, where written = dec and jobs = id and refusal = "''refused''"
      and ended = "[3, 2, 1, 0]" and health = ?h and s = "initial Map.empty ''/incidents''"]
  from page have "set (currentIncidents ?s) = ?shown ` {j} \<and> distinct (map incident_id (currentIncidents ?s))"
    using few[of "\<lambda>i. IncState i = StatePendingFailure"] few[of "\<lambda>i. IncState i \<in> {StateActive, StatePendingRecovery}"]
    unfolding unresolved by blast
  then have "set (map incident_id (currentIncidents ?s)) = {''router/wwan/b''}" "distinct (map incident_id (currentIncidents ?s))"
    using ij(4) by simp_all
  then have "map incident_id (currentIncidents ?s) = [''router/wwan/b'']" by (rule single)
  moreover from page have "length (resolvedIncidents ?s) = 1" using one by simp
  ultimately show ?thesis by (simp add: Let_def)
qed

end
