(* ===== verification/Realtime_Hub.thy ===== *)
theory Realtime_Hub
  imports Store_Query
begin

text \<open>
  The live path: \<open>internal/realtime/hub.go\<close> (the hub and \<open>PublishingStore\<close>) and
  \<open>handleMessageStream\<close> of \<open>internal/api/router.go\<close>. A channel is its buffer and whether it
  was closed; what Go panics on is the absence of a result. The hub's mutex makes a publication one step, while
  the two halves of an unsubscription, the deletion and the closing, are two.
\<close>

section \<open>The hub\<close>

definition subscriberBuffer :: nat where
  "subscriberBuffer = 64"

record channel =
  buffer :: "Message list"
  closed :: bool

text \<open>Every channel that was made, and the numbers of those subscribed.\<close>

record Hub =
  channels :: "channel list"
  subscribers :: "nat list"

definition NewHub :: Hub where
  "NewHub = \<lparr>channels = [], subscribers = []\<rparr>"

definition Subscribe :: "Hub \<Rightarrow> Hub \<times> nat" where
  "Subscribe h =
     (let ch = length (channels h)
      in (h\<lparr>channels := channels h @ [\<lparr>buffer = [], closed = False\<rparr>], subscribers := subscribers h @ [ch]\<rparr>, ch))"

definition delete_subscriber :: "nat \<Rightarrow> Hub \<Rightarrow> Hub" where
  "delete_subscriber ch h = h\<lparr>subscribers := removeAll ch (subscribers h)\<rparr>"

definition close_channel :: "nat \<Rightarrow> Hub \<Rightarrow> Hub option" where
  "close_channel ch h =
     (if closed (channels h ! ch) then None
      else Some (h\<lparr>channels := (channels h)[ch := (channels h ! ch)\<lparr>closed := True\<rparr>]\<rparr>))"

text \<open>A send that does not wait: a message for which the buffer has no room is dropped.\<close>

definition send :: "Message \<Rightarrow> channel \<Rightarrow> channel" where
  "send m c = (if length (buffer c) < subscriberBuffer then c\<lparr>buffer := buffer c @ [m]\<rparr> else c)"

definition Publish :: "Message \<Rightarrow> Hub \<Rightarrow> Hub option" where
  "Publish m h =
     (if list_ex (\<lambda>ch. closed (channels h ! ch)) (subscribers h) then None
      else Some (h\<lparr>channels := map (\<lambda>(ch, c). if ch \<in> set (subscribers h) then send m c else c)
                                (zip [0..<length (channels h)] (channels h))\<rparr>))"

text \<open>What a receive from a channel gives: a message, the end, or nothing yet.\<close>

datatype received = Got Message | Ended | Waits

definition receive :: "nat \<Rightarrow> Hub \<Rightarrow> received \<times> Hub" where
  "receive ch h =
     (let c = channels h ! ch
      in case buffer c of
           m # ms \<Rightarrow> (Got m, h\<lparr>channels := (channels h)[ch := c\<lparr>buffer := ms\<rparr>]\<rparr>)
         | [] \<Rightarrow> (if closed c then Ended else Waits, h))"

section \<open>The event streams\<close>

datatype stream_phase = Streaming | Leaving | Deleted | Gone

text \<open>A running \<open>handleMessageStream\<close>: its filter and the messages it has written as events. It serves
  the channel of its own number.\<close>

record stream =
  wanted :: "Message \<Rightarrow> bool"
  written_events :: "Message list"
  stage :: stream_phase

record live_server =
  hub :: Hub
  streams :: "stream list"
  panicked :: bool

definition new_server :: live_server where
  "new_server = \<lparr>hub = NewHub, streams = [], panicked = False\<rparr>"

text \<open>A request whose filter does not compile is refused; any other is subscribed.\<close>

definition connect :: "text_library \<Rightarrow> string \<Rightarrow> live_server \<Rightarrow> live_server" where
  "connect lib text sv =
     (case CompileTextFilter lib text of
        None \<Rightarrow> sv
      | Some match \<Rightarrow>
          sv\<lparr>hub := fst (Subscribe (hub sv)),
             streams := streams sv @ [\<lparr>wanted = match, written_events = [], stage = Streaming\<rparr>]\<rparr>)"

text \<open>One round of the loop of a stream that takes the message case; the write succeeds or fails.\<close>

definition serve :: "bool \<Rightarrow> nat \<Rightarrow> live_server \<Rightarrow> live_server" where
  "serve write_ok i sv =
     (let s = streams sv ! i
      in if stage s \<noteq> Streaming then sv
         else case receive i (hub sv) of
                (Got m, h) \<Rightarrow>
                  sv\<lparr>hub := h,
                     streams := (streams sv)[i :=
                       if \<not> wanted s m then s
                       else if write_ok then s\<lparr>written_events := written_events s @ [m]\<rparr>
                       else s\<lparr>stage := Leaving\<rparr>]\<rparr>
              | (Ended, h) \<Rightarrow> sv\<lparr>streams := (streams sv)[i := s\<lparr>stage := Leaving\<rparr>]\<rparr>
              | (Waits, h) \<Rightarrow> sv)"

text \<open>The client is gone, or a heartbeat could not be written: the handler returns.\<close>

definition leave :: "nat \<Rightarrow> live_server \<Rightarrow> live_server" where
  "leave i sv =
     (let s = streams sv ! i
      in if stage s = Streaming then sv\<lparr>streams := (streams sv)[i := s\<lparr>stage := Leaving\<rparr>]\<rparr> else sv)"

text \<open>The deferred \<open>unsubscribe\<close>: the channel is taken from the hub, then closed.\<close>

definition unsubscribe_delete :: "nat \<Rightarrow> live_server \<Rightarrow> live_server" where
  "unsubscribe_delete i sv =
     (let s = streams sv ! i
      in if stage s = Leaving
         then sv\<lparr>hub := delete_subscriber i (hub sv), streams := (streams sv)[i := s\<lparr>stage := Deleted\<rparr>]\<rparr>
         else sv)"

definition unsubscribe_close :: "nat \<Rightarrow> live_server \<Rightarrow> live_server" where
  "unsubscribe_close i sv =
     (let s = streams sv ! i
      in if stage s = Deleted
         then (case close_channel i (hub sv) of
                 None \<Rightarrow> sv\<lparr>panicked := True\<rparr>
               | Some h \<Rightarrow> sv\<lparr>hub := h, streams := (streams sv)[i := s\<lparr>stage := Gone\<rparr>]\<rparr>)
         else sv)"

definition publish :: "Message \<Rightarrow> live_server \<Rightarrow> live_server" where
  "publish m sv =
     (case Publish m (hub sv) of None \<Rightarrow> sv\<lparr>panicked := True\<rparr> | Some h \<Rightarrow> sv\<lparr>hub := h\<rparr>)"

section \<open>The server as a machine\<close>

text \<open>
  Beside the server: what was published since each stream was subscribed, and whether one of these found
  its buffer full.
\<close>

record account =
  offered :: "Message list"
  overrun :: bool

type_synonym live_state = "live_server \<times> account list"

datatype live_event =
  Connect string | Serve bool nat | Leave nat | Delete nat | Close nat | Published Message

definition offer :: "Message \<Rightarrow> Hub \<Rightarrow> nat \<Rightarrow> account \<Rightarrow> account" where
  "offer m h i a =
     (if i \<in> set (subscribers h)
      then \<lparr>offered = offered a @ [m], overrun = overrun a \<or> subscriberBuffer \<le> length (buffer (channels h ! i))\<rparr>
      else a)"

fun live_step :: "text_library \<Rightarrow> live_event \<Rightarrow> live_state \<Rightarrow> live_state" where
  "live_step lib (Connect text) (sv, acc) =
     (let sv' = connect lib text sv
      in (sv', if length (streams sv') = length acc then acc else acc @ [\<lparr>offered = [], overrun = False\<rparr>]))"
| "live_step lib (Serve write_ok i) (sv, acc) = (serve write_ok i sv, acc)"
| "live_step lib (Leave i) (sv, acc) = (leave i sv, acc)"
| "live_step lib (Delete i) (sv, acc) = (unsubscribe_delete i sv, acc)"
| "live_step lib (Close i) (sv, acc) = (unsubscribe_close i sv, acc)"
| "live_step lib (Published m) (sv, acc) =
     (publish m sv, map (\<lambda>(i, a). offer m (hub sv) i a) (zip [0..<length acc] acc))"

text \<open>A handler's step is a step of a handler that runs.\<close>

fun live_allowed :: "live_state \<Rightarrow> live_event \<Rightarrow> bool" where
  "live_allowed (sv, acc) (Serve write_ok i) = (i < length (streams sv))"
| "live_allowed (sv, acc) (Leave i) = (i < length (streams sv))"
| "live_allowed (sv, acc) (Delete i) = (i < length (streams sv))"
| "live_allowed (sv, acc) (Close i) = (i < length (streams sv))"
| "live_allowed s _ = True"

definition seat_ok :: "nat \<Rightarrow> Hub \<Rightarrow> stream \<Rightarrow> account \<Rightarrow> bool" where
  "seat_ok i h s a \<longleftrightarrow>
     (i \<in> set (subscribers h) \<longleftrightarrow> stage s = Streaming \<or> stage s = Leaving)
     \<and> (closed (channels h ! i) \<longleftrightarrow> stage s = Gone)
     \<and> length (buffer (channels h ! i)) \<le> subscriberBuffer
     \<and> (stage s = Streaming \<longrightarrow>
          (\<exists>taken. written_events s = filter (wanted s) taken
             \<and> subseq (taken @ buffer (channels h ! i)) (offered a)
             \<and> (\<not> overrun a \<longrightarrow> taken @ buffer (channels h ! i) = offered a)))"

definition live_inv :: "live_state \<Rightarrow> bool" where
  "live_inv s \<longleftrightarrow>
     (case s of (sv, acc) \<Rightarrow>
        length (channels (hub sv)) = length (streams sv) \<and> length acc = length (streams sv)
        \<and> set (subscribers (hub sv)) \<subseteq> {..<length (streams sv)} \<and> \<not> panicked sv
        \<and> (\<forall>i < length (streams sv). seat_ok i (hub sv) (streams sv ! i) (acc ! i)))"

lemma live_inv_start: "live_inv (new_server, [])"
  by (simp add: live_inv_def new_server_def NewHub_def)

lemma connect_inv:
  assumes "live_inv (sv, acc)"
  shows "live_inv (live_step lib (Connect text) (sv, acc))"
proof (cases "CompileTextFilter lib text")
  case None
  then show ?thesis using assms by (simp add: connect_def live_inv_def)
next
  case (Some match)
  have "seat_ok i (fst (Subscribe (hub sv))) s a = seat_ok i (hub sv) s a" if "i < length (channels (hub sv))" for i s a
    using that by (simp add: seat_ok_def Subscribe_def Let_def nth_append)
  moreover have "seat_ok (length (channels (hub sv))) (fst (Subscribe (hub sv)))
      \<lparr>wanted = match, written_events = [], stage = Streaming\<rparr> \<lparr>offered = [], overrun = False\<rparr>"
    by (simp add: seat_ok_def Subscribe_def Let_def subscriberBuffer_def)
  moreover have "length (channels (fst (Subscribe (hub sv)))) = Suc (length (channels (hub sv)))"
      "set (subscribers (fst (Subscribe (hub sv)))) = insert (length (channels (hub sv))) (set (subscribers (hub sv)))"
    by (auto simp: Subscribe_def Let_def)
  ultimately show ?thesis
    using assms Some
    by (auto simp: connect_def live_inv_def Let_def nth_append less_Suc_eq)
qed

lemma seat_change:
  assumes "live_inv (sv, acc)" "i < length (streams sv)"
    and "channels (hub sv') = (channels (hub sv))[i := c]" "streams sv' = (streams sv)[i := s]"
    and "set (subscribers (hub sv')) - {i} = set (subscribers (hub sv)) - {i}"
    and "\<not> panicked sv'" "seat_ok i (hub sv') s (acc ! i)"
  shows "live_inv (sv', acc)"
proof -
  have subs: "j \<in> set (subscribers (hub sv')) \<longleftrightarrow> j \<in> set (subscribers (hub sv))" if "j \<noteq> i" for j
    using assms(5) that by blast
  have "set (subscribers (hub sv')) \<subseteq> {..<length (streams sv)}"
    using assms(1,2,5) by (auto simp: live_inv_def)
  moreover have "seat_ok j (hub sv') (streams sv' ! j) (acc ! j)" if "j < length (streams sv)" for j
  proof (cases "j = i")
    case True
    with assms(2,4,7) show ?thesis by simp
  next
    case False
    with assms(1) that have "seat_ok j (hub sv) (streams sv ! j) (acc ! j)" by (simp add: live_inv_def)
    with False show ?thesis by (simp add: seat_ok_def assms(3,4) subs)
  qed
  ultimately show ?thesis
    using assms(1,3,4,6) by (simp add: live_inv_def)
qed

lemma live_seat:
  "live_inv (sv, acc) \<Longrightarrow> i < length (streams sv) \<Longrightarrow>
     seat_ok i (hub sv) (streams sv ! i) (acc ! i) \<and> \<not> panicked sv \<and> i < length (channels (hub sv))"
  by (simp add: live_inv_def)

lemma leave_inv:
  assumes "live_inv (sv, acc)" "i < length (streams sv)"
  shows "live_inv (leave i sv, acc)"
proof (cases "stage (streams sv ! i) = Streaming")
  case True
  show ?thesis
    by (rule seat_change[OF assms, of _ "channels (hub sv) ! i" "(streams sv ! i)\<lparr>stage := Leaving\<rparr>"])
      (use live_seat[OF assms] True in \<open>simp_all add: leave_def seat_ok_def\<close>)
qed (use assms in \<open>simp add: leave_def\<close>)

lemma delete_inv:
  assumes "live_inv (sv, acc)" "i < length (streams sv)"
  shows "live_inv (unsubscribe_delete i sv, acc)"
proof (cases "stage (streams sv ! i) = Leaving")
  case True
  show ?thesis
    by (rule seat_change[OF assms, of _ "channels (hub sv) ! i" "(streams sv ! i)\<lparr>stage := Deleted\<rparr>"])
      (use live_seat[OF assms] True in \<open>auto simp: unsubscribe_delete_def delete_subscriber_def seat_ok_def\<close>)
qed (use assms in \<open>simp add: unsubscribe_delete_def\<close>)

lemma close_inv:
  assumes "live_inv (sv, acc)" "i < length (streams sv)"
  shows "live_inv (unsubscribe_close i sv, acc)"
proof (cases "stage (streams sv ! i) = Deleted")
  case True
  show ?thesis
    by (rule seat_change[OF assms, of _ "(channels (hub sv) ! i)\<lparr>closed := True\<rparr>" "(streams sv ! i)\<lparr>stage := Gone\<rparr>"])
      (use live_seat[OF assms] True in \<open>auto simp: unsubscribe_close_def close_channel_def seat_ok_def\<close>)
qed (use assms in \<open>simp add: unsubscribe_close_def\<close>)

lemma serve_inv:
  assumes "live_inv (sv, acc)" "i < length (streams sv)"
  shows "live_inv (serve write_ok i sv, acc)"
proof (cases "stage (streams sv ! i) = Streaming")
  case True
  note seat = live_seat[OF assms]
  let ?c = "channels (hub sv) ! i" and ?s = "streams sv ! i"
  show ?thesis
  proof (cases "buffer ?c")
    case Nil
    with seat True have "serve write_ok i sv = sv"
      by (simp add: serve_def receive_def Let_def seat_ok_def)
    with assms(1) show ?thesis by simp
  next
    case (Cons m ms)
    let ?s' = "if \<not> wanted ?s m then ?s
               else if write_ok then ?s\<lparr>written_events := written_events ?s @ [m]\<rparr> else ?s\<lparr>stage := Leaving\<rparr>"
    from seat True obtain taken where taken: "written_events ?s = filter (wanted ?s) taken"
        "subseq (taken @ buffer ?c) (offered (acc ! i))"
        "\<not> overrun (acc ! i) \<longrightarrow> taken @ buffer ?c = offered (acc ! i)"
      by (auto simp: seat_ok_def)
    have "seat_ok i (hub (serve write_ok i sv)) ?s' (acc ! i)"
      using seat True Cons taken
      by (auto simp: serve_def receive_def Let_def seat_ok_def intro!: exI[of _ "taken @ [m]"])
    then show ?thesis
      by (intro seat_change[OF assms, of _ "?c\<lparr>buffer := ms\<rparr>" ?s'])
        (use seat True Cons in \<open>auto simp: serve_def receive_def Let_def\<close>)
  qed
qed (use assms in \<open>simp add: serve_def\<close>)

lemma publish_inv:
  assumes "live_inv (sv, acc)"
  shows "live_inv (live_step lib (Published m) (sv, acc))"
proof -
  let ?h = "hub sv"
  let ?acc = "map (\<lambda>(i, a). offer m ?h i a) (zip [0..<length acc] acc)"
  have open_all: "\<not> list_ex (\<lambda>ch. closed (channels ?h ! ch)) (subscribers ?h)"
    using assms by (auto simp: live_inv_def list_ex_iff seat_ok_def)
  then obtain h' where h': "Publish m ?h = Some h'" "length (channels h') = length (channels ?h)"
      "subscribers h' = subscribers ?h"
      "\<forall>i < length (channels ?h). channels h' ! i = (if i \<in> set (subscribers ?h) then send m (channels ?h ! i) else channels ?h ! i)"
    by (auto simp: Publish_def)
  have "seat_ok i h' (streams sv ! i) (?acc ! i)" if "i < length (streams sv)" for i
  proof (cases "i \<in> set (subscribers ?h)")
    case False
    with live_seat[OF assms that] h' that assms show ?thesis
      by (auto simp: seat_ok_def offer_def live_inv_def)
  next
    case True
    let ?c = "channels ?h ! i" and ?s = "streams sv ! i"
    have i: "i < length acc" "i < length (channels ?h)" using assms that by (simp_all add: live_inv_def)
    have seat: "seat_ok i ?h ?s (acc ! i)" using live_seat[OF assms that] by simp
    show ?thesis
    proof (cases "length (buffer ?c) < subscriberBuffer")
      case room: True
      have "\<exists>taken. written_events ?s = filter (wanted ?s) taken
             \<and> subseq (taken @ buffer ?c @ [m]) (offered (acc ! i) @ [m])
             \<and> (\<not> overrun (acc ! i) \<longrightarrow> taken @ buffer ?c = offered (acc ! i))" if "stage ?s = Streaming"
        using seat that by (fastforce simp: seat_ok_def simp flip: append_assoc)
      with room seat True i h' show ?thesis
        by (auto simp: seat_ok_def offer_def send_def)
    next
      case False
      with seat True i h' show ?thesis
        by (fastforce simp: seat_ok_def offer_def send_def intro: subseq_order.trans)
    qed
  qed
  with h' assms show ?thesis
    by (simp add: live_inv_def publish_def)
qed

lemma live_inv_step: "live_inv s \<Longrightarrow> live_allowed s e \<Longrightarrow> live_inv (live_step lib e s)"
  by (cases s; cases e) (simp_all add: connect_inv[unfolded live_step.simps] leave_inv delete_inv close_inv serve_inv
      publish_inv[unfolded live_step.simps])

interpretation live_machine: invariant_machine "\<lambda>s. s = (new_server, [])" "live_step lib" live_allowed live_inv for lib
  by unfold_locales (simp_all add: live_inv_start live_inv_step)

abbreviation live_reachable :: "text_library \<Rightarrow> live_state \<Rightarrow> bool" where
  "live_reachable lib \<equiv> reach (\<lambda>s. s = (new_server, [])) (live_step lib) live_allowed"

text \<open>A live stream is the filtered publication. No send and no close ever panics, a stream's
  buffer holds at most 64 messages, and what a running stream has written followed by what of its buffer its filter
  selects is a subsequence of what its filter selects of the messages published since it was subscribed: no message
  is written twice or out of order. It is all of them unless a publication found 64 messages waiting.\<close>

theorem live_stream_is_faithful:
  assumes "live_reachable lib (sv, acc)" "i < length (streams sv)"
  defines "s \<equiv> streams sv ! i" and "waiting_in \<equiv> buffer (channels (hub sv) ! i)" and "a \<equiv> acc ! i"
  shows "\<not> panicked sv \<and> length waiting_in \<le> 64
       \<and> (stage s = Streaming \<longrightarrow>
            subseq (written_events s @ filter (wanted s) waiting_in) (filter (wanted s) (offered a))
            \<and> (\<not> overrun a \<longrightarrow> written_events s @ filter (wanted s) waiting_in = filter (wanted s) (offered a)))"
proof -
  have seat: "seat_ok i (hub sv) s a" "\<not> panicked sv"
    using live_seat[OF live_machine.reach_inv[OF assms(1)] assms(2)] by (simp_all add: s_def a_def)
  have "subseq (written_events s @ filter (wanted s) waiting_in) (filter (wanted s) (offered a))
      \<and> (\<not> overrun a \<longrightarrow> written_events s @ filter (wanted s) waiting_in = filter (wanted s) (offered a))"
    if running: "stage s = Streaming"
  proof -
    obtain taken where taken: "written_events s = filter (wanted s) taken" "subseq (taken @ waiting_in) (offered a)"
        "\<not> overrun a \<longrightarrow> taken @ waiting_in = offered a"
      using seat running by (auto simp: seat_ok_def waiting_in_def)
    then have "written_events s @ filter (wanted s) waiting_in = filter (wanted s) (taken @ waiting_in)" by simp
    with taken show ?thesis using subseq_filter by metis
  qed
  with seat show ?thesis by (auto simp: seat_ok_def waiting_in_def subscriberBuffer_def)
qed

text \<open>Two streams, one of which takes only host x; the first has read one of the three messages.\<close>

definition live_sample :: "live_event list" where
  "live_sample =
     [Connect [], Published (from_source ''a'' 5 ''x''), Connect ''b'', Published (from_source ''b'' 7 ''y''),
      Published (from_source ''c'' 6 ''x''), Serve True 0, Serve True 1, Leave 1, Delete 1, Published (from_source ''d'' 8 ''x''),
      Close 1]"

lemma live_sample_reachable: "live_reachable sample_library (run (live_step sample_library) live_sample (new_server, []))"
  by (rule reach_run[OF reach.start]) (simp, code_simp)

theorem live_stream_is_faithful_witness:
  "(let (sv, acc) = run (live_step sample_library) live_sample (new_server, [])
    in \<not> panicked sv \<and> length (written_events (streams sv ! 0)) = 1
     \<and> map ID (written_events (streams sv ! 0) @ filter (wanted (streams sv ! 0)) (buffer (channels (hub sv) ! 0)))
       = [''a'', ''b'', ''c'', ''d''])"
proof -
  obtain sv acc where run: "run (live_step sample_library) live_sample (new_server, []) = (sv, acc)"
    by fastforce
  have facts: "(case run (live_step sample_library) live_sample (new_server, []) of (sv, acc) \<Rightarrow>
      length (streams sv) = 2 \<and> stage (streams sv ! 0) = Streaming \<and> \<not> overrun (acc ! 0)
      \<and> length (written_events (streams sv ! 0)) = 1
      \<and> map ID (filter (wanted (streams sv ! 0)) (offered (acc ! 0))) = [''a'', ''b'', ''c'', ''d''])"
    by code_simp
  then have seat: "0 < length (streams sv)" "stage (streams sv ! 0) = Streaming" "\<not> overrun (acc ! 0)"
    by (auto simp: run)
  show ?thesis
    using live_stream_is_faithful[OF live_sample_reachable[unfolded run] seat(1)] seat(2,3) facts
    by (simp add: run del: map_append)
qed

section \<open>The publishing store\<close>

text \<open>\<open>PublishingStore.Append\<close>: the store's append, and what it then has to publish.\<close>

definition PublishingStore_Append ::
  "(Message \<Rightarrow> string) \<Rightarrow> codec \<Rightarrow> write_outcome \<Rightarrow> time \<Rightarrow> nat \<Rightarrow> Message \<Rightarrow> FileStore
   \<Rightarrow> (FileStore \<times> store_error option) \<times> Message option" where
  "PublishingStore_Append pathFor cod out now new_id m st =
     (case Append pathFor cod out now new_id m st of
        (st, Some e) \<Rightarrow> ((st, Some e), None)
      | (st, None) \<Rightarrow> ((st, None), Some m))"

text \<open>
  The store, the messages appended but not yet published (several appends may be between the two steps), and
  the streams. Beside them: the messages appended, and for each stream those appended before it was subscribed.
\<close>

record server_state =
  files :: "FileStore \<times> Message list"
  in_flight :: "Message list"
  live :: live_state
  earlier :: "Message list list"

datatype server_event =
  Stored write_outcome time nat Message | Asked StoreQuery | Handed nat | Streamed live_event

fun server_step ::
  "(Message \<Rightarrow> string) \<Rightarrow> codec \<Rightarrow> text_library \<Rightarrow> server_event \<Rightarrow> server_state \<Rightarrow> server_state" where
  "server_step pathFor cod lib (Stored out now new_id m) s =
     s\<lparr>files := store_step pathFor cod lib (Appended out now new_id m) (files s),
       in_flight := in_flight s @
         (case snd (PublishingStore_Append pathFor cod out now new_id m (fst (files s))) of None \<Rightarrow> [] | Some m \<Rightarrow> [m])\<rparr>"
| "server_step pathFor cod lib (Asked q) s = s\<lparr>files := store_step pathFor cod lib (Queried q) (files s)\<rparr>"
| "server_step pathFor cod lib (Handed k) s =
     s\<lparr>in_flight := take k (in_flight s) @ drop (Suc k) (in_flight s),
       live := live_step lib (Published (in_flight s ! k)) (live s)\<rparr>"
| "server_step pathFor cod lib (Streamed ev) s =
     (let lv = live_step lib ev (live s)
      in s\<lparr>live := lv,
           earlier := earlier s @ (if length (snd lv) = length (earlier s) then [] else [snd (files s)])\<rparr>)"

text \<open>Every message comes with the time of its receipt, as the listeners and the import set it.\<close>

fun server_allowed :: "(Message \<Rightarrow> string) \<Rightarrow> codec \<Rightarrow> server_state \<Rightarrow> server_event \<Rightarrow> bool" where
  "server_allowed pathFor cod s (Stored out now new_id m) =
     (store_allowed pathFor cod (files s) (Appended out now new_id m) \<and> \<not> IsZero (ReceivedAt m))"
| "server_allowed pathFor cod s (Asked q) = True"
| "server_allowed pathFor cod s (Handed k) = (k < length (in_flight s))"
| "server_allowed pathFor cod s (Streamed ev) =
     ((case ev of Published m \<Rightarrow> False | _ \<Rightarrow> True) \<and> live_allowed (live s) ev)"

definition new_server_state :: server_state where
  "new_server_state =
     \<lparr>files = (NewFileStore, []), in_flight = [], live = (new_server, []), earlier = []\<rparr>"

text \<open>What a stream was offered, with what was stored before it and what is in flight, is what is stored.\<close>

definition covered :: "Message list \<Rightarrow> Message list \<Rightarrow> Hub \<Rightarrow> nat \<Rightarrow> account \<Rightarrow> Message list \<Rightarrow> bool" where
  "covered ms flight h i a old \<longleftrightarrow>
     set (offered a) \<subseteq> set ms
     \<and> (i \<in> set (subscribers h) \<longrightarrow> set ms \<subseteq> set old \<union> set flight \<union> set (offered a))"

definition server_inv :: "(Message \<Rightarrow> string) \<Rightarrow> codec \<Rightarrow> server_state \<Rightarrow> bool" where
  "server_inv pathFor cod s \<longleftrightarrow>
     store_inv pathFor cod (files s) \<and> live_inv (live s) \<and> length (earlier s) = length (snd (live s))
     \<and> set (in_flight s) \<subseteq> set (snd (files s))
     \<and> (\<forall>i < length (earlier s).
          covered (snd (files s)) (in_flight s) (hub (fst (live s))) i (snd (live s) ! i) (earlier s ! i))"

lemma append_publishes:
  "snd (PublishingStore_Append pathFor cod out now new_id m st) =
     (if snd (Append pathFor cod out now new_id m st) = None then Some m else None)"
  by (cases "Append pathFor cod out now new_id m st") (auto simp: PublishingStore_Append_def split: option.split)

lemma stored_inv:
  assumes "server_inv pathFor cod s" "server_allowed pathFor cod s (Stored out now new_id m)"
  shows "server_inv pathFor cod (server_step pathFor cod lib (Stored out now new_id m) s)"
proof -
  obtain st ms where f: "files s = (st, ms)" by fastforce
  have kept: "kept now m = m" using assms(2) by (simp add: kept_def)
  have "store_inv pathFor cod (store_step pathFor cod lib (Appended out now new_id m) (files s))"
    using assms by (intro store_inv_step) (simp_all add: server_inv_def)
  with assms(1) show ?thesis
    by (cases "Append pathFor cod out now new_id m st")
      (auto simp: server_inv_def covered_def f append_publishes kept)
qed

lemma handed_inv:
  assumes "server_inv pathFor cod s" "k < length (in_flight s)"
  shows "server_inv pathFor cod (server_step pathFor cod lib (Handed k) s)"
proof -
  obtain sv acc where lv: "live s = (sv, acc)" by fastforce
  let ?m = "in_flight s ! k" and ?fl = "take k (in_flight s) @ drop (Suc k) (in_flight s)"
  have "set (in_flight s) = insert ?m (set ?fl)"
    using id_take_nth_drop[OF assms(2)] by (metis Un_insert_right list.set(2) set_append)
  moreover have "live_inv (live_step lib (Published ?m) (sv, acc))"
    using assms(1) lv by (intro live_inv_step) (simp_all add: server_inv_def)
  moreover have "subscribers (hub (publish ?m sv)) = subscribers (hub sv)"
    by (auto simp: publish_def Publish_def split: option.split if_splits)
  ultimately show ?thesis
    using assms by (fastforce simp: server_inv_def covered_def lv offer_def)
qed

lemma streamed_shrinks:
  assumes "case ev of Published m \<Rightarrow> False | Connect t \<Rightarrow> False | _ \<Rightarrow> True"
  shows "snd (live_step lib ev (sv, acc)) = acc
     \<and> set (subscribers (hub (fst (live_step lib ev (sv, acc))))) \<subseteq> set (subscribers (hub sv))"
  using assms
  by (cases ev)
    (auto simp: serve_def receive_def leave_def unsubscribe_delete_def delete_subscriber_def unsubscribe_close_def
      close_channel_def Let_def split: list.split option.split)

lemma streamed_inv:
  assumes "server_inv pathFor cod s" "server_allowed pathFor cod s (Streamed ev)"
  shows "server_inv pathFor cod (server_step pathFor cod lib (Streamed ev) s)"
proof -
  obtain sv acc where lv: "live s = (sv, acc)" by fastforce
  have inv: "live_inv (live_step lib ev (sv, acc))"
    using assms lv by (intro live_inv_step) (simp_all add: server_inv_def)
  show ?thesis
  proof (cases "\<exists>t. ev = Connect t")
    case False
    with assms(2) streamed_shrinks[of ev lib sv acc] have "snd (live_step lib ev (sv, acc)) = acc"
      "set (subscribers (hub (fst (live_step lib ev (sv, acc))))) \<subseteq> set (subscribers (hub sv))"
      by (auto split: live_event.splits)
    with assms(1) inv show ?thesis
      by (cases "live_step lib ev (sv, acc)") (auto simp: server_inv_def covered_def lv)
  next
    case True
    then obtain t where ev: "ev = Connect t" by blast
    have len: "length (streams sv) = length acc" "length (earlier s) = length acc"
        "length (channels (hub sv)) = length acc"
      using assms(1) lv by (simp_all add: server_inv_def live_inv_def)
    have subs: "set (subscribers (hub (connect lib t sv))) \<subseteq> insert (length acc) (set (subscribers (hub sv)))"
      using len by (auto simp: connect_def Subscribe_def Let_def split: option.split)
    have "length (streams (connect lib t sv)) = length acc
        \<or> length (streams (connect lib t sv)) = Suc (length acc)"
      using len by (auto simp: connect_def split: option.split)
    moreover have "subscribers (hub (connect lib t sv)) = subscribers (hub sv)"
      if "length (streams (connect lib t sv)) = length acc"
      using that len by (auto simp: connect_def split: option.split)
    ultimately show ?thesis
      using assms(1) inv len subs unfolding ev
      by (auto simp: server_inv_def covered_def lv Let_def nth_append less_Suc_eq)
  qed
qed

lemma server_inv_step:
  assumes "server_inv pathFor cod s" "server_allowed pathFor cod s ev"
  shows "server_inv pathFor cod (server_step pathFor cod lib ev s)"
proof (cases ev)
  case (Asked q)
  obtain st ms where "files s = (st, ms)" by fastforce
  moreover have "store_inv pathFor cod (store_step pathFor cod lib (Queried q) (files s))"
    using assms(1) by (intro store_inv_step) (simp_all add: server_inv_def)
  ultimately show ?thesis using assms(1) Asked by (auto simp: server_inv_def)
qed (use assms stored_inv handed_inv streamed_inv in auto)

lemma server_inv_start: "server_inv pathFor cod new_server_state"
  by (simp add: server_inv_def new_server_state_def store_inv_start live_inv_start)

interpretation server_machine: invariant_machine "\<lambda>s. s = new_server_state" "server_step pathFor cod lib"
  "server_allowed pathFor cod" "server_inv pathFor cod" for pathFor cod lib
  by unfold_locales (simp_all add: server_inv_start server_inv_step)

abbreviation server_reachable :: "(Message \<Rightarrow> string) \<Rightarrow> codec \<Rightarrow> text_library \<Rightarrow> server_state \<Rightarrow> bool" where
  "server_reachable pathFor cod lib \<equiv>
     reach (\<lambda>s. s = new_server_state) (server_step pathFor cod lib) (server_allowed pathFor cod)"

lemma set_message_log: "set (message_log pathFor ms) = set ms"
  by (auto simp: message_log_def in_file_def)

text \<open>C14: While its buffer has room, a stream loses nothing. Whatever a running stream has written passes its
  filter and is stored. And as long as no publication found the stream's buffer full (the hub drops one that does),
  every stored message was stored before the stream was subscribed, so that a query made after the connection finds
  it, or is still to be published, or fails the filter, or was written, or waits in the buffer.\<close>

theorem stream_has_no_gaps:
  assumes "server_reachable pathFor cod lib s" "i < length (earlier s)"
  defines "seat \<equiv> streams (fst (live s)) ! i"
    and "waiting_in \<equiv> buffer (channels (hub (fst (live s))) ! i)"
  assumes "stage seat = Streaming"
  shows "(\<forall>m \<in> set (written_events seat). wanted seat m \<and> m \<in> set (message_log pathFor (snd (files s))))
       \<and> (\<not> overrun (snd (live s) ! i) \<longrightarrow>
            (\<forall>m \<in> set (message_log pathFor (snd (files s))).
               m \<in> set (earlier s ! i) \<or> m \<in> set (in_flight s) \<or> \<not> wanted seat m
               \<or> m \<in> set (written_events seat) \<or> m \<in> set waiting_in))"
proof -
  obtain sv acc where lv: "live s = (sv, acc)" by fastforce
  have inv: "server_inv pathFor cod s" using server_machine.reach_inv[OF assms(1)] .
  then have i: "live_inv (sv, acc)" "i < length (streams sv)"
    using assms(2) lv by (simp_all add: server_inv_def live_inv_def)
  have seat: "seat_ok i (hub sv) seat (acc ! i)" using live_seat[OF i] by (simp add: seat_def lv)
  then obtain taken where taken: "written_events seat = filter (wanted seat) taken"
      "subseq (taken @ waiting_in) (offered (acc ! i))"
      "\<not> overrun (acc ! i) \<longrightarrow> taken @ waiting_in = offered (acc ! i)"
    using assms(5) by (auto simp: seat_ok_def waiting_in_def lv)
  have subscribed: "i \<in> set (subscribers (hub sv))" using seat assms(5) by (simp add: seat_ok_def)
  have cover: "covered (snd (files s)) (in_flight s) (hub sv) i (acc ! i) (earlier s ! i)"
    using inv assms(2) lv by (simp add: server_inv_def)
  have "set taken \<subseteq> set (offered (acc ! i))" using list_emb_set[OF taken(2)] by auto
  moreover have "set (offered (acc ! i)) = set taken \<union> set waiting_in" if "\<not> overrun (acc ! i)"
    using taken(3) that by (metis set_append)
  ultimately show ?thesis
    using cover taken(1) subscribed unfolding covered_def set_message_log lv by auto
qed

text \<open>The second append is published before the first; the stream has read one of them.\<close>

definition server_sample :: "server_event list" where
  "server_sample =
     [Stored (Written 1) 9 1 (from_source ''a'' 5 ''x''), Handed 0, Streamed (Connect []),
      Stored (Written 2) 9 2 (from_source ''b'' 7 ''y''), Stored (Written 3) 9 3 (from_source ''c'' 6 ''x''),
      Handed 1, Streamed (Serve True 0)]"

definition sample_server :: server_state where
  "sample_server = run (server_step sample_path sample_codec sample_library) server_sample new_server_state"

lemma sample_server_reachable: "server_reachable sample_path sample_codec sample_library sample_server"
  unfolding sample_server_def by (rule reach_run[OF reach.start]) (simp, code_simp)

theorem stream_has_no_gaps_witness:
  "set (message_log sample_path (snd (files sample_server)))
     \<subseteq> {from_source ''a'' 5 ''x'', from_source ''b'' 7 ''y'', from_source ''c'' 6 ''x''}"
proof -
  let ?seat = "streams (fst (live sample_server)) ! 0"
  have facts: "length (earlier sample_server) = 1" "stage ?seat = Streaming" "\<not> overrun (snd (live sample_server) ! 0)"
    by code_simp+
  have parts: "earlier sample_server ! 0 = [from_source ''a'' 5 ''x'']"
      "in_flight sample_server = [from_source ''b'' 7 ''y'']"
      "written_events ?seat = [from_source ''c'' 6 ''x'']"
      "buffer (channels (hub (fst (live sample_server))) ! 0) = []"
      "list_all (wanted ?seat) (snd (files sample_server))"
    by code_simp+
  have all_wanted: "\<forall>m \<in> set (message_log sample_path (snd (files sample_server))). wanted ?seat m"
    using parts(5) by (simp add: list_all_iff set_message_log)
  show ?thesis
    using stream_has_no_gaps[OF sample_server_reachable _ facts(2)] facts(1,3) parts(1-4) all_wanted by auto
qed

end
