(* ===== verification/Message_Path.thy ===== *)
theory Message_Path
  imports Message_Store
begin

text \<open>
  Where \<open>file_store.go\<close> keeps a message: \<open>pathFor\<close> and \<open>sourceFilename\<close>. The year, month and
  day of an instant in UTC are the parameter \<open>calendar\<close>; the root directory is as \<open>filepath.Clean\<close>
  leaves it.
\<close>

section \<open>The name of a source\<close>

text \<open>\<open>net.SplitHostPort\<close>: the host of a text with a port, or none.\<close>

definition first_of :: "char \<Rightarrow> string \<Rightarrow> nat option" where
  "first_of c s = (if c \<in> set s then Some (length (takeWhile (\<lambda>x. x \<noteq> c) s)) else None)"

definition last_of :: "char \<Rightarrow> string \<Rightarrow> nat option" where
  "last_of c s = map_option (\<lambda>i. length s - Suc i) (first_of c (rev s))"

definition SplitHostPort :: "string \<Rightarrow> string option" where
  "SplitHostPort s =
     (case last_of CHR '':'' s of
        None \<Rightarrow> None
      | Some i \<Rightarrow>
          if prefix ''['' s
          then (case first_of CHR '']'' s of
                  None \<Rightarrow> None
                | Some e \<Rightarrow>
                    if Suc e \<noteq> i \<or> CHR ''['' \<in> set (drop 1 s) \<or> CHR '']'' \<in> set (drop (Suc e) s) then None
                    else Some (take (e - 1) (drop 1 s)))
          else if CHR '':'' \<in> set (take i s) \<or> CHR ''['' \<in> set s \<or> CHR '']'' \<in> set s then None
          else Some (take i s))"

text \<open>The length of the rune that \<open>range\<close> reads next: the UTF-8 sequence at the front, or one byte
  that starts none.\<close>

definition continues :: "nat \<Rightarrow> nat \<Rightarrow> string \<Rightarrow> bool" where
  "continues lo hi s = (case s of [] \<Rightarrow> False | c # _ \<Rightarrow> lo \<le> of_char c \<and> (of_char c :: nat) \<le> hi)"

definition rune_length :: "string \<Rightarrow> nat" where
  "rune_length s =
     (let b = (case s of [] \<Rightarrow> 0 | c # _ \<Rightarrow> (of_char c :: nat));
          lo = (if b = 0xE0 then 0xA0 else if b = 0xF0 then 0x90 else 0x80);
          hi = (if b = 0xED then 0x9F else if b = 0xF4 then 0x8F else 0xBF);
          size = (if b < 0xC2 then 1 else if b \<le> 0xDF then 2 else if b \<le> 0xEF then 3 else if b \<le> 0xF4 then 4 else 1)
      in if (1 < size \<longrightarrow> continues lo hi (drop 1 s)) \<and> (2 < size \<longrightarrow> continues 0x80 0xBF (drop 2 s))
            \<and> (3 < size \<longrightarrow> continues 0x80 0xBF (drop 3 s))
         then size else 1)"

definition between :: "char \<Rightarrow> char \<Rightarrow> char \<Rightarrow> bool" where
  "between lo hi c \<longleftrightarrow> of_char lo \<le> (of_char c :: nat) \<and> (of_char c :: nat) \<le> of_char hi"

definition name_char :: "char \<Rightarrow> bool" where
  "name_char c \<longleftrightarrow>
     between CHR ''a'' CHR ''z'' c \<or> between CHR ''A'' CHR ''Z'' c \<or> between CHR ''0'' CHR ''9'' c \<or> c \<in> set ''.-_''"

lemma rune_length_pos: "0 < rune_length s"
  by (simp add: rune_length_def Let_def)

text \<open>A name character is one byte, and the first byte of no longer rune.\<close>

function clean_runes :: "string \<Rightarrow> string" where
  "clean_runes [] = []"
| "clean_runes (c # s) =
     (if name_char c then c # clean_runes s else CHR ''_'' # clean_runes (drop (rune_length (c # s)) (c # s)))"
  by pat_completeness auto

termination
  by (relation "measure length") (use rune_length_pos in \<open>auto simp: gr0_conv_Suc\<close>)

definition trim_ends :: "string \<Rightarrow> string" where
  "trim_ends s =
     rev (dropWhile (\<lambda>c. c \<in> set ''._-'') (rev (dropWhile (\<lambda>c. c \<in> set ''._-'') s)))"

definition sourceFilename :: "Message \<Rightarrow> string" where
  "sourceFilename m =
     (let source = go_trim (Source m);
          source = (if source = [] then go_trim (Hostname m) else source);
          source = (if source = [] then ''unknown'' else source);
          source = (case SplitHostPort source of None \<Rightarrow> source | Some h \<Rightarrow> h);
          cleaned = trim_ends (clean_runes source);
          cleaned = (if cleaned = [] then ''unknown'' else cleaned)
      in cleaned @ ''.ndjson'')"

section \<open>The path of a message\<close>

definition padded :: "nat \<Rightarrow> nat \<Rightarrow> string" where
  "padded width n = replicate (width - length (dec_nat n)) CHR ''0'' @ dec_nat n"

definition pathFor :: "string \<Rightarrow> (time \<Rightarrow> nat \<times> nat \<times> nat) \<Rightarrow> Message \<Rightarrow> string" where
  "pathFor dir calendar m =
     (let (year, month, day) = calendar (ReceivedAt m)
      in join ''/'' [dir, padded 4 year, padded 2 month, padded 2 day, sourceFilename m])"

section \<open>Names and paths\<close>

lemma clean_runes_chars: "list_all name_char (clean_runes s)"
  by (induction s rule: clean_runes.induct) (simp_all add: name_char_def)

lemma hd_dropWhile': "dropWhile P xs \<noteq> [] \<Longrightarrow> \<not> P (hd (dropWhile P xs))"
  by (induction xs) auto

lemma last_dropWhile: "dropWhile P xs \<noteq> [] \<Longrightarrow> last (dropWhile P xs) = last xs"
  by (induction xs) (auto split: if_splits)

lemma trim_ends_form:
  assumes "trim_ends s \<noteq> []"
  shows "hd (trim_ends s) \<notin> set ''._-'' \<and> last (trim_ends s) \<notin> set ''._-'' \<and> set (trim_ends s) \<subseteq> set s"
proof -
  define P where "P = (\<lambda>c. c \<in> set ''._-'')"
  define front where "front = dropWhile P s"
  have t: "trim_ends s = rev (dropWhile P (rev front))" by (simp add: trim_ends_def P_def front_def)
  with assms have ne: "dropWhile P (rev front) \<noteq> []" "front \<noteq> []" by auto
  have "hd (trim_ends s) = last (rev front)" using ne last_dropWhile[of P "rev front"] by (simp add: t hd_rev)
  also have "\<dots> = hd front" using ne(2) by (simp add: last_rev)
  finally have "\<not> P (hd (trim_ends s))" using ne(2) hd_dropWhile'[of P s] by (simp add: front_def)
  moreover have "\<not> P (last (trim_ends s))" using hd_dropWhile'[OF ne(1)] by (simp add: t last_rev)
  moreover have "set (trim_ends s) \<subseteq> set s"
    by (auto simp: t front_def dest!: set_dropWhileD)
  ultimately show ?thesis by (simp add: P_def)
qed

lemma sourceFilename_form:
  "\<exists>name. sourceFilename m = name @ ''.ndjson'' \<and> name \<noteq> [] \<and> list_all name_char name
     \<and> hd name \<notin> set ''._-'' \<and> last name \<notin> set ''._-''"
proof -
  have unknown: "list_all name_char ''unknown''" by code_simp
  have trimmed: "list_all name_char (trim_ends (clean_runes s))" if "trim_ends (clean_runes s) \<noteq> []" for s
    using trim_ends_form[OF that] clean_runes_chars[of s] by (auto simp: list_all_iff)
  define final where "final = (\<lambda>s. if trim_ends (clean_runes s) = [] then ''unknown'' else trim_ends (clean_runes s))"
  have "final s \<noteq> [] \<and> list_all name_char (final s) \<and> hd (final s) \<notin> set ''._-'' \<and> last (final s) \<notin> set ''._-''" for s
    using unknown trimmed trim_ends_form[of "clean_runes s"] by (auto simp: final_def)
  moreover have "\<exists>s. sourceFilename m = final s @ ''.ndjson''"
    by (simp add: sourceFilename_def Let_def final_def) blast
  ultimately show ?thesis by metis
qed

lemma undec_padded: "undec (padded w n) = n"
proof -
  have "undec (replicate k CHR ''0'' @ s) = undec s" for k s
    by (induction k) (simp_all add: undec_def digit_val_def)
  then show ?thesis by (simp add: padded_def)
qed

lemma padded_inj: "padded w n = padded w k \<longleftrightarrow> n = k"
  using undec_padded by metis

lemma padded_digits: "list_all is_digit (padded w n)"
  using dec_nat_digits[of n] by (auto simp: padded_def list_all_iff is_digit_def)

lemma split_at: "c \<notin> set xs \<Longrightarrow> c \<notin> set ys \<Longrightarrow> xs @ c # us = ys @ c # vs \<longleftrightarrow> xs = ys \<and> us = vs"
proof (induction xs arbitrary: ys)
  case (Cons x xs)
  then show ?case by (cases ys) auto
qed (auto simp: Cons_eq_append_conv)

text \<open>C31: A source cannot choose where it is written. Whatever a sender puts into the source or the host
  of a message, the name of its file is \<open>name.ndjson\<close> where \<open>name\<close> is not empty, consists of letters,
  digits, dots, dashes and underscores, and neither starts nor ends with one of the last three; so it holds no
  separator, is not hidden, and is found by the query. Two messages share a file exactly when they were received on
  the same day and have the same file name.\<close>

theorem partition_of_message:
  "(\<exists>name. sourceFilename m = name @ ''.ndjson'' \<and> name \<noteq> [] \<and> list_all name_char name
      \<and> CHR ''/'' \<notin> set name \<and> hd name \<notin> set ''._-'' \<and> last name \<notin> set ''._-'')
   \<and> suffix ''.ndjson'' (pathFor dir calendar m)
   \<and> (pathFor dir calendar m = pathFor dir calendar m' \<longleftrightarrow>
        calendar (ReceivedAt m) = calendar (ReceivedAt m') \<and> sourceFilename m = sourceFilename m')"
proof -
  have slash: "\<not> name_char CHR ''/''" by code_simp
  obtain name where name: "sourceFilename m = name @ ''.ndjson''" "name \<noteq> []" "list_all name_char name"
      "hd name \<notin> set ''._-''" "last name \<notin> set ''._-''"
    using sourceFilename_form by blast
  have "CHR ''/'' \<notin> set name" using name(3) slash by (auto simp: list_all_iff)
  moreover have "CHR ''/'' \<notin> set (padded w n)" for w n
    using padded_digits[of w n] by (auto simp: list_all_iff is_digit_def)
  then have "pathFor dir calendar m = pathFor dir calendar m' \<longleftrightarrow>
        calendar (ReceivedAt m) = calendar (ReceivedAt m') \<and> sourceFilename m = sourceFilename m'"
    by (auto simp: pathFor_def split_at padded_inj split: prod.splits)
  moreover have "suffix ''.ndjson'' (pathFor dir calendar m)"
    using name(1) by (auto simp: pathFor_def suffix_def split: prod.split)
  ultimately show ?thesis using name by blast
qed

end
