(* ===== verification/Store_Failures.thy ===== *)
theory Store_Failures
  imports Store_Query
begin

text \<open>
  What a failed write leaves behind: \<open>Append\<close> does not take back the bytes of a record that were written before
  an error, and the next record of the file continues their line.
\<close>

section \<open>A file with a broken line\<close>

abbreviation ended :: "string list \<Rightarrow> string" where
  "ended ls \<equiv> concat (map (\<lambda>l. l @ [newline_byte]) ls)"

lemma scan_ended:
  "\<forall>l \<in> set ls. newline_byte \<notin> set l \<Longrightarrow> scan_lines (ended ls @ t) = map (\<lambda>l. l @ [newline_byte]) ls @ scan_lines t"
  by (induction ls) (simp_all add: scan_one)

lemma scanIndex_broken: "\<exists>l \<in> set lines. decode_key cod l = None \<Longrightarrow> scanIndex cod off lines es = None"
  by (induction lines arbitrary: off es) (auto split: option.split)

text \<open>The file holds a complete line that is no record, and its index, if there is one, ends at a line before.\<close>

definition broken :: "codec \<Rightarrow> string \<Rightarrow> FileStore \<Rightarrow> bool" where
  "broken cod p st \<longleftrightarrow>
     suffix ''.ndjson'' p \<and> distinct (map fst (disk st))
     \<and> (\<exists>f ls bad t. map_of (disk st) p = Some f \<and> content f = ended (ls @ [bad]) @ t
          \<and> (\<forall>l \<in> set (ls @ [bad]). newline_byte \<notin> set l) \<and> decode_key cod (bad @ [newline_byte]) = None
          \<and> (\<forall>i. map_of (indexes st) p = Some i \<longrightarrow> (\<exists>k. info_size (info i) = length (ended (take k ls)))))"

lemma index_file_broken:
  assumes "content f = ended (ls @ [bad]) @ t" "\<forall>l \<in> set (ls @ [bad]). newline_byte \<notin> set l"
    and "decode_key cod (bad @ [newline_byte]) = None"
    and "\<And>i. previous = Some i \<Longrightarrow> \<exists>k. info_size (info i) = length (ended (take k ls))"
  shows "index_file cod previous f = None"
proof -
  have lines: "\<exists>l \<in> set (scan_lines (drop (length (ended (take k ls))) (content f))). decode_key cod l = None" for k
  proof -
    have "content f = ended (take k ls) @ ended (drop k ls @ [bad]) @ t"
      unfolding assms(1) by (metis append.assoc append_take_drop_id concat_append map_append)
    then have "drop (length (ended (take k ls))) (content f) = ended (drop k ls @ [bad]) @ t" by simp
    moreover have "\<forall>l \<in> set (drop k ls @ [bad]). newline_byte \<notin> set l"
      using assms(2) by (auto dest: in_set_dropD)
    ultimately show ?thesis using assms(3) by (simp add: scan_ended scan_one)
  qed
  have whole: "scanIndex cod off (scan_lines (content f)) es = None" for off es
    using scanIndex_broken lines[of 0] by simp
  show ?thesis
  proof (cases previous)
    case None
    then show ?thesis by (simp add: index_file_def whole)
  next
    case (Some i)
    then obtain k where k: "info_size (info i) = length (ended (take k ls))" using assms(4) by blast
    have "length (ended (take k ls)) \<le> length (ended ls)"
      by (metis append_take_drop_id concat_append length_append map_append le_add1)
    then have "info_size (info i) < length (content f)" unfolding k assms(1) by simp
    moreover have "scanIndex cod off (scan_lines (drop (info_size (info i)) (content f))) es = None" for off es
      unfolding k using scanIndex_broken lines by blast
    ultimately show ?thesis by (simp add: index_file_def Some whole stat_def Let_def)
  qed
qed

lemma broken_query:
  assumes "broken cod path st"
  shows "queryIndexes cod st = (st, None)"
proof -
  obtain f where f: "map_of (disk st) path = Some f" "index_file cod (map_of (indexes st) path) f = None"
    using assms index_file_broken unfolding broken_def by metis
  have "path \<in> set (messageFiles st)"
    using f(1) assms by (auto simp: messageFiles_def broken_def dest: map_of_SomeD intro: rev_image_eqI)
  moreover have "index_files cod st ps = None" if "path \<in> set ps" for ps
    using that f by (induction ps) (auto split: option.split)
  ultimately show ?thesis by (simp add: queryIndexes_def)
qed

lemma broken_appended:
  assumes "broken cod p st"
  shows "broken cod p (fst (Append pathFor cod out now new_id m st))"
proof -
  obtain f ls bad t where f: "map_of (disk st) p = Some f" "content f = ended (ls @ [bad]) @ t"
      "\<forall>l \<in> set (ls @ [bad]). newline_byte \<notin> set l" "decode_key cod (bad @ [newline_byte]) = None"
      "\<forall>i. map_of (indexes st) p = Some i \<longrightarrow> (\<exists>k. info_size (info i) = length (ended (take k ls)))"
    using assms unfolding broken_def by blast
  have grown: "broken cod p (st\<lparr>disk := AList.update q (g\<lparr>content := content g @ data, file_time := time\<rparr>) (disk st)\<rparr>)"
    if "q = p \<Longrightarrow> g = f" for q g data time
  proof -
    have "\<exists>f'. map_of (AList.update q (g\<lparr>content := content g @ data, file_time := time\<rparr>) (disk st)) p = Some f'
        \<and> (\<exists>u. content f' = content f @ u)"
      using f(1) that by (cases "q = p") (auto simp: update_conv')
    then obtain f' u where "map_of (AList.update q (g\<lparr>content := content g @ data, file_time := time\<rparr>) (disk st)) p = Some f'"
        "content f' = ended (ls @ [bad]) @ t @ u"
      using f(2) by auto
    with assms f(3-5) show ?thesis
      unfolding broken_def by (auto simp: distinct_update)
  qed
  show ?thesis
    using assms grown f(1)
    by (auto simp: Append_def Let_def split: write_outcome.split option.split)
qed

lemma broken_step:
  assumes "broken cod p st"
  shows "broken cod p (fst (store_step pathFor cod lib ev (st, ms)))"
proof (cases ev)
  case (Appended out now i m)
  then show ?thesis using broken_appended[OF assms] by (simp add: Let_def case_prod_beta)
next
  case (Queried q)
  then show ?thesis
    using assms broken_query[OF assms] by (simp add: Query_def split: option.split)
qed

lemma broken_run: "broken cod p (fst s) \<Longrightarrow> broken cod p (fst (run (store_step pathFor cod lib) es s))"
proof (induction es arbitrary: s)
  case (Cons ev es)
  then show ?case using broken_step[of cod p "fst s" pathFor lib ev "snd s"] by simp
qed simp

lemma line_form: "line_ok cod m \<Longrightarrow> encode cod m = butlast (encode cod m) @ [newline_byte]
    \<and> newline_byte \<notin> set (butlast (encode cod m))"
  using append_butlast_last_id[of "encode cod m"] by (simp add: line_ok_def)

lemma lines_ended: "list_all (line_ok cod) ms \<Longrightarrow>
    bytes_of cod ms = ended (map (\<lambda>m. butlast (encode cod m)) ms)
    \<and> (\<forall>l \<in> set (map (\<lambda>m. butlast (encode cod m)) ms). newline_byte \<notin> set l)"
  using line_form by (induction ms) auto

lemma torn_then_broken:
  assumes "store_inv pathFor cod (st, ms)" "pathFor m = p" "pathFor m' = p" "suffix ''.ndjson'' p"
    and "line_ok cod m" "line_ok cod m'" "\<not> IsZero (ReceivedAt m)" "\<not> IsZero (ReceivedAt m')"
    and "ID m \<noteq> []" "ID m' \<noteq> []" "n < length (encode cod m)"
    and "decode_key cod (take n (encode cod m) @ encode cod m') = None"
  shows "broken cod p (fst (Append pathFor cod (Written t') now' i' m'
           (fst (Append pathFor cod (Cut n t err) now i m st))))"
proof -
  note facts = store_facts[OF assms(1)]
  let ?f = "case map_of (disk st) p of None \<Rightarrow> \<lparr>file_id = i, content = [], file_time = 0\<rparr> | Some f \<Rightarrow> f"
  let ?old = "in_file pathFor p ms"
  let ?line = "\<lambda>m. butlast (encode cod m)"
  let ?ls = "map ?line ?old"
  let ?bad = "take n (?line m) @ ?line m'"
  have old: "list_all (line_ok cod) ?old"
    using facts(1) in_file_ok[of "line_ok cod" ms] by (simp add: list_all_iff)
  have "content ?f = bytes_of cod ?old"
  proof (cases "map_of (disk st) p")
    case None
    then have "p \<notin> pathFor ` set ms" using facts(3) by (simp add: map_of_eq_None_iff)
    then have "?old = []" by (auto simp: in_file_def filter_empty_conv)
    with None show ?thesis by simp
  qed (use facts(4) in simp)
  then have bytes: "content ?f = ended ?ls" "\<forall>l \<in> set ?ls. newline_byte \<notin> set l"
    using lines_ended[OF old] by simp_all
  have cut: "take n (encode cod m) = take n (?line m)"
    using line_form[OF assms(5)] assms(11) by (metis butlast_snoc length_append_singleton less_Suc_eq_le take_append take_eq_Nil diff_is_0_eq append_Nil2)
  have bad: "newline_byte \<notin> set ?bad" "take n (encode cod m) @ encode cod m' = ?bad @ [newline_byte]"
    using line_form[OF assms(5)] line_form[OF assms(6)] cut by (auto dest: in_set_takeD)
  have index: "\<exists>k. info_size (info j) = length (ended (take k ?ls))" if j: "map_of (indexes st) p = Some j" for j
  proof -
    obtain f ys zs where y: "?old = ys @ zs" "index_good cod f ys j" using facts(5)[OF j] by blast
    then have "list_all (line_ok cod) ys" using old by simp
    then have "info_size (info j) = length (ended (map ?line ys))"
      using y(2) lines_ended[of cod ys] by (simp add: index_good_def)
    moreover have "map ?line ys = take (length ys) ?ls" using y(1) by simp
    ultimately show ?thesis by metis
  qed
  let ?st = "fst (Append pathFor cod (Written t') now' i' m' (fst (Append pathFor cod (Cut n t err) now i m st)))"
  have "map_of (disk ?st) p = Some (?f\<lparr>content := (content ?f @ take n (encode cod m)) @ encode cod m', file_time := t'\<rparr>)"
      "indexes ?st = indexes st" "distinct (map fst (disk ?st))"
    using assms(2,3,7-10) facts(2)
    by (simp_all add: Append_def Let_def update_conv' distinct_update split: option.split)
  moreover have "(content ?f @ take n (encode cod m)) @ encode cod m' = ended (?ls @ [?bad]) @ []"
    using bytes(1) bad(2) by simp
  ultimately show ?thesis
    unfolding broken_def
    using assms(4,12) bytes(2) bad index
    by (intro conjI exI[of _ "?f\<lparr>content := (content ?f @ take n (encode cod m)) @ encode cod m', file_time := t'\<rparr>"]
        exI[of _ ?ls] exI[of _ ?bad] exI[of _ "[]"]) auto
qed

text \<open>C34: A torn write ends all queries. When an append stops in the middle of a record (a full disk) and a later
  one adds a record to the same file, the two make one line that is no JSON; from then on every query of the store,
  for whatever hosts, times and page, fails, whatever is appended and asked in between.\<close>

theorem torn_write_blocks_queries:
  fixes now now' :: time and t t' :: int and i i' :: nat and err :: string and es :: "store_event list"
    and ms' :: "Message list"
  assumes "store_reachable pathFor cod lib (st, ms)" "pathFor m' = pathFor m" "suffix ''.ndjson'' (pathFor m)"
    and "line_ok cod m" "line_ok cod m'" "\<not> IsZero (ReceivedAt m)" "\<not> IsZero (ReceivedAt m')"
    and "ID m \<noteq> []" "ID m' \<noteq> []" "n < length (encode cod m)"
    and "decode_key cod (take n (encode cod m) @ encode cod m') = None"
    and "CompileTextFilter lib (QText q) \<noteq> None"
  defines "torn \<equiv> fst (Append pathFor cod (Cut n t err) now i m st)"
  defines "later \<equiv> fst (run (store_step pathFor cod lib) es (fst (Append pathFor cod (Written t') now' i' m' torn), ms'))"
  shows "snd (Query lib cod q later) = Inl IndexFailed"
proof -
  have "broken cod (pathFor m) (fst (Append pathFor cod (Written t') now' i' m' torn))"
    unfolding torn_def
    using assms(2-11) by (intro torn_then_broken[OF store_machine.reach_inv[OF assms(1)]]) simp_all
  then have "broken cod (pathFor m) later"
    unfolding later_def using broken_run by simp
  then show ?thesis
    using assms(12) broken_query by (auto simp: Query_def split: option.split)
qed

text \<open>The first byte of the line of message \<open>c\<close> is written, then message \<open>a\<close>; then two more queries and a
  message of another source.\<close>

theorem torn_write_blocks_queries_witness:
  "snd (Query sample_library sample_codec (plain_query 2 0)
     (fst (run (store_step sample_path sample_codec sample_library)
        [Queried (plain_query 1 0), Appended (Written 7) 9 4 (from_source ''b'' 7 ''y''), Queried (plain_query 1 1)]
        (fst (Append sample_path sample_codec (Written 6) 9 3 (from_source ''a'' 5 ''x'')
           (fst (Append sample_path sample_codec (Cut 1 5 ''disk full'') 9 3 (from_source ''c'' 6 ''x'') (fst sample_store)))),
         [])))) = Inl IndexFailed"
proof -
  obtain st ms where s: "sample_store = (st, ms)" by (cases sample_store)
  have m: "CompileTextFilter sample_library (QText (plain_query 2 0)) \<noteq> None"
    by (simp add: CompileTextFilter_def sample_library_def plain_query_def)
  have facts: "sample_path (from_source ''a'' 5 ''x'') = sample_path (from_source ''c'' 6 ''x'')"
    "suffix ''.ndjson'' (sample_path (from_source ''c'' 6 ''x''))"
    "line_ok sample_codec (from_source ''c'' 6 ''x'')" "line_ok sample_codec (from_source ''a'' 5 ''x'')"
    "\<not> IsZero (ReceivedAt (from_source ''c'' 6 ''x''))" "\<not> IsZero (ReceivedAt (from_source ''a'' 5 ''x''))"
    "ID (from_source ''c'' 6 ''x'') \<noteq> []" "ID (from_source ''a'' 5 ''x'') \<noteq> []"
    "1 < length (encode sample_codec (from_source ''c'' 6 ''x''))"
    "decode_key sample_codec (take 1 (encode sample_codec (from_source ''c'' 6 ''x''))
       @ encode sample_codec (from_source ''a'' 5 ''x'')) = None"
    by code_simp+
  show ?thesis
    unfolding s fst_conv by (rule torn_write_blocks_queries[OF sample_store_reachable[unfolded s] facts m])
qed

end
