(* ===== verification/Append_Reader.thy ===== *)
theory Append_Reader
  imports Store_Query Incident_Engine
begin

text \<open>
  \<open>internal/storage/append_reader.go\<close>: the reader the incident worker polls. It remembers, for each file
  of the store, how far it has read and a fingerprint of what lies before; a visit hands out the complete lines that
  follow. A visit reads the directory first and the files one after the other while others append to them, so what it
  finds of each file is an argument. The digest is the parameter \<open>sha\<close>; the root directory is as
  \<open>filepath.Clean\<close> leaves it.
\<close>

section \<open>A visit\<close>

record StoredRecord =
  RecMessage :: Message
  RecFile :: string
  RecOffset :: int

datatype visit_error = PartitionChanged string | DecodeFailed string int | VisitFailed

definition PartitionChangedFile :: "visit_error \<Rightarrow> string option" where
  "PartitionChangedFile e = (case e of PartitionChanged f \<Rightarrow> Some f | _ \<Rightarrow> None)"

text \<open>\<open>ReadAt\<close> into a buffer of zeros: past the end of the file the zeros stay.\<close>

definition read_at :: "nat \<Rightarrow> nat \<Rightarrow> string \<Rightarrow> string" where
  "read_at off n s = (let d = take n (drop off s) in d @ replicate (n - length d) CHR 0x00)"

definition windowSize :: nat where
  "windowSize = 2048"

definition fileFingerprint :: "(string \<Rightarrow> string) \<Rightarrow> string \<Rightarrow> nat \<Rightarrow> string" where
  "fileFingerprint sha s width =
     (let n = min width windowSize
      in sha (read_at 0 n s @ (if windowSize < width then read_at (width - n) n s else [])))"

text \<open>The loop over the lines, from an offset on: a rest without a newline is left for later.\<close>

fun read_lines :: "codec \<Rightarrow> string \<Rightarrow> int \<Rightarrow> string list \<Rightarrow> visit_error + StoredRecord list \<times> int" where
  "read_lines cod key current [] = Inr ([], current)"
| "read_lines cod key current (line # lines) =
     (if last line \<noteq> newline_byte then Inr ([], current)
      else (case decode cod line of
              None \<Rightarrow> Inl (DecodeFailed key current)
            | Some m \<Rightarrow>
                let current = current + int (length line)
                in map_sum id (\<lambda>(rs, stop). (\<lparr>RecMessage = m, RecFile = key, RecOffset = current\<rparr> # rs, stop))
                     (read_lines cod key current lines)))"

text \<open>What a visit finds of a file: the size when it asks for it, and the bytes when it reads, unless an
  operation of the file system fails or the context is done.\<close>

datatype file_view = No_stat | Seen nat "string option"

definition no_cursor :: Cursor where
  "no_cursor = \<lparr>CursorOffset = 0, Fingerprint = []\<rparr>"

definition visit_file ::
  "(string \<Rightarrow> string) \<Rightarrow> codec \<Rightarrow> string \<Rightarrow> Cursor \<Rightarrow> file_view \<Rightarrow> visit_error + StoredRecord list \<times> Cursor" where
  "visit_file sha cod key c v =
     (case v of
        No_stat \<Rightarrow> Inl VisitFailed
      | Seen found contents \<Rightarrow>
          if CursorOffset c < 0 \<or> int found < CursorOffset c then Inl (PartitionChanged key)
          else (case contents of
                  None \<Rightarrow> Inl VisitFailed
                | Some s \<Rightarrow>
                    if Fingerprint c \<noteq> [] \<and> Fingerprint c \<noteq> fileFingerprint sha s (nat (CursorOffset c))
                    then Inl (PartitionChanged key)
                    else map_sum id
                           (\<lambda>(rs, current). (rs, \<lparr>CursorOffset = current,
                                                  Fingerprint = fileFingerprint sha s (nat current)\<rparr>))
                           (read_lines cod key (CursorOffset c) (scan_lines (drop (nat (CursorOffset c)) s)))))"

fun visit_files ::
  "(string \<Rightarrow> string) \<Rightarrow> codec \<Rightarrow> (string \<Rightarrow> file_view) \<Rightarrow> (string \<times> string) list \<Rightarrow> Cursor gomap
   \<Rightarrow> visit_error + StoredRecord list \<times> Cursor gomap" where
  "visit_files sha cod view [] next = Inr ([], next)"
| "visit_files sha cod view ((path, key) # files) next =
     (case visit_file sha cod key (case map_of next key of None \<Rightarrow> no_cursor | Some c \<Rightarrow> c) (view path) of
        Inl e \<Rightarrow> Inl e
      | Inr (rs, c) \<Rightarrow>
          map_sum id (\<lambda>(rs', next). (rs @ rs', next)) (visit_files sha cod view files (AList.update key c next)))"

text \<open>\<open>filepath.Rel\<close> of a path below the directory, with slashes.\<close>

definition relative :: "string \<Rightarrow> string \<Rightarrow> string" where
  "relative dir path = drop (Suc (length dir)) path"

text \<open>The records a visit hands to its callback, and the cursors it returns. Of several files that have
  vanished, the error names the one that Go's iteration over the cursors, \<open>ord\<close>, meets first.\<close>

definition VisitAfter ::
  "(string \<Rightarrow> string) \<Rightarrow> codec \<Rightarrow> string \<Rightarrow> (Cursor gomap \<Rightarrow> Cursor gomap) \<Rightarrow> string list \<Rightarrow> (string \<Rightarrow> file_view)
   \<Rightarrow> Cursor gomap \<Rightarrow> visit_error + StoredRecord list \<times> Cursor gomap" where
  "VisitAfter sha cod dir ord listing view cursors =
     (let files = map (\<lambda>path. (path, relative dir path)) (sort listing)
      in case visit_files sha cod view files cursors of
           Inl e \<Rightarrow> Inl e
         | Inr (rs, next) \<Rightarrow>
             (case find (\<lambda>(key, c). 0 < CursorOffset c \<and> key \<notin> set (map snd files)) (ord cursors) of
                Some (key, c) \<Rightarrow> Inl (PartitionChanged key)
              | None \<Rightarrow> Inr (rs, next)))"

section \<open>Complete lines\<close>

definition whole_lines :: "string \<Rightarrow> string list" where
  "whole_lines s = filter (\<lambda>l. last l = newline_byte) (scan_lines s)"

abbreviation read_length :: "string \<Rightarrow> nat" where
  "read_length s \<equiv> length (concat (whole_lines s))"

lemma scan_lines_Nil [simp]: "scan_lines s = [] \<longleftrightarrow> s = []"
  by (cases s) (auto split: list.split)

lemma scan_lines_not_empty: "[] \<notin> set (scan_lines s)"
  by (induction s) (auto split: list.split)

lemma scan_no_newline: "newline_byte \<notin> set s \<Longrightarrow> s \<noteq> [] \<Longrightarrow> scan_lines s = [s]"
proof (induction s)
  case (Cons c s)
  then show ?case by (cases "s = []") auto
qed simp

text \<open>A text is complete lines and a rest without a newline.\<close>

lemma cut_at_last_newline:
  obtains ls rest where "s = concat (map (\<lambda>l. l @ [newline_byte]) ls) @ rest"
    "\<forall>l \<in> set ls. newline_byte \<notin> set l" "newline_byte \<notin> set rest"
proof (induction s arbitrary: thesis rule: rev_induct)
  case Nil
  then show ?case by (metis append_Nil concat.simps(1) empty_iff list.set(1) list.simps(8))
next
  case (snoc c s)
  obtain ls rest where s: "s = concat (map (\<lambda>l. l @ [newline_byte]) ls) @ rest"
    "\<forall>l \<in> set ls. newline_byte \<notin> set l" "newline_byte \<notin> set rest" using snoc.IH by blast
  show ?case
  proof (cases "c = newline_byte")
    case True
    then show ?thesis using s by (intro snoc.prems[of "ls @ [rest]" "[]"]) auto
  next
    case False
    then show ?thesis using s by (intro snoc.prems[of ls "rest @ [c]"]) auto
  qed
qed

lemma scan_cut:
  assumes "\<forall>l \<in> set ls. newline_byte \<notin> set l"
  shows "scan_lines (concat (map (\<lambda>l. l @ [newline_byte]) ls) @ t) = map (\<lambda>l. l @ [newline_byte]) ls @ scan_lines t"
  using assms by (induction ls) (simp_all add: scan_one)

lemma whole_lines_cut:
  assumes "\<forall>l \<in> set ls. newline_byte \<notin> set l"
  shows "whole_lines (concat (map (\<lambda>l. l @ [newline_byte]) ls) @ t) = map (\<lambda>l. l @ [newline_byte]) ls @ whole_lines t"
  by (simp add: whole_lines_def scan_cut[OF assms] o_def)

lemma whole_lines_rest: "newline_byte \<notin> set t \<Longrightarrow> whole_lines t = []"
  by (cases "t = []") (auto simp: whole_lines_def scan_no_newline dest: last_in_set)

text \<open>What was read stays read: when a text grows, its complete lines stay, and the new ones are those
  that follow the offset.\<close>

lemma whole_lines_grow:
  "whole_lines (s @ t) = whole_lines s @ whole_lines (drop (read_length s) (s @ t)) \<and> read_length s \<le> length s
   \<and> take (read_length s) s = concat (whole_lines s)"
proof -
  obtain ls rest where s: "s = concat (map (\<lambda>l. l @ [newline_byte]) ls) @ rest"
    "\<forall>l \<in> set ls. newline_byte \<notin> set l" "newline_byte \<notin> set rest"
    using cut_at_last_newline by blast
  have w: "whole_lines s = map (\<lambda>l. l @ [newline_byte]) ls"
    using s by (simp add: whole_lines_cut whole_lines_rest)
  have "drop (read_length s) (s @ t) = rest @ t"
    unfolding w by (simp add: s(1))
  moreover have "whole_lines (s @ t) = whole_lines s @ whole_lines (rest @ t)"
    unfolding w using whole_lines_cut[OF s(2), of "rest @ t"] by (simp add: s(1))
  moreover have "read_length s \<le> length s" "take (read_length s) s = concat (whole_lines s)"
    unfolding w by (simp_all add: s(1))
  ultimately show ?thesis by simp
qed

section \<open>A file that grows\<close>

text \<open>The records of complete lines, the first of which starts at an offset.\<close>

fun records_of :: "codec \<Rightarrow> string \<Rightarrow> int \<Rightarrow> string list \<Rightarrow> StoredRecord list" where
  "records_of cod key off [] = []"
| "records_of cod key off (l # ls) =
     \<lparr>RecMessage = the (decode cod l), RecFile = key, RecOffset = off + int (length l)\<rparr>
       # records_of cod key (off + int (length l)) ls"

definition decodes :: "codec \<Rightarrow> string \<Rightarrow> bool" where
  "decodes cod s \<longleftrightarrow> list_all (\<lambda>l. decode cod l \<noteq> None) (whole_lines s)"

lemma records_of_append:
  "records_of cod key off (ls @ ms) =
     records_of cod key off ls @ records_of cod key (off + int (length (concat ls))) ms"
  by (induction ls arbitrary: off) (simp_all add: add.assoc)

lemma records_of_key: "r \<in> set (records_of cod key off ls) \<Longrightarrow> RecFile r = key"
  by (induction ls arbitrary: off) auto

lemma read_lines_append:
  assumes "list_all (\<lambda>l. last l = newline_byte \<and> decode cod l \<noteq> None) ls"
  shows "read_lines cod key off (ls @ ms) =
    map_sum id (\<lambda>(rs, stop). (records_of cod key off ls @ rs, stop))
      (read_lines cod key (off + int (length (concat ls))) ms)"
  using assms
proof (induction ls arbitrary: off)
  case Nil
  then show ?case by (cases "read_lines cod key off ms") auto
next
  case (Cons l ls)
  then show ?case
    by (cases "read_lines cod key (off + int (length l) + int (length (concat ls))) ms")
      (auto simp: Let_def add.assoc)
qed

lemma read_lines_whole:
  assumes "decodes cod t"
  shows "read_lines cod key off (scan_lines t) =
    Inr (records_of cod key off (whole_lines t), off + int (read_length t))"
proof -
  obtain ls rest where t: "t = concat (map (\<lambda>l. l @ [newline_byte]) ls) @ rest"
    "\<forall>l \<in> set ls. newline_byte \<notin> set l" "newline_byte \<notin> set rest"
    using cut_at_last_newline by blast
  have w: "whole_lines t = map (\<lambda>l. l @ [newline_byte]) ls"
    using t by (simp add: whole_lines_cut whole_lines_rest)
  have "read_lines cod key k (scan_lines rest) = Inr ([], k)" for k
    using t(3) by (cases "rest = []") (auto simp: scan_no_newline dest: last_in_set)
  moreover have "list_all (\<lambda>l. last l = newline_byte \<and> decode cod l \<noteq> None) (whole_lines t)"
    using assms by (auto simp: decodes_def w list_all_iff)
  moreover have "scan_lines t = whole_lines t @ scan_lines rest"
    unfolding w by (subst t(1)) (rule scan_cut[OF t(2)])
  ultimately show ?thesis by (simp add: read_lines_append)
qed

lemma fingerprint_grows: "n \<le> length s \<Longrightarrow> fileFingerprint sha (s @ t) n = fileFingerprint sha s n"
  by (auto simp: fileFingerprint_def read_at_def Let_def)

definition cursor_of :: "(string \<Rightarrow> string) \<Rightarrow> string \<Rightarrow> Cursor" where
  "cursor_of sha s = \<lparr>CursorOffset = int (read_length s), Fingerprint = fileFingerprint sha s (read_length s)\<rparr>"

text \<open>What a file may look like to a visit after bytes of it were read: grown, or out of reach.\<close>

definition grown :: "codec \<Rightarrow> string \<Rightarrow> file_view \<Rightarrow> bool" where
  "grown cod old v \<longleftrightarrow>
     (case v of
        No_stat \<Rightarrow> True
      | Seen found contents \<Rightarrow>
          length old \<le> found \<and> (case contents of None \<Rightarrow> True | Some s \<Rightarrow> prefix old s \<and> decodes cod s))"

definition bytes_seen :: "file_view \<Rightarrow> string option" where
  "bytes_seen v = (case v of Seen found (Some s) \<Rightarrow> Some s | _ \<Rightarrow> None)"

lemma decodes_rest: "decodes cod (s @ t) \<Longrightarrow> decodes cod (drop (read_length s) (s @ t))"
  using whole_lines_grow[of s t] by (auto simp: decodes_def)

lemma visit_grown:
  assumes "grown cod old v" "c = cursor_of sha old \<or> c = no_cursor \<and> old = []"
  shows "visit_file sha cod key c v =
    (case bytes_seen v of
       None \<Rightarrow> Inl VisitFailed
     | Some s \<Rightarrow> Inr (records_of cod key (int (read_length old)) (whole_lines (drop (read_length old) s)), cursor_of sha s))"
proof (cases v)
  case (Seen found contents)
  have off: "CursorOffset c = int (read_length old)"
    using assms(2) by (auto simp: cursor_of_def no_cursor_def whole_lines_def)
  have small: "read_length old \<le> length old" using whole_lines_grow[of old "[]"] by blast
  show ?thesis
  proof (cases contents)
    case None
    with Seen assms(1) off small show ?thesis
      by (auto simp: visit_file_def grown_def bytes_seen_def)
  next
    case (Some s)
    with assms(1) Seen obtain t where s: "s = old @ t" "decodes cod s" "length old \<le> found"
      by (auto simp: grown_def prefix_def)
    have "Fingerprint c \<noteq> [] \<longrightarrow> Fingerprint c = fileFingerprint sha s (read_length old)"
      using assms(2) small by (auto simp: cursor_of_def no_cursor_def s(1) fingerprint_grows)
    moreover have "read_length s = read_length old + read_length (drop (read_length old) s)"
      using whole_lines_grow[of old t] unfolding s(1) by (metis concat_append length_append)
    moreover have "decodes cod (drop (read_length old) s)"
      using s decodes_rest by simp
    ultimately show ?thesis
      using Some Seen s(3) off small
      by (auto simp: visit_file_def bytes_seen_def read_lines_whole cursor_of_def simp flip: of_nat_add)
  qed
qed (simp add: visit_file_def bytes_seen_def)

section \<open>The files of a directory\<close>

text \<open>The bytes of a file an earlier visit has seen.\<close>

definition old_bytes :: "(string \<times> string) list \<Rightarrow> string \<Rightarrow> string" where
  "old_bytes kn path = (case map_of kn path of None \<Rightarrow> [] | Some s \<Rightarrow> s)"

definition news :: "codec \<Rightarrow> (string \<times> string) list \<Rightarrow> (string \<Rightarrow> file_view) \<Rightarrow> string \<times> string \<Rightarrow> StoredRecord list" where
  "news cod kn view f =
     (let old = old_bytes kn (fst f)
      in records_of cod (snd f) (int (read_length old))
           (whole_lines (drop (read_length old) (the (bytes_seen (view (fst f)))))))"

definition cursor_now :: "(string \<Rightarrow> string) \<Rightarrow> (string \<Rightarrow> file_view) \<Rightarrow> string \<Rightarrow> Cursor" where
  "cursor_now sha view path = cursor_of sha (the (bytes_seen (view path)))"

abbreviation cursors_now ::
  "(string \<Rightarrow> string) \<Rightarrow> (string \<Rightarrow> file_view) \<Rightarrow> (string \<times> string) list \<Rightarrow> Cursor gomap \<Rightarrow> Cursor gomap" where
  "cursors_now sha view \<equiv> fold (\<lambda>f. AList.update (snd f) (cursor_now sha view (fst f)))"

lemma cursors_now_map:
  assumes "distinct (map snd files)"
  shows "map_of (cursors_now sha view files cs) key =
    (case find (\<lambda>f. snd f = key) files of None \<Rightarrow> map_of cs key | Some f \<Rightarrow> Some (cursor_now sha view (fst f)))"
  using assms
proof (induction files arbitrary: cs)
  case (Cons f files)
  have "find (\<lambda>g. snd g = snd f) files = None"
    using Cons.prems unfolding find_None_iff by (auto simp: image_iff)
  with Cons show ?case by (auto simp: update_conv' split: option.split)
qed simp

lemma visit_files_grown:
  assumes "distinct (map snd files)"
    and "\<forall>f \<in> set files. grown cod (old_bytes kn (fst f)) (view (fst f))
           \<and> map_of cs (snd f) = map_option (cursor_of sha) (map_of kn (fst f))"
  shows "visit_files sha cod view files cs =
    (if list_all (\<lambda>f. bytes_seen (view (fst f)) \<noteq> None) files
     then Inr (concat (map (news cod kn view) files), cursors_now sha view files cs)
     else Inl VisitFailed)"
  using assms
proof (induction files arbitrary: cs)
  case (Cons f files)
  obtain path key where f: "f = (path, key)" by fastforce
  let ?c = "case map_of cs key of None \<Rightarrow> no_cursor | Some c \<Rightarrow> c"
  have "?c = cursor_of sha (old_bytes kn path) \<or> ?c = no_cursor \<and> old_bytes kn path = []"
    using Cons.prems(2) f by (auto simp: old_bytes_def split: option.split)
  then have one: "visit_file sha cod key ?c (view path) =
      (case bytes_seen (view path) of
         None \<Rightarrow> Inl VisitFailed
       | Some s \<Rightarrow> Inr (news cod kn view f, cursor_now sha view path))"
    using Cons.prems(2) f visit_grown[of cod "old_bytes kn path" "view path" ?c sha key]
    by (auto simp: news_def cursor_now_def Let_def split: option.split)
  have "map_of (AList.update key x cs) (snd g) = map_of cs (snd g)" if "g \<in> set files" for g x
    using Cons.prems(1) f that by (auto simp: update_conv')
  then have "visit_files sha cod view files (AList.update key (cursor_now sha view path) cs) =
    (if list_all (\<lambda>f. bytes_seen (view (fst f)) \<noteq> None) files
     then Inr (concat (map (news cod kn view) files),
               cursors_now sha view files (AList.update key (cursor_now sha view path) cs))
     else Inl VisitFailed)"
    using Cons.prems by (intro Cons.IH) auto
  with one f show ?case by (cases "bytes_seen (view path)") auto
qed simp

section \<open>The reader as a machine\<close>

text \<open>The cursors after the last visit that succeeded, and beside them the records handed out by all of
  these, in order, and the bytes the last one saw.\<close>

record reader =
  reader_cursors :: "Cursor gomap"
  handed :: "StoredRecord list"
  seen_files :: "(string \<times> string) list"
  troubles :: "visit_error list"

definition new_reader :: reader where
  "new_reader = \<lparr>reader_cursors = [], handed = [], seen_files = [], troubles = []\<rparr>"

text \<open>A visit: what the directory lists, what is found of each file, and the order in which the cursors
  are gone through.\<close>

datatype visit = Visit "string list" "string \<Rightarrow> file_view" "Cursor gomap \<Rightarrow> Cursor gomap"

fun reader_step ::
  "(string \<Rightarrow> string) \<Rightarrow> codec \<Rightarrow> string \<Rightarrow> visit \<Rightarrow> reader \<Rightarrow> reader" where
  "reader_step sha cod dir (Visit listing view ord) s =
     (case VisitAfter sha cod dir ord listing view (reader_cursors s) of
        Inl e \<Rightarrow> s\<lparr>troubles := troubles s @ [e]\<rparr>
      | Inr (rs, cs) \<Rightarrow>
          s\<lparr>reader_cursors := cs, handed := handed s @ rs,
            seen_files := map (\<lambda>path. (path, the (bytes_seen (view path)))) listing\<rparr>)"

text \<open>The world only appends: no file vanishes, none loses bytes, and every complete line is a message.
  Operations of the file system may fail, and a last line may be seen half written.\<close>

fun reader_allowed :: "codec \<Rightarrow> string \<Rightarrow> reader \<Rightarrow> visit \<Rightarrow> bool" where
  "reader_allowed cod dir s (Visit listing view ord) \<longleftrightarrow>
     distinct listing \<and> list_all (prefix (dir @ ''/'')) listing
     \<and> list_all (\<lambda>f. fst f \<in> set listing) (seen_files s)
     \<and> list_all (\<lambda>path. grown cod (old_bytes (seen_files s) path) (view path)) listing
     \<and> set (ord (reader_cursors s)) = set (reader_cursors s)"

lemma relative_inj: "prefix (dir @ ''/'') p \<Longrightarrow> prefix (dir @ ''/'') q \<Longrightarrow> relative dir p = relative dir q \<longleftrightarrow> p = q"
  by (auto simp: prefix_def relative_def)

definition reader_inv :: "(string \<Rightarrow> string) \<Rightarrow> codec \<Rightarrow> string \<Rightarrow> reader \<Rightarrow> bool" where
  "reader_inv sha cod dir s \<longleftrightarrow>
     distinct (map fst (seen_files s)) \<and> list_all (\<lambda>f. prefix (dir @ ''/'') (fst f)) (seen_files s)
     \<and> map_of (reader_cursors s) = map_of (map (\<lambda>(p, b). (relative dir p, cursor_of sha b)) (seen_files s))
     \<and> list_all (\<lambda>r. RecFile r \<in> relative dir ` set (map fst (seen_files s))) (handed s)
     \<and> list_all (\<lambda>(p, b). filter (\<lambda>r. RecFile r = relative dir p) (handed s)
                           = records_of cod (relative dir p) 0 (whole_lines b)) (seen_files s)
     \<and> set (troubles s) \<subseteq> {VisitFailed}"

lemma map_of_renamed:
  assumes "inj_on f A" "p \<in> A" "fst ` set fs \<subseteq> A"
  shows "map_of (map (\<lambda>(q, b). (f q, g b)) fs) (f p) = map_option g (map_of fs p)"
  using assms(3)
proof (induction fs)
  case (Cons x fs)
  then show ?case using inj_on_eq_iff[OF assms(1) _ assms(2), of "fst x"] by (cases x) auto
qed simp

lemma VisitAfter_grown:
  assumes "reader_inv sha cod dir s" "reader_allowed cod dir s (Visit listing view ord)"
  defines "files \<equiv> map (\<lambda>path. (path, relative dir path)) (sort listing)"
  shows "VisitAfter sha cod dir ord listing view (reader_cursors s) =
    (if list_all (\<lambda>path. bytes_seen (view path) \<noteq> None) listing
     then Inr (concat (map (news cod (seen_files s) view) files), cursors_now sha view files (reader_cursors s))
     else Inl VisitFailed)"
proof -
  have inj: "inj_on (relative dir) (set listing)"
    using assms(2) relative_inj by (auto simp: inj_on_def list_all_iff)
  then have dist: "distinct (map snd files)"
    using assms(2) by (simp add: files_def distinct_map o_def)
  have known: "map_of (reader_cursors s) (relative dir p) = map_option (cursor_of sha) (map_of (seen_files s) p)"
    if "p \<in> set listing" for p
    using map_of_renamed[OF inj that, of "seen_files s" "cursor_of sha"] assms(1,2)
    by (simp add: reader_inv_def list_all_iff image_subset_iff)
  have "visit_files sha cod view files (reader_cursors s) =
    (if list_all (\<lambda>f. bytes_seen (view (fst f)) \<noteq> None) files
     then Inr (concat (map (news cod (seen_files s) view) files), cursors_now sha view files (reader_cursors s))
     else Inl VisitFailed)"
    using dist known assms(2) by (intro visit_files_grown) (auto simp: files_def list_all_iff)
  moreover have "find (\<lambda>(key, c). 0 < CursorOffset c \<and> key \<notin> set (map snd files)) (ord (reader_cursors s)) = None"
  proof -
    have "key \<in> set (map snd files)" if member: "(key, c) \<in> set (reader_cursors s)" for key c
    proof -
      obtain d where "map_of (reader_cursors s) key = Some d"
        using weak_map_of_SomeI[OF member] by blast
      then have "map_of (map (\<lambda>(p, b). (relative dir p, cursor_of sha b)) (seen_files s)) key = Some d"
        using assms(1) by (simp add: reader_inv_def)
      from map_of_SomeD[OF this] have "key \<in> relative dir ` fst ` set (seen_files s)" by force
      then show ?thesis using assms(2) by (auto simp: files_def list_all_iff)
    qed
    then show ?thesis using assms(2) by (auto simp: find_None_iff)
  qed
  ultimately show ?thesis
    by (simp add: VisitAfter_def files_def[symmetric] list_all_iff) (auto simp: files_def)
qed

lemma filter_news:
  assumes "distinct (map snd files)" "f \<in> set files"
  shows "filter (\<lambda>r. RecFile r = snd f) (concat (map (news cod kn view) files)) = news cod kn view f"
  using assms
proof (induction files)
  case (Cons g files)
  have own: "filter (\<lambda>r. RecFile r = snd g) (news cod kn view g) = news cod kn view g" for g
    by (auto simp: news_def Let_def filter_id_conv dest: records_of_key)
  have other: "filter (\<lambda>r. RecFile r = key) (news cod kn view g) = []" if "key \<noteq> snd g" for g key
    using that by (auto simp: news_def Let_def filter_empty_conv dest: records_of_key)
  have none: "filter (\<lambda>r. RecFile r = snd g) (concat (map (news cod kn view) files)) = []"
    using Cons.prems(1) by (auto simp: filter_concat o_def intro!: other)
  show ?case
  proof (cases "f = g")
    case True
    then show ?thesis using own none by simp
  next
    case False
    with Cons.prems(2) have "f \<in> set files" "snd f \<in> set (map snd files)" by auto
    moreover have "snd g \<notin> set (map snd files)" using Cons.prems(1) by simp
    ultimately have "f \<in> set files" "snd f \<noteq> snd g" by metis+
    then show ?thesis using Cons other by simp
  qed
qed simp

lemma find_key:
  assumes "inj_on k (set xs)" "x \<in> set xs"
  shows "find (\<lambda>f. snd f = k x) (map (\<lambda>x. (x, k x)) xs) = Some (x, k x)"
  using assms by (induction xs) (auto simp: inj_on_def)

lemma records_together:
  assumes "filter (\<lambda>r. RecFile r = relative dir p) rs = records_of cod (relative dir p) 0 (whole_lines (old_bytes kn p))"
    and "prefix (old_bytes kn p) b" "bytes_seen (view p) = Some b"
  shows "filter (\<lambda>r. RecFile r = relative dir p) rs @ news cod kn view (p, relative dir p)
    = records_of cod (relative dir p) 0 (whole_lines b)"
proof -
  obtain t where b: "b = old_bytes kn p @ t" using assms(2) by (auto simp: prefix_def)
  have "whole_lines b = whole_lines (old_bytes kn p) @ whole_lines (drop (read_length (old_bytes kn p)) b)"
    unfolding b by (rule conjunct1[OF whole_lines_grow])
  then show ?thesis using assms(1,3) records_of_append[of cod _ 0] by (simp add: news_def Let_def)
qed

lemma reader_inv_step:
  assumes "reader_inv sha cod dir s" "reader_allowed cod dir s v"
  shows "reader_inv sha cod dir (reader_step sha cod dir v s)"
proof -
  obtain listing view ord where v: "v = Visit listing view ord" by (cases v)
  note visit = VisitAfter_grown[OF assms(1) assms(2)[unfolded v]]
  let ?files = "map (\<lambda>path. (path, relative dir path)) (sort listing)"
  let ?b = "\<lambda>p. the (bytes_seen (view p))"
  show ?thesis
  proof (cases "list_all (\<lambda>path. bytes_seen (view path) \<noteq> None) listing")
    case False
    then have "reader_step sha cod dir v s = s\<lparr>troubles := troubles s @ [VisitFailed]\<rparr>"
      by (simp add: v visit)
    with assms(1) show ?thesis by (simp add: reader_inv_def)
  next
    case True
    then have step: "reader_step sha cod dir v s =
        s\<lparr>reader_cursors := cursors_now sha view ?files (reader_cursors s),
          handed := handed s @ concat (map (news cod (seen_files s) view) ?files),
          seen_files := map (\<lambda>path. (path, ?b path)) listing\<rparr>"
      by (simp add: v visit)
    have inj: "inj_on (relative dir) (set listing)"
      using assms(2) relative_inj by (auto simp: v inj_on_def list_all_iff)
    then have dist: "distinct (map snd ?files)"
      using assms(2) by (simp add: v distinct_map o_def)
    have seen: "fst ` set (seen_files s) \<subseteq> set listing"
      using assms(2) by (auto simp: v list_all_iff)
    have "map_of (cursors_now sha view ?files (reader_cursors s)) key =
        map_of (map (\<lambda>(p, b). (relative dir p, cursor_of sha b)) (map (\<lambda>path. (path, ?b path)) listing)) key" for key
    proof (cases "\<exists>p \<in> set listing. relative dir p = key")
      case True
      then obtain p where p: "p \<in> set listing" "key = relative dir p" by blast
      have "map_of (map (\<lambda>path. (path, ?b path)) listing) p = Some (?b p)"
        using p(1) by (simp add: map_of_map_restrict)
      moreover have "find (\<lambda>f. snd f = key) ?files = Some (p, key)"
        using find_key[of "relative dir" "sort listing" p] inj p by simp
      ultimately show ?thesis
        unfolding cursors_now_map[OF dist]
        using map_of_renamed[OF inj p(1), of "map (\<lambda>path. (path, ?b path)) listing" "cursor_of sha"]
        by (simp add: cursor_now_def p(2) o_def image_def)
    next
      case False
      then have "find (\<lambda>f. snd f = key) ?files = None"
        by (auto simp: find_None_iff)
      moreover have none: "map_of (map (\<lambda>(p, b). (relative dir p, cursor_of sha b)) fs) key = None"
        if "fst ` set fs \<subseteq> set listing" for fs
        using False that by (force simp: map_of_eq_None_iff)
      ultimately show ?thesis
        unfolding cursors_now_map[OF dist]
        using assms(1) none[OF seen] none[of "map (\<lambda>path. (path, ?b path)) listing"]
        by (simp add: reader_inv_def image_image)
    qed
    then have cursors: "map_of (cursors_now sha view ?files (reader_cursors s)) =
        map_of (map (\<lambda>(p, b). (relative dir p, cursor_of sha b)) (map (\<lambda>path. (path, ?b path)) listing))" by blast
    have before: "filter (\<lambda>r. RecFile r = relative dir p) (handed s)
        = records_of cod (relative dir p) 0 (whole_lines (old_bytes (seen_files s) p))" if "p \<in> set listing" for p
    proof (cases "map_of (seen_files s) p")
      case None
      have "RecFile r \<noteq> relative dir p" if r: "r \<in> set (handed s)" for r
      proof
        assume same: "RecFile r = relative dir p"
        have "RecFile r \<in> relative dir ` fst ` set (seen_files s)"
          using assms(1) r by (simp add: reader_inv_def list_all_iff)
        then obtain q where q: "q \<in> fst ` set (seen_files s)" "RecFile r = relative dir q" by blast
        with same seen inj \<open>p \<in> set listing\<close> have "q = p" by (auto dest: inj_onD)
        with q(1) None show False by (simp add: map_of_eq_None_iff)
      qed
      then show ?thesis using None by (simp add: old_bytes_def whole_lines_def filter_empty_conv)
    next
      case (Some b)
      with assms(1) show ?thesis
        by (auto simp: reader_inv_def list_all_iff old_bytes_def dest: map_of_SomeD)
    qed
    have "filter (\<lambda>r. RecFile r = relative dir p) (handed s @ concat (map (news cod (seen_files s) view) ?files))
        = records_of cod (relative dir p) 0 (whole_lines (?b p))" if p: "p \<in> set listing" for p
    proof -
      obtain b where b: "bytes_seen (view p) = Some b" using True p by (auto simp: list_all_iff)
      moreover have "prefix (old_bytes (seen_files s) p) b"
        using assms(2) p b by (auto simp: v list_all_iff grown_def bytes_seen_def split: file_view.splits option.splits)
      ultimately show ?thesis
        using records_together[OF before[OF p]] filter_news[OF dist, of "(p, relative dir p)"] p
        by simp
    qed
    moreover have "RecFile r \<in> relative dir ` set listing"
      if "r \<in> set (handed s @ concat (map (news cod (seen_files s) view) ?files))" for r
      using that assms(1) seen by (fastforce simp: reader_inv_def list_all_iff news_def Let_def dest: records_of_key)
    ultimately show ?thesis
      using assms cursors unfolding step reader_inv_def
      by (simp add: v list_all_iff o_def)
  qed
qed

lemma reader_inv_start: "reader_inv sha cod dir new_reader"
  by (simp add: reader_inv_def new_reader_def)

interpretation reader_machine: invariant_machine "\<lambda>s. s = new_reader" "reader_step sha cod dir"
  "reader_allowed cod dir" "reader_inv sha cod dir" for sha cod dir
  by unfold_locales (simp_all add: reader_inv_start reader_inv_step)

abbreviation reader_reachable :: "(string \<Rightarrow> string) \<Rightarrow> codec \<Rightarrow> string \<Rightarrow> reader \<Rightarrow> bool" where
  "reader_reachable sha cod dir \<equiv> reach (\<lambda>s. s = new_reader) (reader_step sha cod dir) (reader_allowed cod dir)"

section \<open>Every message is read once\<close>

text \<open>C16: Nothing is read twice and nothing is skipped. While others only append, whenever visits happen,
  whatever operation of the file system fails in one of them and however much of a last line they see, no visit takes
  a file for replaced; and the records handed out for a file are, in order and with their offsets, exactly its complete
  lines as the last successful visit saw it.\<close>

theorem reader_hands_out_once:
  assumes "reader_reachable sha cod dir s"
  shows "(\<forall>(p, b) \<in> set (seen_files s).
            filter (\<lambda>r. RecFile r = relative dir p) (handed s) = records_of cod (relative dir p) 0 (whole_lines b))
       \<and> RecFile ` set (handed s) \<subseteq> relative dir ` fst ` set (seen_files s)
       \<and> set (troubles s) \<subseteq> {VisitFailed}"
  using reader_machine.reach_inv[OF assms] by (auto simp: reader_inv_def list_all_iff)

text \<open>The second message is seen half written, then a visit fails, then all is there.\<close>

definition sample_view :: "string \<Rightarrow> string \<Rightarrow> string \<Rightarrow> file_view" where
  "sample_view b c p =
     (if p = ''log/x.ndjson'' then Seen (length b) (Some b)
      else if c = [] then No_stat else Seen (length c) (Some c))"

definition sample_visits :: "visit list" where
  "sample_visits =
     (let x = ''log/x.ndjson''; y = ''log/y.ndjson''
      in [Visit [x] (sample_view (''a'' @ [newline_byte] @ ''c'') []) id,
          Visit [x, y] (sample_view (''a'' @ [newline_byte] @ ''c'') []) rev,
          Visit [y, x] (sample_view (''a'' @ [newline_byte] @ ''c'' @ [newline_byte]) (''b'' @ [newline_byte])) id])"

definition sample_reader :: reader where
  "sample_reader = run (reader_step id sample_codec ''log'') sample_visits new_reader"

lemma sample_reader_reachable: "reader_reachable id sample_codec ''log'' sample_reader"
  unfolding sample_reader_def
  by (rule reach_run[OF reach.start]) (simp, simp add: sample_visits_def, code_simp)

theorem reader_hands_out_once_witness:
  "map ID (map RecMessage (filter (\<lambda>r. RecFile r = ''x.ndjson'') (handed sample_reader))) = [''a'', ''c'']
   \<and> troubles sample_reader = [VisitFailed]"
proof -
  let ?b = "''a'' @ [newline_byte] @ ''c'' @ [newline_byte]"
  have "(''log/x.ndjson'', ?b) \<in> set (seen_files sample_reader)" by code_simp
  moreover have "relative ''log'' ''log/x.ndjson'' = ''x.ndjson''" by code_simp
  moreover have "map ID (map RecMessage (records_of sample_codec ''x.ndjson'' 0 (whole_lines ?b))) = [''a'', ''c'']"
    by code_simp
  moreover have "length (troubles sample_reader) = 1" by code_simp
  moreover from this reader_hands_out_once[OF sample_reader_reachable] have "troubles sample_reader = [VisitFailed]"
    by (auto simp: length_Suc_conv)
  ultimately show ?thesis
    using reader_hands_out_once[OF sample_reader_reachable] by fastforce
qed

text \<open>A list taken apart by a key.\<close>

lemma mset_by_key:
  "distinct ks \<Longrightarrow> f ` set xs \<subseteq> set ks \<Longrightarrow> mset xs = mset (concat (map (\<lambda>k. filter (\<lambda>x. f x = k) xs) ks))"
proof (induction ks arbitrary: xs)
  case (Cons k ks)
  have "mset (filter (\<lambda>x. f x \<noteq> k) xs) = mset (concat (map (\<lambda>j. filter (\<lambda>x. f x = j) (filter (\<lambda>x. f x \<noteq> k) xs)) ks))"
    using Cons.prems by (intro Cons.IH) auto
  also have "map (\<lambda>j. filter (\<lambda>x. f x = j) (filter (\<lambda>x. f x \<noteq> k) xs)) ks = map (\<lambda>j. filter (\<lambda>x. f x = j) xs) ks"
    using Cons.prems(1) by (auto simp: conj_commute intro!: filter_cong)
  finally show ?case
    using multiset_partition[of "mset xs" "\<lambda>x. f x = k"] by (simp add: mset_filter)
qed simp

lemma whole_lines_bytes: "list_all (line_ok cod) ms \<Longrightarrow> whole_lines (bytes_of cod ms) = map (encode cod) ms"
  by (auto simp: whole_lines_def scan_lines_bytes line_ok_def list_all_iff filter_id_conv)

lemma records_messages:
  "list_all (line_ok cod) ms \<Longrightarrow> map RecMessage (records_of cod key off (map (encode cod) ms)) = ms"
  by (induction ms arbitrary: off) (auto simp: line_ok_def)

text \<open>When the last visit saw the files of the store as they are, the messages handed out by all visits are the
  stored messages, each as often as it was appended.\<close>

lemma read_once:
  assumes "reader_reachable sha cod dir s" "store_reachable pathFor cod lib (st, ms)"
    and "map_of (seen_files s) = map_option content \<circ> map_of (disk st)"
  shows "mset (map RecMessage (handed s)) = mset ms"
proof -
  note inv = reader_machine.reach_inv[OF assms(1), unfolded reader_inv_def]
  note store = store_facts[OF store_machine.reach_inv[OF assms(2)]]
  let ?ps = "map fst (seen_files s)"
  have paths: "set ?ps = pathFor ` set ms"
    using arg_cong[OF assms(3), of dom] store(3) by (simp add: dom_map_option dom_map_of_conv_image_fst)
  have inj: "inj_on (relative dir) (set ?ps)"
    using inv relative_inj by (fastforce simp: inj_on_def list_all_iff)
  have own: "map RecMessage (filter (\<lambda>r. RecFile r = relative dir p) (handed s)) = in_file pathFor p ms"
    if p: "p \<in> set ?ps" for p
  proof -
    obtain b where b: "(p, b) \<in> set (seen_files s)" using p by auto
    then have "map_of (seen_files s) p = Some b" using inv by simp
    then obtain f where f: "map_of (disk st) p = Some f" "content f = b" using assms(3) by auto
    have "b = bytes_of cod (in_file pathFor p ms)" using store(4)[OF f(1)] f(2) by simp
    moreover have "list_all (line_ok cod) (in_file pathFor p ms)"
      using store(1) in_file_ok[of "line_ok cod" ms] by (simp add: list_all_iff)
    ultimately show ?thesis
      using inv b by (auto simp: list_all_iff whole_lines_bytes records_messages)
  qed
  have "mset (handed s) = mset (concat (map (\<lambda>k. filter (\<lambda>r. RecFile r = k) (handed s)) (map (relative dir) ?ps)))"
    using inv inj by (intro mset_by_key) (auto simp: distinct_map list_all_iff comp_inj_on)
  then have "mset (map RecMessage (handed s))
      = mset (concat (map (\<lambda>p. map RecMessage (filter (\<lambda>r. RecFile r = relative dir p) (handed s))) ?ps))"
    by (simp only: mset_map) (simp add: map_concat o_def flip: mset_map)
  also have "\<dots> = mset (concat (map (\<lambda>p. in_file pathFor p ms) ?ps))"
    using own by (metis (no_types, lifting) map_eq_conv)
  also have "\<dots> = mset ms"
    using mset_by_key[of ?ps pathFor ms] inv paths by (simp add: in_file_def)
  finally show ?thesis .
qed

end
