(* ===== verification/Notifications.thy ===== *)
theory Notifications
  imports Incident_Service "HOL-Library.Word"
begin

unbundle bit_operations_syntax

text \<open>
  What the incident worker sends and when it tries again: the types of
  \<open>internal/notification/notification.go\<close> and, of \<open>internal/incidents/worker.go\<close>, \<open>notificationFor\<close>,
  \<open>fallbackName\<close> and \<open>retryDelay\<close>. The rounding of the floating-point unit is the parameter \<open>fl\<close>: to every
  real result of an operation the double that represents it.
\<close>

section \<open>Durations as text\<close>

definition minute :: int where
  "minute = 60 * 1000000000"

text \<open>\<open>fmtFrac\<close>: the digits of a fraction without the zeros at its end.\<close>

fun digits_of :: "nat \<Rightarrow> int \<Rightarrow> string" where
  "digits_of 0 v = []"
| "digits_of (Suc n) v = digits_of n (v div 10) @ [digit_char (nat (v mod 10))]"

definition fraction_text :: "nat \<Rightarrow> int \<Rightarrow> string" where
  "fraction_text n v =
     (let ds = rev (dropWhile (\<lambda>c. c = CHR ''0'') (rev (digits_of n v))) in if ds = [] then [] else CHR ''.'' # ds)"

text \<open>\<open>time.Duration.String\<close>.\<close>

definition duration_text :: "int \<Rightarrow> string" where
  "duration_text d =
     (let u = \<bar>d\<bar>; s = u div 1000000000
      in (if d < 0 then ''-'' else []) @
         (if u = 0 then ''0s''
          else if u < 1000 then dec u @ ''ns''
          else if u < 1000000 then dec (u div 1000) @ fraction_text 3 u @ [CHR 0xC2, CHR 0xB5, CHR ''s'']
          else if u < 1000000000 then dec (u div 1000000) @ fraction_text 6 u @ ''ms''
          else (if 0 < s div 3600 then dec (s div 3600) @ ''h'' else []) @
               (if 0 < s div 60 then dec (s div 60 mod 60) @ ''m'' else []) @
               dec (s mod 60) @ fraction_text 9 u @ ''s''))"

text \<open>\<open>Round\<close>: to the nearest multiple, a half away from zero.\<close>

definition round_to :: "int \<Rightarrow> int \<Rightarrow> int" where
  "round_to m d =
     (let r = \<bar>d\<bar> mod m; up = (if r + r < m then \<bar>d\<bar> - r else \<bar>d\<bar> + m - r) in if d < 0 then - up else up)"

section \<open>Notifications\<close>

datatype Kind =
    KindIncidentOpened | KindIncidentResolved | KindFallbackOpened | KindFallbackResolved
  | KindFallbackEscalated | KindTest

record Notification =
  EventID :: string
  NoteKind :: Kind
  Severity :: string
  Title :: string
  Body :: string
  OccurredAt :: time
  IncidentID :: string
  Link :: string

definition fallbackName :: "string \<Rightarrow> string" where
  "fallbackName ifc = (if ifc = ''wwan'' then ''Starlink'' else if ifc = ''tethering'' then ''4G tethering'' else ifc)"

definition green :: string where "green = [CHR 0xF0, CHR 0x9F, CHR 0x9F, CHR 0xA2, CHR '' '']"
definition red :: string where "red = [CHR 0xF0, CHR 0x9F, CHR 0x94, CHR 0xB4, CHR '' '']"
definition orange :: string where "orange = [CHR 0xF0, CHR 0x9F, CHR 0x9F, CHR 0xA0, CHR '' '']"

definition who :: "Incident \<Rightarrow> string" where
  "who i = IncHostname i @ '' '' @ IncInterface i"

definition recovered_text :: "NotificationJob \<Rightarrow> Incident \<Rightarrow> string" where
  "recovered_text j i =
     who i @ '' was healthy continuously for '' @ duration_text (IncRecoveredAfter i) @
     ''. Incident duration: '' @ duration_text (round_to 1000000000 (CreatedAt j - StartedAt i)) @ ''.''"

definition notificationFor :: "NotificationJob \<Rightarrow> Incident \<Rightarrow> Notification" where
  "notificationFor j i =
     (let message = (\<lambda>kind severity title text.
            \<lparr>EventID = JobID j, NoteKind = kind, Severity = severity, Title = title, Body = text,
             OccurredAt = CreatedAt j, IncidentID = IncID i, Link = []\<rparr>)
      in case JobKind j of
           NotificationFallbackResolved \<Rightarrow>
             message KindFallbackResolved ''info'' (green @ fallbackName (IncInterface i) @ '' backup recovered'')
               (recovered_text j i)
         | NotificationFallbackEscalated \<Rightarrow>
             message KindFallbackEscalated ''critical''
               (red @ ''Primary WAN and '' @ fallbackName (IncInterface i) @ '' backup down'')
               (who i @ '' has also been offline for '' @ duration_text (IncDownAfter i) @
                ''. Remaining connectivity is unknown.'')
         | NotificationFallbackOpened \<Rightarrow>
             message KindFallbackOpened ''warning'' (orange @ fallbackName (IncInterface i) @ '' backup down'')
               (who i @ '' has been offline for '' @ duration_text (IncDownAfter i) @ ''; primary WAN remains healthy.'')
         | NotificationResolved \<Rightarrow>
             message KindIncidentResolved ''info'' (green @ ''Primary WAN recovered'') (recovered_text j i)
         | NotificationOpened \<Rightarrow>
             message KindIncidentOpened ''critical'' (red @ ''Primary WAN down'')
               (who i @ '' has been offline for '' @ duration_text (IncDownAfter i) @
                ''. Backup connectivity is unknown.''))"

section \<open>The delay before a retry\<close>

text \<open>The 32 bit FNV-1a hash.\<close>

definition fnv32a :: "string \<Rightarrow> 32 word" where
  "fnv32a s = foldl (\<lambda>h c. (h XOR word_of_nat (of_char c)) * 16777619) 2166136261 s"

text \<open>Twice as long after every attempt, at most an hour, and a tenth more or less by the job's name. A
  conversion to an integer cuts off the fraction.\<close>

definition base_delay :: "(rat \<Rightarrow> rat) \<Rightarrow> int \<Rightarrow> int" where
  "base_delay fl attempt =
     (let minutes = (if 7 \<le> attempt then 60 else 2 powi (attempt - 1)) in \<lfloor>fl (minutes * of_int minute)\<rfloor>)"

definition jitter :: "(rat \<Rightarrow> rat) \<Rightarrow> string \<Rightarrow> rat" where
  "jitter fl jobID = fl (fl (9 / 10) + fl (of_int (uint (fnv32a jobID) mod 2001) / 10000))"

definition retryDelay :: "(rat \<Rightarrow> rat) \<Rightarrow> string \<Rightarrow> int \<Rightarrow> int" where
  "retryDelay fl jobID attempt = \<lfloor>fl (fl (of_int (base_delay fl attempt)) * jitter fl jobID)\<rfloor>"

section \<open>Bounds\<close>

lemma jitter_range:
  assumes near: "\<And>x. \<bar>fl x - x\<bar> \<le> \<bar>x\<bar> / 2 ^ 52"
  shows "9 / 10 - 1 / 100000000000000 \<le> jitter fl n \<and> jitter fl n \<le> 11 / 10 + 1 / 100000000000000"
proof -
  define h :: rat where "h = of_int (uint (fnv32a n) mod 2001)"
  have h: "0 \<le> h" "h \<le> 2000" by (simp_all add: h_def)
  define a where "a = fl (9 / 10)"
  define b where "b = fl (h / 10000)"
  have a: "\<bar>a - 9 / 10\<bar> \<le> 1 / 1000000000000000" using near[of "9 / 10"] by (simp add: a_def)
  have b: "\<bar>b - h / 10000\<bar> \<le> 1 / 1000000000000000"
  proof -
    have "\<bar>h / 10000\<bar> / 2 ^ 52 \<le> 1 / 1000000000000000" using h by simp
    with near[of "h / 10000"] show ?thesis unfolding b_def by linarith
  qed
  have "\<bar>a + b\<bar> \<le> 2" using a b h by linarith
  then have "\<bar>a + b\<bar> / 2 ^ 52 \<le> 1 / 1000000000000000" by simp
  with near[of "a + b"] have "\<bar>fl (a + b) - (a + b)\<bar> \<le> 1 / 1000000000000000" by linarith
  then have "9 / 10 - 1 / 100000000000000 \<le> fl (a + b)" "fl (a + b) \<le> 11 / 10 + 1 / 100000000000000"
    using a b h by linarith+
  then show ?thesis by (simp add: jitter_def a_def b_def h_def)
qed

lemma base_delay_exact:
  assumes exact: "\<And>n. \<bar>n\<bar> \<le> 2 ^ 53 \<Longrightarrow> fl (of_int n) = of_int n" and "1 \<le> attempt"
  shows "base_delay fl attempt = min (2 ^ nat (attempt - 1)) 60 * minute \<and> minute \<le> base_delay fl attempt
       \<and> base_delay fl attempt \<le> 60 * minute"
proof -
  define k where "k = nat (attempt - 1)"
  have minutes: "(if 7 \<le> attempt then 60 else 2 powi (attempt - 1)) = (of_int (min (2 ^ k) 60) :: rat)"
  proof (cases "7 \<le> attempt")
    case True
    then have "(2 :: int) ^ 6 \<le> 2 ^ k" by (intro power_increasing) (simp_all add: k_def)
    with True show ?thesis by (simp add: min_def)
  next
    case False
    then have "(2 :: int) ^ k \<le> 2 ^ 5" using assms(2) by (intro power_increasing) (simp_all add: k_def)
    moreover have "(2 :: rat) powi (attempt - 1) = of_int (2 ^ k)"
      using assms(2) by (simp add: power_int_def k_def)
    ultimately show ?thesis using False by (simp add: min_def)
  qed
  have range: "1 \<le> min (2 ^ k) (60 :: int)" "min (2 ^ k) (60 :: int) \<le> 60" by (simp_all add: min_def)
  have "base_delay fl attempt = \<lfloor>fl (of_int (min (2 ^ k) 60 * minute))\<rfloor>"
    unfolding base_delay_def minutes Let_def by simp
  also have "fl (of_int (min (2 ^ k) 60 * minute)) = of_int (min (2 ^ k) 60 * minute)"
    using range by (intro exact) (simp add: minute_def abs_mult)
  also have "\<lfloor>of_int (min (2 ^ k) 60 * minute) :: rat\<rfloor> = min (2 ^ k) 60 * minute" by (rule floor_of_int)
  finally show ?thesis using range by (simp add: k_def[symmetric] minute_def)
qed

lemma tenths_positive:
  assumes "9 * b \<le> 10 * (r + 2)" "60000000000 \<le> b"
  shows "0 < (r :: int)"
  using assms by (simp add: algebra_simps)

lemma tenths_bounded:
  assumes "10 * (r - 2) \<le> 11 * b" "b \<le> 3600000000000"
  shows "(r :: int) \<le> 4020000000000"
  using assms by (simp add: algebra_simps)

lemma retry_delay_range:
  assumes "\<And>x. \<bar>fl x - x\<bar> \<le> \<bar>x\<bar> / 2 ^ 52" "\<And>n. \<bar>n\<bar> \<le> 2 ^ 53 \<Longrightarrow> fl (of_int n) = of_int n" "1 \<le> attempt"
  defines "base \<equiv> min (2 ^ nat (attempt - 1)) 60 * minute"
  shows "9 * base \<le> 10 * (retryDelay fl jobID attempt + 2) \<and> 10 * (retryDelay fl jobID attempt - 2) \<le> 11 * base
       \<and> 0 < retryDelay fl jobID attempt \<and> retryDelay fl jobID attempt \<le> 67 * minute"
proof -
  define J where "J = jitter fl jobID"
  have J: "9 / 10 - 1 / 100000000000000 \<le> J" "J \<le> 11 / 10 + 1 / 100000000000000"
    using jitter_range[OF assms(1)] by (simp_all add: J_def)
  define B :: rat where "B = of_int base"
  have base: "base_delay fl attempt = base" "minute \<le> base" "base \<le> 60 * minute"
    using base_delay_exact[OF assms(2,3)] by (simp_all add: base_def)
  then have B: "60000000000 \<le> B" "B \<le> 3600000000000" by (simp_all add: B_def minute_def)
  have "fl (of_int base) = B"
    unfolding B_def using base by (intro assms(2)) (simp add: minute_def)
  then have delay: "retryDelay fl jobID attempt = \<lfloor>fl (B * J)\<rfloor>"
    by (simp add: retryDelay_def base(1) J_def)
  define P where "P = B * J"
  have "B * (9 / 10 - 1 / 100000000000000) \<le> P" "P \<le> B * (11 / 10 + 1 / 100000000000000)"
    unfolding P_def using J B by (auto intro!: mult_left_mono)
  then have "9 / 10 * B - B / 100000000000000 \<le> P" "P \<le> 11 / 10 * B + B / 100000000000000"
    by (simp_all add: algebra_simps)
  then have P: "9 / 10 * B - 1 / 10 \<le> P" "P \<le> 11 / 10 * B + 1 / 10" "0 \<le> P" "P \<le> 4000000000000"
    using B by linarith+
  have "\<bar>P\<bar> / 2 ^ 52 \<le> 1 / 10" using P by simp
  with assms(1)[of P] have "\<bar>fl P - P\<bar> \<le> 1 / 10" by linarith
  then have fl: "9 / 10 * B - 1 / 5 \<le> fl P" "fl P \<le> 11 / 10 * B + 1 / 5" using P by linarith+
  define R where "R = retryDelay fl jobID attempt"
  have "of_int R \<le> fl P" "fl P < of_int R + 1"
    unfolding R_def delay P_def[symmetric] by linarith+
  with fl have "9 / 10 * B - 6 / 5 \<le> of_int R" "of_int R \<le> 11 / 10 * B + 1 / 5" by linarith+
  then have "9 * B \<le> of_int (10 * (R + 2))" "of_int (10 * (R - 2)) \<le> 11 * B" by simp_all
  then have near: "9 * base \<le> 10 * (R + 2)" "10 * (R - 2) \<le> 11 * base"
    unfolding B_def by linarith+
  have low: "60000000000 \<le> base" and high: "base \<le> 3600000000000" using base(2,3) by (simp_all add: minute_def)
  have "0 < R" using near(1) low by (rule tenths_positive)
  moreover have "R \<le> 67 * minute" using tenths_bounded[OF near(2) high] by (simp add: minute_def)
  ultimately show ?thesis using near unfolding R_def by blast
qed

text \<open>The delay before a retry is bounded and grows. With arithmetic that is exact on integers of 53 bits and
  otherwise off by at most the last bit, the delay after the n-th attempt is between nine and eleven tenths of
  2 to the n-1 minutes, or of an hour where that is less, up to two nanoseconds: never zero, never above 66 minutes,
  whatever the name of the job.\<close>

theorem retry_delay_bounds:
  assumes "\<And>x. \<bar>fl x - x\<bar> \<le> \<bar>x\<bar> / 2 ^ 52" "\<And>n. \<bar>n\<bar> \<le> 2 ^ 53 \<Longrightarrow> fl (of_int n) = of_int n" "1 \<le> attempt"
  defines "base \<equiv> min (2 ^ nat (attempt - 1)) 60 * minute"
  shows "9 * base \<le> 10 * (retryDelay fl jobID attempt + 2) \<and> 10 * (retryDelay fl jobID attempt - 2) \<le> 11 * base
       \<and> 0 < retryDelay fl jobID attempt \<and> retryDelay fl jobID attempt \<le> 67 * minute"
  unfolding base_def using assms(1-3) by (rule retry_delay_range)

theorem retry_delay_bounds_witness:
  "9 * (32 * minute) \<le> 10 * (retryDelay id ''job'' 6 + 2) \<and> retryDelay id ''job'' 6 \<le> 67 * minute"
  using retry_delay_bounds[of id 6 "''job''"] by simp

end
