(* ===== verification/Incident_Worker.thy ===== *)
theory Incident_Worker
  imports Append_Reader Notifications Incident_Machine "HOL-Library.Product_Lexorder"
begin

text \<open>
  \<open>internal/incidents/worker.go\<close>: the worker that feeds the stored messages to the incident service, advances
  its clock and delivers its notifications. A pass holds \<open>runMu\<close>, so it is one step; what it meets of the world
  is an argument: what the two visits find on the disk, how the notifier answers, which snapshots are saved, and the
  orders of Go's ranges.
\<close>

section \<open>Types\<close>

datatype worker_error =
    ReadFailed visit_error | ApplyFailed engine_error | AdvanceFailed engine_error | MarkFailed engine_error

record WorkerHealth =
  Running :: bool
  Stale :: bool
  LastReconciledAt :: "time option"
  LastProcessedAt :: "time option"
  LastError :: "worker_error option"
  PendingJobs :: nat

text \<open>The notifier is the discarding one or another. \<open>wake\<close> is the channel, which holds at most one token.\<close>

record Worker =
  engine :: Service
  discards :: bool
  startedAt :: time
  publicURL :: string
  wake :: bool
  health :: WorkerHealth

datatype delivery = Delivered string string | NotDelivered string "(bool \<times> int) option"

record Pass =
  FirstVisit :: visit
  SecondVisit :: visit
  ObserveOrd :: "string \<Rightarrow> range_order"
  RebuildOrd :: range_order
  RebuildOrds :: "string \<Rightarrow> range_order"
  ApplySave :: "string option"
  TickOrd :: range_order
  TickSave :: "string option"
  JobOrd :: job_order
  Answer :: "Notification \<Rightarrow> delivery"
  MarkSave :: "string \<Rightarrow> string option"

text \<open>What a pass leaves: the worker, the observations it gave to the service, the notifications it gave to the
  notifier, and its error.\<close>

record Done =
  worker :: Worker
  observed :: "Observation list"
  posted :: "Notification list"
  failure :: "worker_error option"

section \<open>The parameters of the world\<close>

record World =
  digest :: "string \<Rightarrow> string"
  names :: "string \<Rightarrow> string \<Rightarrow> time \<Rightarrow> string \<Rightarrow> string"
  json :: codec
  directory :: string
  double :: "rat \<Rightarrow> rat"

section \<open>Making and waking a worker\<close>

definition NewWorker :: "Service \<Rightarrow> bool \<Rightarrow> time \<Rightarrow> string list \<Rightarrow> Worker" where
  "NewWorker sv discarding began urls =
     \<lparr>engine = sv, discards = discarding, startedAt = began, publicURL = (case urls of [] \<Rightarrow> [] | u # us \<Rightarrow> u),
      wake = False,
      health = \<lparr>Running = False, Stale = False, LastReconciledAt = None, LastProcessedAt = None, LastError = None,
                PendingJobs = 0\<rparr>\<rparr>"

definition Wake :: "Worker \<Rightarrow> Worker" where
  "Wake w = w\<lparr>wake := True\<rparr>"

definition Publish :: "Message \<Rightarrow> Worker \<Rightarrow> Worker" where
  "Publish m = Wake"

section \<open>Delivering\<close>

definition Send :: "Worker \<Rightarrow> (Notification \<Rightarrow> delivery) \<Rightarrow> Notification \<Rightarrow> delivery" where
  "Send w answer n = (if discards w then Delivered ''none'' [] else answer n)"

text \<open>When a failed delivery is tried again, and whether it never is.\<close>

definition retry_at ::
  "(rat \<Rightarrow> rat) \<Rightarrow> time \<Rightarrow> NotificationJob \<Rightarrow> (bool \<times> int) option \<Rightarrow> time \<times> bool" where
  "retry_at fl now job e =
     (let later = now + retryDelay fl (JobID job) (JobAttempts job + 1)
      in case e of
           None \<Rightarrow> (later, False)
         | Some (permanent, wait) \<Rightarrow> (if 0 < wait then now + wait else later, permanent))"

definition message_for :: "Worker \<Rightarrow> NotificationJob \<Rightarrow> Incident \<Rightarrow> Notification" where
  "message_for w job i =
     (let message = notificationFor job i
      in if publicURL w = [] then message else message\<lparr>Link := publicURL w @ ''/?incident='' @ IncID i\<rparr>)"

definition dispatch_job ::
  "(rat \<Rightarrow> rat) \<Rightarrow> Pass \<Rightarrow> time \<Rightarrow> NotificationJob \<Rightarrow> Worker \<Rightarrow> Service \<times> Notification list \<times> engine_error option" where
  "dispatch_job fl p now job w =
     (let sv = engine w; out = MarkSave p (JobID job)
      in case Get (JobIncidentID job) sv of
           None \<Rightarrow>
             (let (sv, err) = MarkNotificationFailed out (JobID job) ''incident not found'' now True sv in (sv, [], err))
         | Some i \<Rightarrow>
             let message = message_for w job i;
                 (sv, err) = (case Send w (Answer p) message of
                     Delivered adapter external \<Rightarrow> MarkNotificationSent out (JobID job) adapter external now sv
                   | NotDelivered what e \<Rightarrow>
                       let (later, permanent) = retry_at fl now job e
                       in MarkNotificationFailed out (JobID job) what later permanent sv)
             in (sv, [message], err))"

text \<open>The loop ends at the first mark that cannot be saved.\<close>

fun dispatch_jobs ::
  "(rat \<Rightarrow> rat) \<Rightarrow> Pass \<Rightarrow> time \<Rightarrow> NotificationJob list \<Rightarrow> Worker \<Rightarrow> Done" where
  "dispatch_jobs fl p now [] w = \<lparr>worker = w, observed = [], posted = [], failure = None\<rparr>"
| "dispatch_jobs fl p now (job # jobs) w =
     (case dispatch_job fl p now job w of
        (sv, sent, Some err) \<Rightarrow>
          \<lparr>worker = w\<lparr>engine := sv\<rparr>, observed = [], posted = sent, failure = Some (MarkFailed err)\<rparr>
      | (sv, sent, None) \<Rightarrow>
          let d = dispatch_jobs fl p now jobs (w\<lparr>engine := sv\<rparr>) in d\<lparr>posted := sent @ posted d\<rparr>)"

definition dispatch :: "(rat \<Rightarrow> rat) \<Rightarrow> Pass \<Rightarrow> time \<Rightarrow> Worker \<Rightarrow> Done" where
  "dispatch fl p now w = dispatch_jobs fl p now (DueNotifications (JobOrd p) now (engine w)) w"

definition worker_tick :: "World \<Rightarrow> Pass \<Rightarrow> time \<Rightarrow> Worker \<Rightarrow> Done" where
  "worker_tick W p now w =
     (case Tick (TickOrd p) (TickSave p) now (engine w) of
        (sv, Some err) \<Rightarrow>
          \<lparr>worker = w\<lparr>engine := sv\<rparr>, observed = [], posted = [], failure = Some (AdvanceFailed err)\<rparr>
      | (sv, None) \<Rightarrow> dispatch (double W) p now (w\<lparr>engine := sv\<rparr>))"

section \<open>Reading what is new\<close>

definition supported :: "Config \<Rightarrow> StoredRecord \<Rightarrow> bool" where
  "supported c r \<longleftrightarrow> classify (RecMessage r) (Interface c) \<noteq> None"

fun visit_from :: "World \<Rightarrow> visit \<Rightarrow> Cursor gomap \<Rightarrow> visit_error + StoredRecord list \<times> Cursor gomap" where
  "visit_from W (Visit listing view ord) = VisitAfter (digest W) (json W) (directory W) ord listing view"

text \<open>A file that was replaced or cut short makes the worker read everything again: the first component of the
  result names it.\<close>

definition read_new ::
  "World \<Rightarrow> Pass \<Rightarrow> Config \<Rightarrow> Cursor gomap \<Rightarrow> visit_error + string option \<times> StoredRecord list \<times> Cursor gomap" where
  "read_new W p c cursors =
     (case visit_from W (FirstVisit p) cursors of
        Inr (rs, next) \<Rightarrow> Inr (None, filter (supported c) rs, next)
      | Inl e \<Rightarrow>
          (case PartitionChangedFile e of
             None \<Rightarrow> Inl e
           | Some changed \<Rightarrow>
               (case visit_from W (SecondVisit p) [] of
                  Inl e \<Rightarrow> Inl e
                | Inr (rs, next) \<Rightarrow> Inr (Some changed, filter (supported c) rs, next))))"

definition in_order :: "StoredRecord list \<Rightarrow> StoredRecord list" where
  "in_order = sort_key (\<lambda>r. (ReceivedAt (RecMessage r), RecFile r, RecOffset r))"

definition eligible_record :: "Worker \<Rightarrow> string option \<Rightarrow> StoredRecord \<Rightarrow> bool" where
  "eligible_record w changed r =
     (let s = state (engine w); m = RecMessage r
      in Transport m \<noteq> ''import'' \<and> (Bootstrapped s \<or> startedAt w < ReceivedAt m)
         \<and> (case changed of
              None \<Rightarrow> True
            | Some f \<Rightarrow>
                if RecFile r = f then \<not> IsZero (LastCheckpointAt s) \<and> LastCheckpointAt s < ReceivedAt m
                else (case map_of (Cursors s) (RecFile r) of
                        None \<Rightarrow> True
                      | Some previous \<Rightarrow> CursorOffset previous < RecOffset r)))"

definition observation :: "Worker \<Rightarrow> string option \<Rightarrow> StoredRecord \<Rightarrow> Observation" where
  "observation w changed r =
     \<lparr>ObsMessage = RecMessage r, NotifyEligible = eligible_record w changed r,
      SourceRef = RecFile r @ '':'' @ dec (RecOffset r)\<rparr>"

definition latest :: "StoredRecord list \<Rightarrow> time option" where
  "latest rs =
     foldl (\<lambda>last r. case last of
              None \<Rightarrow> Some (ReceivedAt (RecMessage r))
            | Some t \<Rightarrow> if t < ReceivedAt (RecMessage r) then Some (ReceivedAt (RecMessage r)) else Some t) None rs"

definition reconcile :: "World \<Rightarrow> Pass \<Rightarrow> time \<Rightarrow> Worker \<Rightarrow> Done" where
  "reconcile W p now w =
     (case read_new W p (cfg (engine w)) (Cursors (state (engine w))) of
        Inl e \<Rightarrow> \<lparr>worker = w, observed = [], posted = [], failure = Some (ReadFailed e)\<rparr>
      | Inr (changed, rs, next) \<Rightarrow>
          let rs = in_order rs;
              obs = map (observation w changed) rs;
              ordered = map (\<lambda>ob. (ObserveOrd p (SourceRef ob), ob)) obs;
              (sv, err) = (case changed of
                  Some f \<Rightarrow> Rebuild (names W) (RebuildOrd p) (RebuildOrds p) (ApplySave p) ordered next now (engine w)
                | None \<Rightarrow> Apply (names W) (ApplySave p) ordered next now (engine w));
              w = w\<lparr>engine := sv\<rparr>
          in case err of
               Some e \<Rightarrow> \<lparr>worker = w, observed = obs, posted = [], failure = Some (ApplyFailed e)\<rparr>
             | None \<Rightarrow>
                 let d = worker_tick W p now w; w = worker d
                 in case failure d of
                      Some e \<Rightarrow> d\<lparr>observed := obs\<rparr>
                    | None \<Rightarrow>
                        d\<lparr>observed := obs,
                          worker := w\<lparr>health := (health w)
                            \<lparr>LastReconciledAt := Some now,
                             LastProcessedAt := (case latest rs of None \<Rightarrow> LastProcessedAt (health w) | t \<Rightarrow> t),
                             LastError := None,
                             PendingJobs := length (PendingNotifications (JobOrd p) (engine w))\<rparr>\<rparr>\<rparr>)"

section \<open>Health and the test notification\<close>

definition setRunning :: "bool \<Rightarrow> Worker \<Rightarrow> Worker" where
  "setRunning b w = w\<lparr>health := (health w)\<lparr>Running := b\<rparr>\<rparr>"

definition recordError :: "job_order \<Rightarrow> worker_error \<Rightarrow> Worker \<Rightarrow> Worker" where
  "recordError ord e w =
     w\<lparr>health := (health w)\<lparr>LastError := Some e, PendingJobs := length (PendingNotifications ord (engine w))\<rparr>\<rparr>"

definition Health :: "job_order \<Rightarrow> time \<Rightarrow> Worker \<Rightarrow> WorkerHealth" where
  "Health ord now w =
     (let h = health w
      in h\<lparr>PendingJobs := length (PendingNotifications ord (engine w)),
           Stale := Running h \<and> (case LastReconciledAt h of None \<Rightarrow> True | Some t \<Rightarrow> minute < now - t)\<rparr>)"

text \<open>The two calls of \<open>time.Now\<close>; \<open>UnixNano\<close> counts from 1970. No result: the notifier is not configured.\<close>

definition SendTest :: "time \<Rightarrow> time \<Rightarrow> (Notification \<Rightarrow> delivery) \<Rightarrow> Worker \<Rightarrow> delivery option" where
  "SendTest named now answer w =
     (if discards w then None
      else Some (Send w answer
        \<lparr>EventID = ''test-'' @ dec (named - 62135596800 * 1000000000), NoteKind = KindTest, Severity = ''info'',
         Title = ''Logthing test notification'', Body = ''Logthing notifications are configured correctly.'',
         OccurredAt = now, IncidentID = [], Link = []\<rparr>))"

section \<open>Running\<close>

text \<open>\<open>Run\<close> as its events: the first reconciliation, whose error is dropped when the context is done, then
  ticks, reconciliations and wake-ups in the order the select takes them, and the end.\<close>

datatype worker_event =
    Started bool time Pass | Second time Pass | Half_minute time Pass | Woken time Pass | Stopped
  | Published Message

definition finish :: "bool \<Rightarrow> job_order \<Rightarrow> Done \<Rightarrow> Done" where
  "finish quietly ord d =
     (case failure d of
        Some e \<Rightarrow> if quietly then d else d\<lparr>worker := recordError ord e (worker d)\<rparr>
      | None \<Rightarrow> d)"

definition untouched :: "Worker \<Rightarrow> Done" where
  "untouched w = \<lparr>worker = w, observed = [], posted = [], failure = None\<rparr>"

fun handle :: "World \<Rightarrow> worker_event \<Rightarrow> Worker \<Rightarrow> Done" where
  "handle W (Started cancelled now p) w = finish cancelled (JobOrd p) (reconcile W p now (setRunning True w))"
| "handle W (Second now p) w = finish False (JobOrd p) (worker_tick W p now w)"
| "handle W (Half_minute now p) w = finish False (JobOrd p) (reconcile W p now w)"
| "handle W (Woken now p) w = finish False (JobOrd p) (reconcile W p now (w\<lparr>wake := False\<rparr>))"
| "handle W Stopped w = untouched (setRunning False w)"
| "handle W (Published m) w = untouched (Publish m w)"

end
