(* ===== verification/Job_Laws.thy ===== *)
theory Job_Laws
  imports Service_Properties
begin

text \<open>
  The service as its client drives it, with every exported operation: evidence, ticks, the outcomes of deliveries,
  rebuilds, and processes that end and start again from the store. The locales say what must be shown of one new job
  and of one delivery for a property of the jobs to survive them all.
\<close>

section \<open>Snapshots and what a service holds of them\<close>

text \<open>Jobs are listed once, under their names.\<close>

definition each_job :: "(NotificationJob \<Rightarrow> bool) \<Rightarrow> Snapshot \<Rightarrow> bool" where
  "each_job P s \<longleftrightarrow>
     Version s = 1 \<and> distinct (map fst (Jobs s)) \<and> (\<forall>x \<in> set (Jobs s). JobID (snd x) = fst x \<and> P (snd x))"

definition all_states :: "(Snapshot \<Rightarrow> bool) \<Rightarrow> Service \<Rightarrow> bool" where
  "all_states P sv \<longleftrightarrow>
     config_ok (cfg sv) \<and> Interface (cfg sv) \<noteq> [] \<and> P (state sv) \<and> (\<forall>snap. store sv = Some snap \<longrightarrow> P snap)"

lemma each_job_update:
  assumes "each_job P s" "P j" "JobID j = n"
  shows "each_job P (s\<lparr>Jobs := AList.update n j (Jobs s)\<rparr>)"
proof -
  have "\<forall>x \<in> set (AList.update n j (Jobs s)). JobID (snd x) = fst x \<and> P (snd x)"
    by (rule ball_update) (use assms in \<open>simp_all add: each_job_def\<close>)
  then show ?thesis using assms(1) by (simp add: each_job_def distinct_update)
qed

lemma each_job_named:
  assumes "each_job P s" "map_of (Jobs s) n = Some j"
  shows "JobID j = n \<and> P j"
proof -
  have "\<forall>x \<in> set (Jobs s). JobID (snd x) = fst x \<and> P (snd x)" using assms(1) by (simp add: each_job_def)
  from bspec[OF this map_of_SomeD[OF assms(2)]] show ?thesis by simp
qed

lemma each_job_weaken: "each_job P s \<Longrightarrow> each_job (\<lambda>_. True) s"
  by (auto simp: each_job_def)

lemma each_job_found: "each_job P s \<Longrightarrow> (k, j) \<in> set (Jobs s) \<Longrightarrow> map_of (Jobs s) (JobID j) = Some j"
  by (fastforce simp: each_job_def)

lemma all_states_saved:
  "P (state sv) \<Longrightarrow> all_states P sv' \<Longrightarrow> store sv = store sv' \<Longrightarrow> cfg sv = cfg sv' \<Longrightarrow>
   all_states P (fst (saveLocked out sv))"
  by (auto simp: all_states_def saveLocked_def split: option.split)

lemma all_states_step: "all_states P sv \<Longrightarrow> P (state (engine_step mk ev sv)) \<Longrightarrow> all_states P (engine_step mk ev sv)"
  using saved_or_kept[of mk ev sv] by (auto simp: all_states_def)

definition sent_job :: "time \<Rightarrow> string \<Rightarrow> string \<Rightarrow> NotificationJob \<Rightarrow> NotificationJob" where
  "sent_job t adapter external j = j\<lparr>SentAt := Some t, JobAdapter := adapter, ExternalID := external, JobLastError := []\<rparr>"

definition failed_job :: "string \<Rightarrow> time \<Rightarrow> bool \<Rightarrow> NotificationJob \<Rightarrow> NotificationJob" where
  "failed_job what retry permanent j =
     j\<lparr>JobAttempts := JobAttempts j + 1, JobLastError := what, NextAt := retry, JobPermanent := permanent\<rparr>"

lemma rewritten_job [simp]:
  "JobID (sent_job t a x j) = JobID j" "JobID (failed_job w r p j) = JobID j"
  "JobIncidentID (sent_job t a x j) = JobIncidentID j" "JobIncidentID (failed_job w r p j) = JobIncidentID j"
  "SentAt (sent_job t a x j) = Some t" "SentAt (failed_job w r p j) = SentAt j"
  by (simp_all add: sent_job_def failed_job_def)

lemma marks_are_rewrites:
  "MarkNotificationSent out n a x t = mark out n (sent_job t a x)"
  "MarkNotificationFailed out n w r p = mark out n (failed_job w r p)"
  by (simp_all add: MarkNotificationSent_def MarkNotificationFailed_def sent_job_def[abs_def] failed_job_def[abs_def])

lemma new_job_names [simp]: "JobID (new_job n i k t) = n" "JobIncidentID (new_job n i k t) = i"
  by (simp_all add: new_job_def)

section \<open>What adding jobs keeps\<close>

locale jobs_only =
  fixes P :: "Snapshot \<Rightarrow> bool"
  assumes rest: "P s \<Longrightarrow> Jobs s' = Jobs s \<Longrightarrow> Version s' = Version s \<Longrightarrow> P s'"
    and added: "P s \<Longrightarrow> map_of (Jobs s) n = None \<Longrightarrow> P (s\<lparr>Jobs := AList.update n (new_job n i k t) (Jobs s)\<rparr>)"
begin

lemma frame [simp]:
  "P (s\<lparr>Trackers := y\<rparr>) = P s" "P (s\<lparr>Incidents := x\<rparr>) = P s" "P (s\<lparr>Cursors := z\<rparr>) = P s"
  "P (s\<lparr>Bootstrapped := b\<rparr>) = P s" "P (s\<lparr>LastCheckpointAt := t\<rparr>) = P s"
  by (rule iffI; erule rest; simp)+

lemma enqueued:
  "P s \<Longrightarrow> P (enqueueLocked i k t s)" "P s \<Longrightarrow> P (enqueueFallbackEscalationLocked i p t s)"
  by (auto simp: enqueueLocked_def enqueueFallbackEscalationLocked_def add_job_def added split: option.split)

lemma escalated: "P s \<Longrightarrow> P (escalateFallbacksLocked c ord h p t s)"
  unfolding escalateFallbacksLocked_def by (rule fold_inv) (auto simp: enqueued)

lemma advanced: "P s \<Longrightarrow> P (fst (advanceLocked c ord now s))"
  by (rule advance_inv)
    (auto simp: advance_round_def advance_due_def activate_def resolve_def Let_def enqueued escalated split: option.split)

lemma taken: "P s \<Longrightarrow> P (snd (take_evidence mk c e eligible s))"
  by (simp add: take_evidence_def came_up_def went_down_def touch_def Let_def split: phase.split option.split)

lemma observed: "P s \<Longrightarrow> P (observeLocked mk c ord m eligible ref s)"
  by (simp add: observeLocked_def observe_evidence_cases Let_def split_beta advanced taken split: option.split)

lemma all_observed: "P s \<Longrightarrow> P (observe_all mk c obs s)"
  by (induction mk c obs s rule: observe_all.induct) (simp_all add: observed)

lemma escalated_later:
  "P s \<Longrightarrow> P (fold (\<lambda>(k, p) s. if escalated_by c i p
      then enqueueFallbackEscalationLocked (IncID i) (IncID p) (the (ActivatedAt p)) s else s) ps s)"
  by (rule fold_inv) (auto simp: enqueued)

lemma rebuilt_jobs_of: "P s \<Longrightarrow> P (rebuild_jobs_of c ord i s)"
  by (simp add: rebuild_jobs_of_def Let_def enqueued escalated_later split: option.split)

lemma rebuilt_jobs: "P s \<Longrightarrow> P (rebuild_jobs c ord ords s)"
  unfolding rebuild_jobs_def by (rule fold_inv) (auto simp: rebuilt_jobs_of)

end

section \<open>What outcomes of deliveries keep\<close>

text \<open>\<open>tells\<close> holds of what the notifier may say of a failure.\<close>

fun mark_tells :: "(string \<Rightarrow> bool) \<Rightarrow> engine_event \<Rightarrow> bool" where
  "mark_tells tells (Not_sent out i what retry permanent) = tells what"
| "mark_tells tells ev = True"

locale marked_jobs = jobs_only +
  fixes tells :: "string \<Rightarrow> bool"
  assumes sent: "P s \<Longrightarrow> map_of (Jobs s) n = Some j \<Longrightarrow> P (s\<lparr>Jobs := AList.update n (sent_job t a x j) (Jobs s)\<rparr>)"
    and failed: "tells w \<Longrightarrow> P s \<Longrightarrow> map_of (Jobs s) n = Some j \<Longrightarrow>
      P (s\<lparr>Jobs := AList.update n (failed_job w r p j) (Jobs s)\<rparr>)"
begin

lemma marked:
  "P (state sv) \<Longrightarrow> P (state (fst (mark out n (sent_job t a x) sv)))"
  "tells w \<Longrightarrow> P (state sv) \<Longrightarrow> P (state (fst (mark out n (failed_job w r p) sv)))"
  by (auto simp: mark_cases Let_def sent failed split: option.split)

lemma stepped: "mark_tells tells ev \<Longrightarrow> P (state sv) \<Longrightarrow> P (state (engine_step mk ev sv))"
  by (cases ev) (simp_all add: Observe_def Apply_def SetCursors_def Tick_def Let_def split_beta marks_are_rewrites
      observed all_observed advanced marked)

lemma kept: "mark_tells tells ev \<Longrightarrow> all_states P sv \<Longrightarrow> all_states P (engine_step mk ev sv)"
  by (rule all_states_step) (simp_all add: all_states_def stepped)

end

section \<open>Calls\<close>

text \<open>A new process loads what the old one has saved.\<close>

definition reload :: "Service \<Rightarrow> Service" where
  "reload sv =
     (let fresh = projr (New (cfg sv) True (store sv))
      in case store sv of None \<Rightarrow> fresh | Some snap \<Rightarrow> fst (Load (Inr snap) fresh))"

datatype service_call =
    Called engine_event
  | Rebuilding range_order "string \<Rightarrow> range_order" "string option" "(range_order \<times> Observation) list" "Cursor gomap" time
  | Reloading

fun service_step ::
  "(string \<Rightarrow> string \<Rightarrow> time \<Rightarrow> string \<Rightarrow> string) \<Rightarrow> service_call \<Rightarrow> Service \<Rightarrow> Service" where
  "service_step mk (Called ev) sv = engine_step mk ev sv"
| "service_step mk (Rebuilding ord ords out obs cursors t) sv = fst (Rebuild mk ord ords out obs cursors t sv)"
| "service_step mk Reloading sv = reload sv"

fun call_tells :: "(string \<Rightarrow> bool) \<Rightarrow> service_call \<Rightarrow> bool" where
  "call_tells tells (Called ev) = mark_tells tells ev"
| "call_tells tells c = True"

lemma new_for:
  "config_ok (cfg sv) \<Longrightarrow> Interface (cfg sv) \<noteq> [] \<Longrightarrow>
   New (cfg sv) True d = Inr \<lparr>cfg = cfg sv, persistent = True, state = empty_snapshot, store = d\<rparr>"
  by (simp add: New_def config_ok_def)

lemma reload_cases:
  assumes "config_ok (cfg sv)" "Interface (cfg sv) \<noteq> []"
  shows "reload sv = (case store sv of
      None \<Rightarrow> \<lparr>cfg = cfg sv, persistent = True, state = empty_snapshot, store = None\<rparr>
    | Some snap \<Rightarrow> fst (Load (Inr snap) \<lparr>cfg = cfg sv, persistent = True, state = empty_snapshot, store = Some snap\<rparr>))"
  unfolding reload_def new_for[OF assms] Let_def by (auto split: option.split)

lemma loaded_fields:
  "Version snap = 1 \<Longrightarrow> persistent sv \<Longrightarrow>
   (let sv' = fst (Load (Inr snap) sv)
    in Jobs (state sv') = Jobs snap \<and> Version (state sv') = 1 \<and> cfg sv' = cfg sv \<and> store sv' = store sv \<and> persistent sv')"
  by (simp add: Load_def initializeSnapshot_def Let_def)

section \<open>A law of jobs\<close>

locale job_law =
  fixes law :: "NotificationJob \<Rightarrow> bool"
  assumes fresh: "law (new_job n i k t)"

sublocale job_law \<subseteq> jobs_only "each_job law"
  by unfold_locales (simp_all add: each_job_update fresh, simp add: each_job_def)

context job_law
begin

lemma kept_jobs:
  assumes "each_job law previous" "each_job law s"
  shows "each_job law (keep_jobs (Jobs previous) s)"
  unfolding keep_jobs_def using assms(2)
  by (rule fold_inv) (use assms(1) in \<open>auto simp: each_job_def[of law previous] each_job_update\<close>)

lemma empty: "each_job law empty_snapshot"
  by (simp add: each_job_def empty_snapshot_def)

lemma rebuilt: "all_states (each_job law) sv \<Longrightarrow> all_states (each_job law) (fst (Rebuild mk ord ords out obs cursors t sv))"
  unfolding Rebuild_def Let_def
  by (rule all_states_saved)
    (simp_all add: rebuilt_jobs kept_jobs all_states_def tell_trackers_def keep_notify_def all_observed empty)

lemma reloaded:
  assumes "all_states (each_job law) sv"
  shows "all_states (each_job law) (reload sv)"
proof -
  have ok: "config_ok (cfg sv)" "Interface (cfg sv) \<noteq> []" using assms by (simp_all add: all_states_def)
  show ?thesis
  proof (cases "store sv")
    case None
    then show ?thesis using ok by (simp add: reload_cases all_states_def empty)
  next
    case (Some snap)
    then have snap: "each_job law snap" using assms by (simp add: all_states_def)
    then have "Version snap = 1" by (simp add: each_job_def)
    then show ?thesis
      using ok snap Some loaded_fields[of snap "\<lparr>cfg = cfg sv, persistent = True, state = empty_snapshot, store = Some snap\<rparr>"]
      by (auto simp: reload_cases all_states_def Let_def intro: rest[OF snap])
  qed
qed

lemma begun: "first_start sv \<Longrightarrow> all_states (each_job law) sv"
proof -
  assume "first_start sv"
  then obtain c where c: "New c True None = Inr sv" by (auto simp: first_start_def)
  then have "state sv = empty_snapshot" by (auto simp: New_def Let_def split: if_splits)
  with new_fields[OF c] show ?thesis by (simp add: all_states_def config_ok_def empty)
qed

end

section \<open>A law of jobs that deliveries keep\<close>

locale delivery_law = job_law +
  fixes tells :: "string \<Rightarrow> bool"
  assumes law_sent: "law j \<Longrightarrow> law (sent_job t adapter external j)"
    and law_failed: "tells what \<Longrightarrow> law j \<Longrightarrow> law (failed_job what retry permanent j)"

sublocale delivery_law \<subseteq> marked_jobs "each_job law" tells
  by unfold_locales (auto intro!: each_job_update law_sent law_failed dest: each_job_named)

context delivery_law
begin

lemma called: "call_tells tells c \<Longrightarrow> all_states (each_job law) sv \<Longrightarrow> all_states (each_job law) (service_step mk c sv)"
  by (cases c) (simp_all add: kept rebuilt reloaded)

lemma called_run:
  "list_all (call_tells tells) cs \<Longrightarrow> all_states (each_job law) sv \<Longrightarrow>
   all_states (each_job law) (run (service_step mk) cs sv)"
  by (induction cs arbitrary: sv) (simp_all add: called)

lemma reached:
  assumes "\<And>what. tells what" "service_reachable mk sv"
  shows "each_job law (state sv)"
  using assms(2)
proof (induction rule: reach.induct)
  case (start sv)
  then have "state sv = empty_snapshot" by (auto simp: service_start_def New_def Let_def split: if_splits)
  then show ?case by (simp add: empty)
next
  case (step sv ev)
  have "mark_tells tells ev" using assms(1) by (cases ev) simp_all
  then show ?case using stepped step.IH by simp
qed

end

text \<open>Whatever a service is called for, its jobs are listed once and under their names.\<close>

interpretation named: delivery_law "\<lambda>_. True" "\<lambda>_. True"
  by unfold_locales simp_all

end
