(* ===== verification/Service_Calls.thy ===== *)
theory Service_Calls
  imports Job_Laws
begin

text \<open>
  What a delivery that was recorded is worth: it survives everything the service can be called for.
\<close>

section \<open>A recorded delivery\<close>

text \<open>The job \<open>n\<close>, of the incident \<open>i\<close>, was recorded as sent.\<close>

definition is_sent :: "string \<Rightarrow> string \<Rightarrow> Snapshot \<Rightarrow> bool" where
  "is_sent n i s \<longleftrightarrow>
     each_job (\<lambda>_. True) s \<and> (\<exists>j. map_of (Jobs s) n = Some j \<and> SentAt j \<noteq> None \<and> JobIncidentID j = i)"

interpretation recorded: marked_jobs "is_sent n i" "\<lambda>_. True" for n i
proof unfold_locales
  fix s s' :: Snapshot
  assume "is_sent n i s" "Jobs s' = Jobs s" "Version s' = Version s"
  then show "is_sent n i s'" by (auto simp: is_sent_def each_job_def simp del: map_of_eq_Some_iff)
next
  fix s m i' k t
  assume "is_sent n i s" "map_of (Jobs s) m = None"
  then show "is_sent n i (s\<lparr>Jobs := AList.update m (new_job m i' k t) (Jobs s)\<rparr>)"
    by (auto simp: is_sent_def named.added update_conv')
next
  fix s m j t a x
  assume "is_sent n i s" "map_of (Jobs s) m = Some j"
  then show "is_sent n i (s\<lparr>Jobs := AList.update m (sent_job t a x j) (Jobs s)\<rparr>)"
    by (auto simp: is_sent_def named.sent named.failed update_conv')
next
  fix w s m j r p
  assume "is_sent n i s" "map_of (Jobs s) m = Some j"
  then show "is_sent n i (s\<lparr>Jobs := AList.update m (failed_job w r p j) (Jobs s)\<rparr>)"
    by (auto simp: is_sent_def named.sent named.failed update_conv')
qed

text \<open>The calls under which the incident \<open>i\<close> is still there: a rebuild may find no trace of it.\<close>

fun keeps_incident ::
  "(string \<Rightarrow> string \<Rightarrow> time \<Rightarrow> string \<Rightarrow> string) \<Rightarrow> string \<Rightarrow> Service \<Rightarrow> service_call \<Rightarrow> bool" where
  "keeps_incident mk i sv (Rebuilding ord ords out obs cursors t) =
     (map_of (Incidents (state (fst (Rebuild mk ord ords out obs cursors t sv)))) i \<noteq> None)"
| "keeps_incident mk i sv c = True"

lemma kept_job:
  assumes "distinct (map fst js)" "map_of js n = Some j" "map_of (Incidents s) (JobIncidentID j) \<noteq> None"
  shows "map_of (Jobs (keep_jobs js s)) n = Some j"
proof -
  define keep :: "string \<times> NotificationJob \<Rightarrow> Snapshot \<Rightarrow> Snapshot"
    where "keep = (\<lambda>(k, j) s. if map_of (Incidents s) (JobIncidentID j) \<noteq> None
    then s\<lparr>Jobs := AList.update k j (Jobs s)\<rparr> else s)"
  have other: "map_of (Jobs (fold keep xs s)) n = map_of (Jobs s) n" if "n \<notin> fst ` set xs" for xs s
    using that by (induction xs arbitrary: s) (auto simp: keep_def update_conv')
  have same: "Incidents (keep x s) = Incidents s" for x s by (simp add: keep_def split_beta)
  have "map_of (Jobs (fold keep js s)) n = Some j"
    using assms
  proof (induction js arbitrary: s)
    case (Cons x js)
    show ?case
    proof (cases "fst x = n")
      case True
      then have "x = (n, j)" "n \<notin> fst ` set js" using Cons.prems(1,2) by (cases x; force)+
      then show ?thesis using Cons.prems(3) by (simp add: other) (simp add: keep_def update_conv')
    next
      case False
      then have "map_of js n = Some j" using Cons.prems(2) by (cases x) simp
      then show ?thesis using Cons.IH[of "keep x s"] Cons.prems(1,3) by (simp add: same)
    qed
  qed simp
  then show ?thesis by (simp add: keep_jobs_def keep_def)
qed

text \<open>Adding jobs leaves a job that is there alone.\<close>

interpretation there: jobs_only "\<lambda>s. map_of (Jobs s) n = Some j" for n j
  by unfold_locales (auto simp: update_conv')

lemma keep_jobs_frame [simp]:
  "Incidents (keep_jobs J s) = Incidents s" "Trackers (keep_jobs J s) = Trackers s"
proof -
  have "Incidents (fold (\<lambda>(k, j) s. if map_of (Incidents s) (JobIncidentID j) \<noteq> None
        then s\<lparr>Jobs := AList.update k j (Jobs s)\<rparr> else s) J s) = Incidents s
      \<and> Trackers (fold (\<lambda>(k, j) s. if map_of (Incidents s) (JobIncidentID j) \<noteq> None
        then s\<lparr>Jobs := AList.update k j (Jobs s)\<rparr> else s) J s) = Trackers s"
    by (induction J arbitrary: s) (simp_all add: split_beta)
  then show "Incidents (keep_jobs J s) = Incidents s" "Trackers (keep_jobs J s) = Trackers s"
    by (simp_all add: keep_jobs_def)
qed

lemma escalations_frame [simp]:
  "Incidents (fold (\<lambda>(k, p) s. if escalated_by c i p
     then enqueueFallbackEscalationLocked (IncID i) (IncID p) (the (ActivatedAt p)) s else s) xs s) = Incidents s"
  "Trackers (fold (\<lambda>(k, p) s. if escalated_by c i p
     then enqueueFallbackEscalationLocked (IncID i) (IncID p) (the (ActivatedAt p)) s else s) xs s) = Trackers s"
  by (induction xs arbitrary: s) (simp_all add: split_beta)

lemma rebuild_jobs_frame [simp]:
  "Incidents (rebuild_jobs c ord ords s) = Incidents s" "Trackers (rebuild_jobs c ord ords s) = Trackers s"
proof -
  have "Incidents (rebuild_jobs_of c o' i s) = Incidents s \<and> Trackers (rebuild_jobs_of c o' i s) = Trackers s" for o' i s
    by (simp add: rebuild_jobs_of_def Let_def split: option.split)
  then have "Incidents (fold (\<lambda>(k, i) s. rebuild_jobs_of c (ords k) i s) xs s) = Incidents s
      \<and> Trackers (fold (\<lambda>(k, i) s. rebuild_jobs_of c (ords k) i s) xs s) = Trackers s" for xs
    by (induction xs arbitrary: s) (simp_all add: split_beta)
  then show "Incidents (rebuild_jobs c ord ords s) = Incidents s" "Trackers (rebuild_jobs c ord ords s) = Trackers s"
    by (simp_all add: rebuild_jobs_def)
qed

text \<open>A rebuild leaves a job as it is when it finds the job's incident again.\<close>

lemma rebuild_keeps_job:
  assumes "each_job P (state sv)" "map_of (Jobs (state sv)) n = Some j"
    and sv': "sv' = fst (Rebuild mk ord ords out obs cursors t sv)"
    and "map_of (Incidents (state sv')) (JobIncidentID j) \<noteq> None"
  shows "map_of (Jobs (state sv')) n = Some j"
proof -
  let ?s = "tell_trackers (keep_notify (Incidents (state sv)) (observe_all mk (cfg sv) obs
      (empty_snapshot\<lparr>Bootstrapped := True, LastCheckpointAt := t, Cursors := cursors\<rparr>)))"
  have s': "state sv' = rebuild_jobs (cfg sv) ord ords (keep_jobs (Jobs (state sv)) ?s)"
    by (simp add: sv' Rebuild_def Let_def)
  then have "map_of (Incidents ?s) (JobIncidentID j) \<noteq> None" using assms(4) by simp
  from kept_job[OF _ assms(2) this] assms(1)
  have "map_of (Jobs (keep_jobs (Jobs (state sv)) ?s)) n = Some j" by (simp add: each_job_def)
  then show ?thesis unfolding s' by (rule there.rebuilt_jobs)
qed

definition recorded_in :: "string \<Rightarrow> string \<Rightarrow> Service \<Rightarrow> bool" where
  "recorded_in n i sv \<longleftrightarrow> all_states (is_sent n i) sv \<and> store sv \<noteq> None \<and> persistent sv"

lemma recorded_called:
  assumes "recorded_in n i sv" "keeps_incident mk i sv c"
  shows "recorded_in n i (service_step mk c sv)"
proof (cases c)
  case (Called ev)
  have "mark_tells (\<lambda>_. True) ev" by (cases ev) simp_all
  with Called assms(1) show ?thesis
    using recorded.kept[of ev n i sv mk] saved_or_kept[of mk ev sv] by (auto simp: recorded_in_def)
next
  case (Rebuilding ord ords out obs cursors t)
  let ?sv = "fst (Rebuild mk ord ords out obs cursors t sv)"
  have old: "all_states (is_sent n i) sv" "is_sent n i (state sv)" using assms(1) by (simp_all add: recorded_in_def all_states_def)
  then obtain j where j: "map_of (Jobs (state sv)) n = Some j" "SentAt j \<noteq> None" "JobIncidentID j = i"
    by (auto simp: is_sent_def)
  have all: "all_states (each_job (\<lambda>_. True)) sv" using old(1) by (auto simp: all_states_def is_sent_def)
  have "each_job (\<lambda>_. True) (state ?sv)" using named.rebuilt[OF all] by (simp add: all_states_def)
  moreover have "map_of (Jobs (state ?sv)) n = Some j"
    using rebuild_keeps_job[OF _ j(1) refl] old(2) assms(2) j(3) Rebuilding by (auto simp: is_sent_def)
  ultimately have "is_sent n i (state ?sv)" using j by (auto simp: is_sent_def)
  moreover have "store ?sv = store sv \<or> store ?sv = Some (state ?sv)" "cfg ?sv = cfg sv" "persistent ?sv = persistent sv"
    by (simp_all add: Rebuild_def Let_def saveLocked_def split: option.split)
  ultimately show ?thesis using assms(1) Rebuilding by (auto simp: recorded_in_def all_states_def)
next
  case Reloading
  obtain snap where snap: "store sv = Some snap" "is_sent n i snap" using assms(1) by (auto simp: recorded_in_def all_states_def)
  have ok: "config_ok (cfg sv)" "Interface (cfg sv) \<noteq> []" using assms(1) by (simp_all add: recorded_in_def all_states_def)
  have "Version snap = 1" using snap(2) by (simp add: is_sent_def each_job_def)
  with ok snap Reloading show ?thesis
    using loaded_fields[of snap "\<lparr>cfg = cfg sv, persistent = True, state = empty_snapshot, store = Some snap\<rparr>"]
    by (auto simp: reload_cases recorded_in_def all_states_def Let_def intro: recorded.rest[OF snap(2)])
qed

lemma recorded_run:
  "allowed_run (service_step mk) (keeps_incident mk i) cs sv \<Longrightarrow> recorded_in n i sv \<Longrightarrow>
   recorded_in n i (run (service_step mk) cs sv)"
  by (induction cs arbitrary: sv) (simp_all add: recorded_called)

lemma run_called [simp]: "run (service_step mk) (map Called es) sv = run (engine_step mk) es sv"
  by (induction es arbitrary: sv) simp_all

lemma step_frame: "persistent (service_step mk c sv) = persistent sv \<or> c = Reloading"
  by (cases c) (auto simp: Rebuild_def Let_def saveLocked_def split: option.split)

definition sound :: "Service \<Rightarrow> bool" where
  "sound sv \<longleftrightarrow> all_states (each_job (\<lambda>_. True)) sv \<and> persistent sv"

lemma sound_called: "sound sv \<Longrightarrow> sound (service_step mk c sv)"
proof -
  assume sv: "sound sv"
  have "call_tells (\<lambda>_. True) c"
  proof (cases c)
    case (Called ev)
    then show ?thesis by (cases ev) simp_all
  qed simp_all
  then have all: "all_states (each_job (\<lambda>_. True)) (service_step mk c sv)"
    using sv named.called by (simp add: sound_def)
  have "persistent (reload sv)"
  proof (cases "store sv")
    case None
    then show ?thesis using sv by (simp add: sound_def all_states_def reload_cases)
  next
    case (Some snap)
    then have "Version snap = 1" using sv by (simp add: sound_def all_states_def each_job_def)
    then show ?thesis
      using sv Some loaded_fields[of snap "\<lparr>cfg = cfg sv, persistent = True, state = empty_snapshot, store = Some snap\<rparr>"]
      by (simp add: sound_def all_states_def reload_cases Let_def)
  qed
  with step_frame[of mk c sv] all sv show ?thesis by (auto simp: sound_def)
qed

lemma sound_run: "sound sv \<Longrightarrow> sound (run (service_step mk) cs sv)"
  by (induction cs arbitrary: sv) (simp_all add: sound_called)

lemma sound_start: "first_start sv \<Longrightarrow> sound sv"
  using named.begun[of sv] new_fields by (auto simp: sound_def first_start_def)

lemma not_due:
  assumes "each_job P (state sv)" "map_of (Jobs (state sv)) n = Some j" "\<not> waiting j" "visits_all ord"
  shows "n \<notin> JobID ` set (DueNotifications ord now sv)"
proof
  assume "n \<in> JobID ` set (DueNotifications ord now sv)"
  then obtain k j' where j': "(k, j') \<in> set (Jobs (state sv))" "waiting j'" "JobID j' = n"
    using due_in_jobs[OF assms(4)] by (metis imageE)
  from each_job_found[OF assms(1) j'(1)] j'(2,3) assms(2,3) show False by simp
qed

text \<open>C30: A delivery that was recorded is never due again, as long as every later rebuild finds the job's incident
  again. Apart from that the service may be called for anything later: evidence, ticks, other outcomes, saves that
  fail, rebuilds from the first message on, and new processes that load what was saved, in any order and with Go
  visiting its maps in any order. The job stays marked as sent. (A rebuild that finds no trace of the incident drops
  the job, and with it the record that it was sent.)\<close>

theorem sent_once:
  assumes "first_start sv0" "sv = run (service_step mk) cs sv0"
    and "map_of (Jobs (state sv)) n = Some j" "MarkNotificationSent out n adapter external t sv = (sv', None)"
    and "allowed_run (service_step mk) (keeps_incident mk (JobIncidentID j)) after sv'" "visits_all ord"
  defines "later \<equiv> run (service_step mk) after sv'"
  shows "(\<exists>j'. map_of (Jobs (state later)) n = Some j' \<and> SentAt j' \<noteq> None)
       \<and> n \<notin> JobID ` set (DueNotifications ord now later)"
proof -
  have sv: "sound sv" unfolding assms(2) by (rule sound_run[OF sound_start[OF assms(1)]])
  then have jobs: "each_job (\<lambda>_. True) (state sv)" by (simp add: sound_def all_states_def)
  have sv': "sv' = sv\<lparr>state := (state sv)\<lparr>Jobs := AList.update n (sent_job t adapter external j) (Jobs (state sv))\<rparr>,
      store := Some ((state sv)\<lparr>Jobs := AList.update n (sent_job t adapter external j) (Jobs (state sv))\<rparr>)\<rparr>"
    using assms(3,4) sv by (auto simp: marks_are_rewrites mark_cases Let_def sound_def split: option.splits)
  have "is_sent n (JobIncidentID j) (state sv')"
    using named.sent[OF jobs assms(3)] by (simp add: sv' is_sent_def update_conv')
  then have "recorded_in n (JobIncidentID j) sv'"
    using sv by (simp add: sv' recorded_in_def all_states_def sound_def)
  from recorded_run[OF assms(5) this] have "is_sent n (JobIncidentID j) (state later)"
    by (simp add: later_def recorded_in_def all_states_def)
  then obtain j' where j': "each_job (\<lambda>_. True) (state later)" "map_of (Jobs (state later)) n = Some j'" "SentAt j' \<noteq> None"
    by (auto simp: is_sent_def)
  then show ?thesis using not_due[OF j'(1,2) _ assms(6)] by (auto simp: waiting_def)
qed

text \<open>The notification of the first outage is recorded as sent; then all is read again, and the process is
  started again.\<close>

definition recorded_service :: Service where
  "recorded_service = fst (MarkNotificationSent None ''router/wan/a:incident_opened'' ''d'' ''x'' 230 (service_run outage))"

definition read_again :: "service_call list" where
  "read_again =
     [Called (Ticked listed None 900),
      Rebuilding listed (\<lambda>_. listed) None [seen (goes_down ''a'' 100 ''wan''), seen (goes_down ''b'' 120 ''wwan'')] [] 910,
      Reloading]"

theorem sent_once_witness:
  "''router/wan/a:incident_opened'' \<in> JobID ` set (DueNotifications id 1000 (service_run outage))
   \<and> ''router/wan/a:incident_opened'' \<notin> JobID ` set (DueNotifications id 1000
        (run (service_step sample_mk) read_again recorded_service))"
proof -
  have due: "map JobID (DueNotifications id 1000 (service_run outage)) =
      [''router/wan/a:incident_opened'', ''router/wwan/b:fallback_escalated:router/wan/a'', ''router/wan/a:incident_resolved'']"
    by code_simp
  define j where "j = the (map_of (Jobs (state (service_run outage))) ''router/wan/a:incident_opened'')"
  have "map_of (Jobs (state (service_run outage))) ''router/wan/a:incident_opened'' \<noteq> None" by code_simp
  then have j: "map_of (Jobs (state (service_run outage))) ''router/wan/a:incident_opened'' = Some j" by (auto simp: j_def)
  have i: "JobIncidentID j = ''router/wan/a''" unfolding j_def by code_simp
  have "snd (MarkNotificationSent None ''router/wan/a:incident_opened'' ''d'' ''x'' 230 (service_run outage)) = None"
    by code_simp
  then have m: "MarkNotificationSent None ''router/wan/a:incident_opened'' ''d'' ''x'' 230 (service_run outage)
      = (recorded_service, None)"
    by (metis recorded_service_def prod.collapse)
  have start: "first_start new_service"
    unfolding first_start_def
    by (rule exI[of _ sample_config]) (simp add: new_service_def New_def sample_config_def)
  have run: "service_run outage = run (service_step sample_mk) (map Called outage) new_service"
    by (simp add: service_run_def)
  have kept: "allowed_run (service_step sample_mk) (keeps_incident sample_mk (JobIncidentID j)) read_again recorded_service"
    unfolding i by code_simp
  have "visits_all id" by (simp add: visits_all_def)
  from sent_once[OF start run j m kept this, of 1000] have
    "''router/wan/a:incident_opened'' \<notin> JobID ` set (DueNotifications id 1000
        (run (service_step sample_mk) read_again recorded_service))" by blast
  moreover have "''router/wan/a:incident_opened'' \<in> JobID ` set (DueNotifications id 1000 (service_run outage))"
    unfolding set_map[symmetric] due by simp
  ultimately show ?thesis by blast
qed

end
