(* ===== verification/Service_History.thy ===== *)
theory Service_History
  imports Service_Calls
begin

text \<open>
  The service's state as what its history makes of the empty one: what it observed, the time that passed, outcomes of
  deliveries, and checkpoints. The rules of an outage are \<open>observeLocked\<close> and \<open>advanceLocked\<close>; the saves, failures and
  restarts of the operations that apply them are not in a history.
\<close>

datatype deed =
    Saw range_order Observation | Waited range_order time | Noted string NotificationJob | Checked "Cursor gomap" time

text \<open>An outcome of a delivery rewrites a job in what does not say why it is there.\<close>

fun do_deed :: "(string \<Rightarrow> string \<Rightarrow> time \<Rightarrow> string \<Rightarrow> string) \<Rightarrow> Config \<Rightarrow> deed \<Rightarrow> Snapshot \<Rightarrow> Snapshot" where
  "do_deed mk c (Saw ord ob) s = observeLocked mk c ord (ObsMessage ob) (NotifyEligible ob) (SourceRef ob) s"
| "do_deed mk c (Waited ord now) s = fst (advanceLocked c ord now s)"
| "do_deed mk c (Noted n j) s =
     (case map_of (Jobs s) n of
        None \<Rightarrow> s
      | Some old \<Rightarrow> if same_job old j then s\<lparr>Jobs := AList.update n j (Jobs s)\<rparr> else s)"
| "do_deed mk c (Checked cursors t) s = s\<lparr>Cursors := cursors, Bootstrapped := True, LastCheckpointAt := t\<rparr>"

definition history :: "(string \<Rightarrow> string \<Rightarrow> time \<Rightarrow> string \<Rightarrow> string) \<Rightarrow> Config \<Rightarrow> deed list \<Rightarrow> Snapshot" where
  "history mk c ds = fold (do_deed mk c) ds empty_snapshot"

fun seen_in :: "deed list \<Rightarrow> Observation list" where
  "seen_in [] = []"
| "seen_in (Saw ord ob # ds) = ob # seen_in ds"
| "seen_in (_ # ds) = seen_in ds"

lemma seen_append [simp]: "seen_in (ds @ es) = seen_in ds @ seen_in es"
  by (induction ds rule: seen_in.induct) simp_all

lemma seen_saws [simp]: "seen_in (map (\<lambda>(ord, ob). Saw ord ob) obs) = map snd obs"
  by (induction obs) auto

lemma observe_all_deeds: "observe_all mk c obs s = fold (do_deed mk c) (map (\<lambda>(ord, ob). Saw ord ob) obs) s"
  by (induction mk c obs s rule: observe_all.induct) simp_all

text \<open>From one state to another with these observations.\<close>

definition leads ::
  "(string \<Rightarrow> string \<Rightarrow> time \<Rightarrow> string \<Rightarrow> string) \<Rightarrow> Config \<Rightarrow> Observation list \<Rightarrow> Snapshot \<Rightarrow> Snapshot \<Rightarrow> bool" where
  "leads mk c obs s s' \<longleftrightarrow> (\<exists>ds. s' = fold (do_deed mk c) ds s \<and> seen_in ds = obs)"

lemma leads_refl [simp]: "leads mk c [] s s"
  unfolding leads_def by (rule exI[of _ "[]"]) simp

lemma leads_trans: "leads mk c obs s s' \<Longrightarrow> leads mk c obs' s' s'' \<Longrightarrow> leads mk c (obs @ obs') s s''"
  unfolding leads_def by (metis comp_apply fold_append seen_append)

lemma leads_deed: "seen_in [d] = obs \<Longrightarrow> leads mk c obs s (do_deed mk c d s)"
  unfolding leads_def by (intro exI[of _ "[d]"]) simp

lemma leads_mark:
  assumes "\<And>j. same_job j (f j)"
  shows "leads mk c [] (state sv) (state (fst (mark out n f sv)))"
proof (cases "map_of (Jobs (state sv)) n")
  case (Some j)
  then have "do_deed mk c (Noted n (f j)) (state sv) = (state sv)\<lparr>Jobs := AList.update n (f j) (Jobs (state sv))\<rparr>"
    using assms by simp
  with leads_deed[of "Noted n (f j)" "[]" mk c "state sv"]
  have "leads mk c [] (state sv) ((state sv)\<lparr>Jobs := AList.update n (f j) (Jobs (state sv))\<rparr>)" by simp
  with Some show ?thesis by (auto simp: mark_cases Let_def split: option.split)
qed (simp add: mark_cases)

lemma same_rewrites [simp]: "same_job j (sent_job t a x j)" "same_job j (failed_job w r p j)"
  by (simp_all add: same_job_def sent_job_def failed_job_def)

lemma leads_apply:
  "leads mk (cfg sv) (map snd obs) (state sv) (state (fst (Apply mk out obs cursors t sv)))"
  unfolding leads_def
  by (intro exI[of _ "map (\<lambda>(ord, ob). Saw ord ob) obs @ [Checked cursors t]"]) (simp add: Apply_def observe_all_deeds)

lemma leads_tick: "leads mk (cfg sv) [] (state sv) (state (fst (Tick ord out now sv)))"
  using leads_deed[of "Waited ord now" "[]" mk "cfg sv" "state sv"] by (simp add: Tick_def Let_def split_beta)

end
