(* ===== verification/Worker_Properties.thy ===== *)
theory Worker_Properties
  imports Incident_Worker Service_History
begin

text \<open>
  What the worker makes of store, reader, service and notifier together.
\<close>

section \<open>A pass as a run of the service\<close>

fun is_mark :: "engine_event \<Rightarrow> bool" where
  "is_mark (Sent out i adapter external t) = True"
| "is_mark (Not_sent out i m retry permanent) = True"
| "is_mark _ = False"

lemma marks_allowed: "list_all is_mark es \<Longrightarrow> allowed_run (engine_step mk) (engine_allowed mk) es sv"
proof (induction es arbitrary: sv)
  case (Cons ev es)
  then show ?case by (cases ev) (auto simp: engine_allowed_def)
qed simp

lemma enqueue_cursors [simp]:
  "Cursors (enqueueLocked i k t s) = Cursors s" "Cursors (enqueueFallbackEscalationLocked i p t s) = Cursors s"
  by (simp_all add: enqueueLocked_def enqueueFallbackEscalationLocked_def)

lemma escalate_cursors [simp]: "Cursors (escalateFallbacksLocked c ord h p t s) = Cursors s"
proof -
  have "Cursors (fold (\<lambda>(k, i) s. if escalates c h i
      then enqueueFallbackEscalationLocked (IncID i) p t s else s) xs s) = Cursors s" for xs
    by (induction xs arbitrary: s) (simp_all add: split_beta)
  then show ?thesis by (simp add: escalateFallbacksLocked_def)
qed

lemma advance_cursors [simp]: "Cursors (fst (advanceLocked c ord now s)) = Cursors s"
  by (rule advance_inv[where P = "\<lambda>s'. Cursors s' = Cursors s"])
    (auto simp: advance_round_def advance_due_def activate_def resolve_def Let_def split: option.split)

lemma mark_cursors [simp]: "Cursors (state (fst (mark out i f sv))) = Cursors (state sv)"
  by (auto simp: mark_cases Let_def split: option.split)

lemma tick_cursors [simp]: "Cursors (state (fst (Tick ord out now sv))) = Cursors (state sv)"
  by (simp add: Tick_def Let_def split_beta)

lemma marks_cursors:
  "list_all is_mark es \<Longrightarrow> Cursors (state (run (engine_step mk) es sv)) = Cursors (state sv)"
proof (induction es arbitrary: sv)
  case (Cons ev es)
  then show ?case by (cases ev) (auto simp: MarkNotificationSent_def MarkNotificationFailed_def)
qed simp

lemma run_cfg [simp]: "cfg (run (engine_step mk) es sv) = cfg sv"
  by (induction es arbitrary: sv) simp_all

lemma dispatch_job_mark:
  "\<exists>ev. is_mark ev \<and> fst (dispatch_job fl p now job w) = engine_step mk ev (engine w)"
proof (cases "Get (JobIncidentID job) (engine w)")
  case None
  then show ?thesis
    by (intro exI[of _ "Not_sent (MarkSave p (JobID job)) (JobID job) ''incident not found'' now True"])
      (simp add: dispatch_job_def Let_def split_beta)
next
  case (Some i)
  show ?thesis
  proof (cases "Send w (Answer p) (message_for w job i)")
    case (Delivered a x)
    with Some show ?thesis
      by (intro exI[of _ "Sent (MarkSave p (JobID job)) (JobID job) a x now"])
        (simp add: dispatch_job_def Let_def split_beta)
  next
    case (NotDelivered what e)
    with Some show ?thesis
      by (intro exI[of _ "Not_sent (MarkSave p (JobID job)) (JobID job) what (fst (retry_at fl now job e))
            (snd (retry_at fl now job e))"])
        (simp add: dispatch_job_def Let_def split_beta)
  qed
qed

lemma dispatch_jobs_marks:
  "\<exists>es. list_all is_mark es
     \<and> worker (dispatch_jobs fl p now jobs w) = w\<lparr>engine := run (engine_step mk) es (engine w)\<rparr>
     \<and> observed (dispatch_jobs fl p now jobs w) = []"
proof (induction jobs arbitrary: w)
  case Nil
  show ?case by (intro exI[of _ "[]"]) simp
next
  case (Cons job jobs)
  obtain sv sent err where d: "dispatch_job fl p now job w = (sv, sent, err)" by (cases "dispatch_job fl p now job w")
  obtain ev where ev: "is_mark ev" "sv = engine_step mk ev (engine w)"
    using dispatch_job_mark[of fl p now job w mk] d by auto
  show ?case
  proof (cases err)
    case (Some e)
    with d ev show ?thesis by (intro exI[of _ "[ev]"]) simp
  next
    case None
    obtain es where "list_all is_mark es"
      "worker (dispatch_jobs fl p now jobs (w\<lparr>engine := sv\<rparr>)) = w\<lparr>engine := run (engine_step mk) es sv\<rparr>"
      "observed (dispatch_jobs fl p now jobs (w\<lparr>engine := sv\<rparr>)) = []"
      using Cons.IH[of "w\<lparr>engine := sv\<rparr>"] by auto
    with None d ev show ?thesis by (intro exI[of _ "ev # es"]) (simp add: Let_def)
  qed
qed

lemma worker_tick_run:
  "\<exists>es. list_all is_mark es
     \<and> worker (worker_tick W p now w) = w\<lparr>engine := run (engine_step mk) (Ticked (TickOrd p) (TickSave p) now # es) (engine w)\<rparr>
     \<and> observed (worker_tick W p now w) = []"
proof (cases "Tick (TickOrd p) (TickSave p) now (engine w)")
  case (Pair sv err)
  show ?thesis
  proof (cases err)
    case (Some e)
    with Pair show ?thesis by (intro exI[of _ "[]"]) (simp add: worker_tick_def)
  next
    case None
    then show ?thesis
      using Pair dispatch_jobs_marks[of "double W" p now "DueNotifications (JobOrd p) now sv" "w\<lparr>engine := sv\<rparr>" mk]
      by (auto simp: worker_tick_def dispatch_def)
  qed
qed

text \<open>The observations of a pass, each with the order of its ranges.\<close>

definition ordered :: "Pass \<Rightarrow> Observation list \<Rightarrow> (range_order \<times> Observation) list" where
  "ordered p obs = map (\<lambda>ob. (ObserveOrd p (SourceRef ob), ob)) obs"

lemma reconcile_failed:
  "read_new W p (cfg (engine w)) (Cursors (state (engine w))) = Inl e \<Longrightarrow>
   reconcile W p now w = \<lparr>worker = w, observed = [], posted = [], failure = Some (ReadFailed e)\<rparr>"
  by (simp add: reconcile_def)

text \<open>Without a replaced file a pass is \<open>Apply\<close>, then perhaps \<open>Tick\<close>, then marks; the worker changes in
  nothing else but its health.\<close>

lemma reconcile_run:
  assumes "read_new W p (cfg (engine w)) (Cursors (state (engine w))) = Inr (None, rs, next)"
  defines "obs \<equiv> map (observation w None) (in_order rs)"
  shows "\<exists>es h. (es = [] \<or> (\<exists>ms. es = Ticked (TickOrd p) (TickSave p) now # ms \<and> list_all is_mark ms))
     \<and> worker (reconcile W p now w) =
         w\<lparr>engine := run (engine_step (names W)) (Applied (ApplySave p) (ordered p obs) next now # es) (engine w), health := h\<rparr>
     \<and> observed (reconcile W p now w) = obs"
proof -
  obtain sv err where a: "Apply (names W) (ApplySave p) (ordered p obs) next now (engine w) = (sv, err)"
    by (cases "Apply (names W) (ApplySave p) (ordered p obs) next now (engine w)")
  show ?thesis
  proof (cases err)
    case (Some e)
    with a assms(1) show ?thesis
      by (intro exI[of _ "[]"] exI[of _ "health w"]) (simp add: reconcile_def obs_def ordered_def Let_def o_def)
  next
    case None
    obtain ms where ms: "list_all is_mark ms" "worker (worker_tick W p now (w\<lparr>engine := sv\<rparr>)) =
          w\<lparr>engine := run (engine_step (names W)) (Ticked (TickOrd p) (TickSave p) now # ms) sv\<rparr>"
      using worker_tick_run[of W p now "w\<lparr>engine := sv\<rparr>" "names W"] by auto
    let ?d = "worker_tick W p now (w\<lparr>engine := sv\<rparr>)"
    let ?h = "case failure ?d of Some e \<Rightarrow> health w | None \<Rightarrow> health (worker (reconcile W p now w))"
    have "worker (reconcile W p now w) = (worker ?d)\<lparr>health := ?h\<rparr>" "observed (reconcile W p now w) = obs"
      using a None assms(1) ms(2)
      by (auto simp: reconcile_def obs_def ordered_def Let_def o_def split: option.split)
    with a ms show ?thesis
      by (intro exI[of _ "Ticked (TickOrd p) (TickSave p) now # ms"] exI[of _ ?h]) auto
  qed
qed

lemma message_for_id [simp]: "EventID (message_for w job i) = JobID job"
  by (simp add: message_for_def notificationFor_def Let_def split: NotificationKind.split)

section \<open>The worker as a machine\<close>

text \<open>Beside the worker the machine keeps what its state rests on: the observations given to the service and the
  visits of the reader. It keeps both a second time as they were when the store was last written, since a process
  that is started again has that state.\<close>

record watch =
  watched :: Worker
  applied :: "Observation list"
  reading :: reader
  kept_applied :: "Observation list"
  kept_reading :: reader

datatype watch_event = Event worker_event | Restarted time

fun pass_of :: "worker_event \<Rightarrow> Pass option" where
  "pass_of (Started cancelled now p) = Some p"
| "pass_of (Half_minute now p) = Some p"
| "pass_of (Woken now p) = Some p"
| "pass_of ev = None"

definition new_watch :: "Worker \<Rightarrow> watch" where
  "new_watch w = \<lparr>watched = w, applied = [], reading = new_reader, kept_applied = [], kept_reading = new_reader\<rparr>"

definition restart :: "time \<Rightarrow> Worker \<Rightarrow> Worker" where
  "restart began w = NewWorker (reload (engine w)) (discards w) began [publicURL w]"

definition watch_done :: "World \<Rightarrow> worker_event \<Rightarrow> Done \<Rightarrow> watch \<Rightarrow> watch" where
  "watch_done W ev d s =
     (let a = applied s @ observed d;
          r = (case pass_of ev of
                 None \<Rightarrow> reading s
               | Some p \<Rightarrow> reader_step (digest W) (json W) (directory W) (FirstVisit p) (reading s));
          saved = (store (engine (worker d)) \<noteq> store (engine (watched s)))
      in \<lparr>watched = worker d, applied = a, reading = r,
          kept_applied = (if saved then a else kept_applied s), kept_reading = (if saved then r else kept_reading s)\<rparr>)"

fun watch_step :: "World \<Rightarrow> watch_event \<Rightarrow> watch \<Rightarrow> watch" where
  "watch_step W (Event ev) s = watch_done W ev (handle W ev (watched s)) s"
| "watch_step W (Restarted began) s =
     s\<lparr>watched := restart began (watched s), applied := kept_applied s, reading := kept_reading s\<rparr>"

text \<open>Others only append to the files; Go's ranges visit every entry; a new incident's name is new.\<close>

fun orders_ok :: "watch_event \<Rightarrow> bool" where
  "orders_ok (Event ev) =
     (case (case ev of Second now p \<Rightarrow> Some p | _ \<Rightarrow> pass_of ev) of
        None \<Rightarrow> True
      | Some p \<Rightarrow> range_ok (TickOrd p) \<and> (\<forall>ref. range_ok (ObserveOrd p ref)))"
| "orders_ok (Restarted began) = True"

definition pass_new :: "World \<Rightarrow> watch \<Rightarrow> Pass \<Rightarrow> bool" where
  "pass_new W s p \<longleftrightarrow>
     (let sv = engine (watched s)
      in reader_allowed (json W) (directory W) (reading s) (FirstVisit p)
         \<and> (case read_new W p (cfg sv) (Cursors (state sv)) of
              Inl e \<Rightarrow> True
            | Inr (changed, rs, next) \<Rightarrow>
                names_all_ok (names W) (cfg sv)
                  (ordered p (map (observation (watched s) changed) (in_order rs))) (state sv)))"

fun watch_new :: "World \<Rightarrow> watch \<Rightarrow> watch_event \<Rightarrow> bool" where
  "watch_new W s (Event ev) = (case pass_of ev of None \<Rightarrow> True | Some p \<Rightarrow> pass_new W s p)"
| "watch_new W s (Restarted began) = True"

definition watch_allowed :: "World \<Rightarrow> watch \<Rightarrow> watch_event \<Rightarrow> bool" where
  "watch_allowed W s ev \<longleftrightarrow> orders_ok ev \<and> watch_new W s ev"

definition watch_start :: "watch \<Rightarrow> bool" where
  "watch_start s \<longleftrightarrow> (\<exists>sv discarding began urls. first_start sv \<and> s = new_watch (NewWorker sv discarding began urls))"

abbreviation worker_reachable :: "World \<Rightarrow> watch \<Rightarrow> bool" where
  "worker_reachable W \<equiv> reach watch_start (watch_step W) (watch_allowed W)"

text \<open>A state of the service rests on these observations and visits.\<close>

definition rests_on :: "World \<Rightarrow> Config \<Rightarrow> Snapshot \<Rightarrow> Observation list \<Rightarrow> reader \<Rightarrow> bool" where
  "rests_on W c s obs r \<longleftrightarrow>
     leads (names W) c obs empty_snapshot s
     \<and> reader_reachable (digest W) (json W) (directory W) r \<and> reader_cursors r = Cursors s
     \<and> mset (map ObsMessage obs) = mset (map RecMessage (filter (supported c) (handed r)))"

definition watch_inv :: "World \<Rightarrow> watch \<Rightarrow> bool" where
  "watch_inv W s \<longleftrightarrow>
     (let sv = engine (watched s)
      in first_process (names W) sv \<and> rests_on W (cfg sv) (state sv) (applied s) (reading s)
         \<and> (case store sv of
              None \<Rightarrow> kept_applied s = [] \<and> kept_reading s = new_reader
            | Some snap \<Rightarrow> rests_on W (cfg sv) snap (kept_applied s) (kept_reading s)))"

lemma new_rests_on: "rests_on W c empty_snapshot [] new_reader"
  by (auto simp: rests_on_def new_reader_def empty_snapshot_def[THEN arg_cong[where f = Cursors]] intro: reach.start)

lemma watch_inv_start: "watch_start s \<Longrightarrow> watch_inv W s"
  by (auto simp: watch_start_def first_start_def New_def watch_inv_def new_watch_def NewWorker_def
      Let_def new_rests_on intro!: reach.start split: if_splits)

text \<open>What may come of a state without the worker reading anything.\<close>

definition follows :: "World \<Rightarrow> Config \<Rightarrow> Snapshot \<Rightarrow> Snapshot \<Rightarrow> bool" where
  "follows W c s s' \<longleftrightarrow> Cursors s' = Cursors s \<and> leads (names W) c [] s s'"

lemma follows_refl [simp]: "follows W c s s"
  by (simp add: follows_def)

lemma follows_trans: "follows W c s s' \<Longrightarrow> follows W c s' s'' \<Longrightarrow> follows W c s s''"
  using leads_trans[of "names W" c "[]" s s' "[]" s''] by (simp add: follows_def)

lemma follows_step:
  "is_mark ev \<or> (\<exists>ord out now. ev = Ticked ord out now) \<Longrightarrow>
   follows W (cfg sv) (state sv) (state (engine_step (names W) ev sv))"
  by (cases ev) (auto simp: follows_def marks_are_rewrites leads_mark leads_tick)

text \<open>What is in the store after a run of ticks and marks.\<close>

lemma stored_after:
  assumes "\<And>ev. ev \<in> set es \<Longrightarrow> is_mark ev \<or> (\<exists>ord out now. ev = Ticked ord out now)"
  shows "follows W (cfg sv) (state sv) (state (run (engine_step (names W)) es sv))
       \<and> (store (run (engine_step (names W)) es sv) = store sv
          \<or> (\<exists>snap. store (run (engine_step (names W)) es sv) = Some snap \<and> follows W (cfg sv) (state sv) snap))"
  using assms
proof (induction es arbitrary: sv)
  case (Cons ev es)
  let ?sv = "engine_step (names W) ev sv"
  have one: "follows W (cfg sv) (state sv) (state ?sv)" using follows_step Cons.prems by simp
  have "cfg ?sv = cfg sv" using run_cfg[of "names W" "[ev]" sv] by simp
  then show ?case
    using Cons.IH[of ?sv] Cons.prems one saved_or_kept[of "names W" ev sv] follows_trans[OF one] by auto
qed simp

lemma rests_on_same: "rests_on W c s obs r \<Longrightarrow> follows W c s s' \<Longrightarrow> rests_on W c s' obs r"
  using leads_trans[of "names W" c obs empty_snapshot s "[]" s'] by (simp add: rests_on_def follows_def)

lemma reader_reachable_inv: "reader_reachable sha cod dir r \<Longrightarrow> reader_inv sha cod dir r"
  by (rule reader_machine.reach_inv)

text \<open>While the files only grow the first visit succeeds or the file system failed: nothing is read again.\<close>

lemma read_new_grown:
  fixes W :: World
  assumes "rests_on W c s obs r" "reader_allowed (json W) (directory W) r (FirstVisit p)"
  defines "r' \<equiv> reader_step (digest W) (json W) (directory W) (FirstVisit p) r"
  shows "reader_reachable (digest W) (json W) (directory W) r'
       \<and> (read_new W p c (Cursors s) = Inl VisitFailed \<and> reader_cursors r' = Cursors s \<and> handed r' = handed r
          \<or> (\<exists>rs next. read_new W p c (Cursors s) = Inr (None, filter (supported c) rs, next)
               \<and> reader_cursors r' = next \<and> handed r' = handed r @ rs))"
proof -
  obtain listing view ord where v: "FirstVisit p = Visit listing view ord" by (cases "FirstVisit p")
  have r: "reader_reachable (digest W) (json W) (directory W) r" "reader_cursors r = Cursors s"
    using assms(1) by (simp_all add: rests_on_def)
  note visit = VisitAfter_grown[OF reader_reachable_inv[OF r(1)] assms(2)[unfolded v]]
  have "reader_reachable (digest W) (json W) (directory W) r'"
    unfolding r'_def by (rule reach.step[OF r(1) assms(2)])
  then show ?thesis
    using visit r(2)
    by (auto simp: r'_def v read_new_def PartitionChangedFile_def)
qed

lemma rests_on_more:
  assumes "rests_on W c s obs r" "leads (names W) c obs2 s s'" "reader_reachable (digest W) (json W) (directory W) r'"
    and "reader_cursors r' = Cursors s'" "handed r' = handed r @ rs"
    and "mset (map ObsMessage obs2) = mset (map RecMessage (filter (supported c) rs))"
  shows "rests_on W c s' (obs @ obs2) r'"
  using assms leads_trans[of "names W" c obs empty_snapshot s obs2 s'] by (simp add: rests_on_def)

lemma observed_messages:
  "mset (map ObsMessage (map (observation w changed) (in_order rs))) = mset (map RecMessage rs)"
  by (simp add: o_def observation_def in_order_def)

text \<open>The steps of a pass under the invariant.\<close>

lemma watch_inv_frame:
  assumes "watch_inv W s" "engine (worker d) = engine (watched s)" "observed d = []" "pass_of ev = None"
  shows "watch_inv W (watch_done W ev d s)"
  using assms by (auto simp: watch_done_def watch_inv_def Let_def split: option.splits)

lemma watch_inv_ticked:
  assumes "watch_inv W s" "range_ok (TickOrd p)" "pass_of ev = None" "observed d = []"
    and "engine (worker d) = run (engine_step (names W)) (Ticked (TickOrd p) out now # ms) (engine (watched s))"
    and "list_all is_mark ms"
  shows "watch_inv W (watch_done W ev d s)"
proof -
  let ?sv = "engine (watched s)" and ?es = "Ticked (TickOrd p) out now # ms"
  let ?sv' = "run (engine_step (names W)) ?es ?sv"
  have old: "first_process (names W) ?sv" "rests_on W (cfg ?sv) (state ?sv) (applied s) (reading s)"
    using assms(1) by (simp_all add: watch_inv_def Let_def)
  have "first_process (names W) ?sv'"
    using assms(2,6) marks_allowed by (intro reach_run[OF old(1)]) (simp add: engine_allowed_def)
  moreover have after: "follows W (cfg ?sv) (state ?sv) (state ?sv')"
      "store ?sv' = store ?sv \<or> (\<exists>snap. store ?sv' = Some snap \<and> follows W (cfg ?sv) (state ?sv) snap)"
  proof -
    have "is_mark ev \<or> (\<exists>ord out now. ev = Ticked ord out now)" if "ev \<in> set ?es" for ev
      using assms(6) that by (auto simp: list_all_iff)
    note stored_after[of ?es W ?sv, OF this]
    then show "follows W (cfg ?sv) (state ?sv) (state ?sv')"
        "store ?sv' = store ?sv \<or> (\<exists>snap. store ?sv' = Some snap \<and> follows W (cfg ?sv) (state ?sv) snap)"
      by blast+
  qed
  moreover have "rests_on W (cfg ?sv) s' (applied s) (reading s)" if "follows W (cfg ?sv) (state ?sv) s'" for s'
    by (rule rests_on_same[OF old(2) that])
  ultimately show ?thesis
    using assms(1,3-5)
    by (auto simp: watch_done_def watch_inv_def Let_def simp del: run.simps split: option.splits)
qed

lemma watch_inv_reconciled:
  assumes "watch_inv W s" "pass_new W s p" "range_ok (TickOrd p) \<and> (\<forall>ref. range_ok (ObserveOrd p ref))"
    and "pass_of ev = Some p"
    and "engine w = engine (watched s)" "startedAt w = startedAt (watched s)"
    and "engine (worker d) = engine (worker (reconcile W p now w))" "observed d = observed (reconcile W p now w)"
  shows "watch_inv W (watch_done W ev d s)"
proof -
  let ?sv = "engine (watched s)"
  let ?r = "reader_step (digest W) (json W) (directory W) (FirstVisit p) (reading s)"
  have old: "first_process (names W) ?sv" "rests_on W (cfg ?sv) (state ?sv) (applied s) (reading s)"
    using assms(1) by (simp_all add: watch_inv_def Let_def)
  have allowed: "reader_allowed (json W) (directory W) (reading s) (FirstVisit p)" "range_ok (TickOrd p)"
    using assms(2,3) by (simp_all add: pass_new_def Let_def)
  note read = read_new_grown[OF old(2) allowed(1)]
  then consider "read_new W p (cfg ?sv) (Cursors (state ?sv)) = Inl VisitFailed"
      "reader_cursors ?r = Cursors (state ?sv)" "handed ?r = handed (reading s)"
    | rs nxt where "read_new W p (cfg ?sv) (Cursors (state ?sv)) = Inr (None, filter (supported (cfg ?sv)) rs, nxt)"
      "reader_cursors ?r = nxt" "handed ?r = handed (reading s) @ rs"
    by blast
  then show ?thesis
  proof cases
    case 1
    then have "reconcile W p now w = \<lparr>worker = w, observed = [], posted = [], failure = Some (ReadFailed VisitFailed)\<rparr>"
      by (intro reconcile_failed) (simp add: assms(5))
    moreover have "rests_on W (cfg ?sv) (state ?sv) (applied s @ []) ?r"
      using rests_on_more[OF old(2) leads_refl conjunct1[OF read], of "[]"] 1 by simp
    ultimately show ?thesis
      using assms(1,4,5,7,8) by (auto simp: watch_done_def watch_inv_def Let_def split: option.splits)
  next
    case 2
    define obs where "obs = map (observation (watched s) None) (in_order (filter (supported (cfg ?sv)) rs))"
    have same: "observation w None = observation (watched s) None"
      by (simp add: fun_eq_iff observation_def eligible_record_def assms(5,6))
    obtain es h where es: "es = [] \<or> (\<exists>ms. es = Ticked (TickOrd p) (TickSave p) now # ms \<and> list_all is_mark ms)"
        "worker (reconcile W p now w) =
           w\<lparr>engine := run (engine_step (names W)) (Applied (ApplySave p) (ordered p obs) nxt now # es) ?sv, health := h\<rparr>"
        "observed (reconcile W p now w) = obs"
      using reconcile_run[of W p w "filter (supported (cfg ?sv)) rs" nxt now] 2(1)
      unfolding assms(5) same obs_def by blast
    let ?sv1 = "engine_step (names W) (Applied (ApplySave p) (ordered p obs) nxt now) ?sv"
    let ?sv' = "run (engine_step (names W)) es ?sv1"
    have "engine_allowed (names W) ?sv (Applied (ApplySave p) (ordered p obs) nxt now)"
      using assms(2,3) 2(1) by (auto simp: pass_new_def obs_def ordered_def engine_allowed_def list_all_iff Let_def)
    then have "first_process (names W) ?sv1" by (rule reach.step[OF old(1)])
    moreover have "allowed_run (engine_step (names W)) (engine_allowed (names W)) es ?sv1"
      using es(1) allowed(2) marks_allowed by (auto simp: engine_allowed_def)
    ultimately have sv': "first_process (names W) ?sv'" by (rule reach_run)
    have "\<And>ev. ev \<in> set es \<Longrightarrow> is_mark ev \<or> (\<exists>ord out now. ev = Ticked ord out now)"
      using es(1) by (auto simp: list_all_iff)
    note after = stored_after[of es W ?sv1, OF this]
    have now: "Cursors (state ?sv1) = nxt" "cfg ?sv1 = cfg ?sv" by (simp_all add: Apply_def)
    have first: "leads (names W) (cfg ?sv) obs (state ?sv) (state ?sv1)"
      using leads_apply[of "names W" ?sv "ordered p obs" "ApplySave p" nxt now] by (simp add: ordered_def o_def)
    have rest: "rests_on W (cfg ?sv) s' (applied s @ obs) ?r" if "follows W (cfg ?sv) (state ?sv1) s'" for s'
    proof (rule rests_on_more[OF old(2) _ conjunct1[OF read] _ 2(3)])
      show "leads (names W) (cfg ?sv) obs (state ?sv) s'"
        using leads_trans[OF first, of "[]" s'] that by (simp add: follows_def)
      show "reader_cursors ?r = Cursors s'" using 2(2) that now by (simp add: follows_def)
      show "mset (map ObsMessage obs) = mset (map RecMessage (filter (supported (cfg ?sv)) rs))"
        unfolding obs_def by (rule observed_messages)
    qed
    have kept: "store ?sv' = store ?sv \<or> (\<exists>snap. store ?sv' = Some snap \<and> follows W (cfg ?sv) (state ?sv1) snap)"
      using after now follows_refl saved_or_kept[of "names W" "Applied (ApplySave p) (ordered p obs) nxt now" ?sv] by auto
    have "engine (worker d) = ?sv'" "observed d = obs" using es(2,3) assms(7,8) by simp_all
    then show ?thesis
      using assms(1,4) sv' kept rest conjunct1[OF after] now
      by (auto simp: watch_done_def watch_inv_def Let_def simp del: engine_step.simps split: option.splits)
  qed
qed

lemma watch_inv_restarted:
  assumes "watch_inv W s"
  shows "watch_inv W (watch_step W (Restarted began) s)"
proof -
  let ?sv = "engine (watched s)"
  have old: "first_process (names W) ?sv" using assms by (simp add: watch_inv_def Let_def)
  then have ok: "config_ok (cfg ?sv)" "Interface (cfg ?sv) \<noteq> []"
    using first_process_inv by (auto simp: config_ok_def)
  show ?thesis
  proof (cases "store ?sv")
    case None
    let ?new = "\<lparr>cfg = cfg ?sv, persistent = True, state = empty_snapshot, store = None\<rparr>"
    have "first_start ?new"
      unfolding first_start_def using new_for[OF ok, of None] by blast
    moreover have "reload ?sv = ?new" using None by (simp add: reload_cases[OF ok])
    ultimately show ?thesis
      using assms None by (simp add: watch_inv_def restart_def NewWorker_def Let_def reach.start new_rests_on)
  next
    case (Some snap)
    obtain w where w: "first_process (names W) w" "cfg w = cfg ?sv" "state w = snap" "store w = Some snap"
      using store_was_state[OF old Some] by blast
    have "reload ?sv = w"
      using load_restores[of snap] first_process_inv[OF w(1)] w(2-4) Some by (simp add: reload_cases[OF ok])
    then show ?thesis
      using assms Some w by (simp add: watch_inv_def restart_def NewWorker_def Let_def)
  qed
qed

lemma finish_frame [simp]:
  "engine (worker (finish quietly ord d)) = engine (worker d)" "observed (finish quietly ord d) = observed d"
  by (simp_all add: finish_def recordError_def split: option.split)

lemma watch_inv_step:
  assumes "watch_inv W s" "watch_allowed W s ev"
  shows "watch_inv W (watch_step W ev s)"
proof (cases ev)
  case (Event e)
  show ?thesis
  proof (cases e)
    case (Started cancelled now p)
    with Event assms[unfolded watch_allowed_def] show ?thesis
      by (auto intro!: watch_inv_reconciled[of W s p _ "setRunning True (watched s)" _ now] simp: setRunning_def)
  next
    case (Second now p)
    obtain ms where "list_all is_mark ms" "worker (worker_tick W p now (watched s)) =
        (watched s)\<lparr>engine := run (engine_step (names W)) (Ticked (TickOrd p) (TickSave p) now # ms) (engine (watched s))\<rparr>"
      "observed (worker_tick W p now (watched s)) = []"
      using worker_tick_run[of W p now "watched s" "names W"] by blast
    with Second Event assms[unfolded watch_allowed_def] show ?thesis
      by (auto intro!: watch_inv_ticked[of W s p _ _ "TickSave p" now ms] simp del: run.simps)
  next
    case (Half_minute now p)
    with Event assms[unfolded watch_allowed_def] show ?thesis
      by (auto intro!: watch_inv_reconciled[of W s p _ "watched s" _ now])
  next
    case (Woken now p)
    with Event assms[unfolded watch_allowed_def] show ?thesis
      by (auto intro!: watch_inv_reconciled[of W s p _ "(watched s)\<lparr>wake := False\<rparr>" _ now])
  qed (use Event assms in \<open>auto intro!: watch_inv_frame simp: untouched_def setRunning_def Publish_def Wake_def\<close>)
qed (use assms watch_inv_restarted in simp)

interpretation worker_machine: invariant_machine watch_start "watch_step W" "watch_allowed W" "watch_inv W" for W
  by unfold_locales (simp_all add: watch_inv_start watch_inv_step)

section \<open>From the log to the incidents\<close>

text \<open>C2: Every stored message that is evidence has been analysed once. While the files of the store only grow,
  however long the worker runs, whichever reads, saves and deliveries fail in it, and however often its process is
  killed and started again from what it saved: once a visit saw the files as they are, the service's state is what the
  rules make of the empty one by observing the stored messages that say something of an interface, each as often as
  it was appended and no other, with nothing between but the passing of time, outcomes of deliveries and
  checkpoints.\<close>

theorem every_message_is_analysed_once:
  assumes "worker_reachable W s" "store_reachable pathFor (json W) lib (st, ms)"
    and "map_of (seen_files (reading s)) = map_option content \<circ> map_of (disk st)"
  defines "sv \<equiv> engine (watched s)"
  shows "\<exists>ds. state sv = history (names W) (cfg sv) ds
    \<and> mset (map ObsMessage (seen_in ds)) = mset (filter (\<lambda>m. classify m (Interface (cfg sv)) \<noteq> None) ms)"
proof -
  let ?c = "cfg sv"
  have r: "reader_reachable (digest W) (json W) (directory W) (reading s)"
      "mset (map ObsMessage (applied s)) = mset (map RecMessage (filter (supported ?c) (handed (reading s))))"
      "leads (names W) ?c (applied s) empty_snapshot (state sv)"
    using worker_machine.reach_inv[OF assms(1)] by (simp_all add: watch_inv_def rests_on_def Let_def sv_def)
  have "map RecMessage (filter (supported ?c) rs) = filter (\<lambda>m. classify m (Interface ?c) \<noteq> None) (map RecMessage rs)" for rs
    by (simp add: filter_map o_def supported_def[abs_def])
  then have "mset (map ObsMessage (applied s)) = mset (filter (\<lambda>m. classify m (Interface ?c) \<noteq> None) ms)"
    using r(2) read_once[OF r(1) assms(2,3)] by (metis mset_filter)
  with r(3) show ?thesis by (auto simp: leads_def history_def)
qed

definition outage_messages :: "Message list" where
  "outage_messages = [goes_down ''a'' 100 ''wan'', syslog ''n'' 105 ''kernel'' ''link is up'', comes_up ''b'' 210 ''wan'']"

definition outage_codec :: codec where
  "outage_codec =
     \<lparr>encode = \<lambda>m. ID m @ [newline_byte],
      decode = map_of (map (\<lambda>m. (ID m @ [newline_byte], m)) outage_messages),
      decode_key = map_of (map (\<lambda>m. (ID m @ [newline_byte], (ReceivedAt m, Hostname m))) outage_messages)\<rparr>"

definition outage_world :: World where
  "outage_world = \<lparr>digest = id, names = sample_mk, json = outage_codec, directory = ''log'', double = id\<rparr>"

definition outage_path :: "Message \<Rightarrow> string" where
  "outage_path m = ''log/router.ndjson''"

definition outage_store :: "FileStore \<times> Message list" where
  "outage_store =
     run (store_step outage_path outage_codec sample_library)
       (map (\<lambda>m. Appended (Written (ReceivedAt m)) 9 1 m) outage_messages) (NewFileStore, [])"

lemma outage_store_reachable: "store_reachable outage_path outage_codec sample_library outage_store"
  unfolding outage_store_def by (rule reach_run[OF reach.start]) (simp, code_simp)

text \<open>A pass that finds the first bytes of the file.\<close>

definition found :: "string \<Rightarrow> Pass" where
  "found b =
     \<lparr>FirstVisit = Visit [''log/router.ndjson''] (\<lambda>_. Seen (length b) (Some b)) id,
      SecondVisit = Visit [] (\<lambda>_. No_stat) id, ObserveOrd = \<lambda>_. listed, RebuildOrd = listed,
      RebuildOrds = \<lambda>_. listed, ApplySave = None, TickOrd = listed, TickSave = None, JobOrd = id,
      Answer = \<lambda>_. Delivered ''discord'' ''7'', MarkSave = \<lambda>_. None\<rparr>"

definition log_bytes :: string where
  "log_bytes = concat (map (\<lambda>m. ID m @ [newline_byte]) outage_messages)"

text \<open>The second line is seen half written; the outage is confirmed and its notification sent, but neither is
  saved, and the process is killed; the new one sees all and cannot save; a third starts from the first save.\<close>

definition hard_times :: "watch_event list" where
  "hard_times =
     [Event (Started False 110 (found (take 3 log_bytes))),
      Event (Second 170 ((found [])\<lparr>TickSave := Some ''full'', MarkSave := \<lambda>_. Some ''full''\<rparr>)),
      Restarted 180,
      Event (Started False 181 ((found log_bytes)\<lparr>ApplySave := Some ''full''\<rparr>)),
      Restarted 190,
      Event (Started False 191 (found log_bytes))]"

definition first_watch :: watch where
  "first_watch = new_watch (NewWorker new_service False 50 [''http://h''])"

definition watch_run :: "watch_event list \<Rightarrow> watch" where
  "watch_run es = run (watch_step outage_world) es first_watch"

lemma first_watch_start: "watch_start first_watch"
  unfolding watch_start_def first_watch_def first_start_def
  by (intro exI[of _ new_service] exI[of _ False] exI[of _ 50] exI[of _ "[''http://h'']"] conjI refl exI[of _ sample_config])
    (simp add: new_service_def New_def sample_config_def)

lemma watch_run_allowed:
  "list_all orders_ok es \<Longrightarrow> allowed_run (watch_step outage_world) (watch_new outage_world) es first_watch \<Longrightarrow>
   allowed_run (watch_step outage_world) (watch_allowed outage_world) es first_watch"
  unfolding watch_allowed_def[abs_def] allowed_run_split by simp

lemma watch_run_reachable:
  "allowed_run (watch_step outage_world) (watch_allowed outage_world) es first_watch \<Longrightarrow>
   worker_reachable outage_world (watch_run es)"
  unfolding watch_run_def by (rule reach_run[OF reach.start[where start = watch_start]]) (rule first_watch_start)

lemma hard_times_allowed: "allowed_run (watch_step outage_world) (watch_allowed outage_world) hard_times first_watch"
  by (rule watch_run_allowed) (simp add: hard_times_def found_def, code_simp)

lemma hard_times_reachable: "worker_reachable outage_world (watch_run hard_times)"
  by (rule watch_run_reachable[OF hard_times_allowed])

text \<open>What the properties look at, so that a run is evaluated once.\<close>

definition summary :: "Service \<Rightarrow> Config \<times> Cursor gomap \<times> time \<times> string list \<times> (State \<times> bool) list" where
  "summary sv =
     (cfg sv, Cursors (state sv), LastCheckpointAt (state sv), map fst (Jobs (state sv)),
      map (\<lambda>(n, i). (IncState i, IncNotify i)) (Incidents (state sv)))"

definition watch_summary ::
  "watch \<Rightarrow> (Config \<times> Cursor gomap \<times> time \<times> string list \<times> (State \<times> bool) list) \<times> (string \<times> string) list" where
  "watch_summary s = (summary (engine (watched s)), seen_files (reading s))"

lemma hard_times_summary:
  "watch_summary (watch_run hard_times) =
     ((sample_config, [(''router.ndjson'', \<lparr>CursorOffset = 6, Fingerprint = log_bytes\<rparr>)], 191,
       [''router/wan/a:incident_opened''], [(StatePendingRecovery, True)]), [(''log/router.ndjson'', log_bytes)])"
  by code_simp

theorem every_message_is_analysed_once_witness:
  "\<exists>ds. state (engine (watched (watch_run hard_times))) = history sample_mk sample_config ds
     \<and> mset (map ObsMessage (seen_in ds)) = {# goes_down ''a'' 100 ''wan'', comes_up ''b'' 210 ''wan'' #}"
proof -
  obtain st ms where s: "outage_store = (st, ms)" by (cases outage_store)
  have "seen_files (reading (watch_run hard_times)) = [(''log/router.ndjson'', log_bytes)]"
    using hard_times_summary by (simp add: watch_summary_def)
  moreover have "map (map_prod id content) (disk (fst outage_store)) = [(''log/router.ndjson'', log_bytes)]"
    by code_simp
  then obtain f where "disk st = [(''log/router.ndjson'', f)]" "content f = log_bytes"
    by (auto simp: s map_eq_Cons_conv map_prod_def)
  ultimately have "map_of (seen_files (reading (watch_run hard_times))) = map_option content \<circ> map_of (disk st)"
    by (auto simp: fun_eq_iff)
  moreover have "snd outage_store = outage_messages" by code_simp
  moreover have "cfg (engine (watched (watch_run hard_times))) = sample_config"
    using hard_times_summary by (simp add: watch_summary_def summary_def)
  moreover have "filter (\<lambda>m. classify m (Interface sample_config) \<noteq> None) outage_messages
      = [goes_down ''a'' 100 ''wan'', comes_up ''b'' 210 ''wan'']" by code_simp
  moreover have "json outage_world = outage_codec" "names outage_world = sample_mk" by (simp_all add: outage_world_def)
  ultimately show ?thesis
    using every_message_is_analysed_once[OF hard_times_reachable, of outage_path sample_library st ms]
      outage_store_reachable by (simp add: s)
qed

section \<open>What the worker calls\<close>

definition pass_tells :: "(string \<Rightarrow> bool) \<Rightarrow> Pass \<Rightarrow> bool" where
  "pass_tells tells p \<longleftrightarrow> (\<forall>m what e. Answer p m = NotDelivered what e \<longrightarrow> tells what)"

fun passes :: "watch_event \<Rightarrow> Pass list" where
  "passes (Event (Started cancelled now p)) = [p]"
| "passes (Event (Second now p)) = [p]"
| "passes (Event (Half_minute now p)) = [p]"
| "passes (Event (Woken now p)) = [p]"
| "passes ev = []"

text \<open>From one service to another by calls whose failed deliveries are told as \<open>tells\<close> says.\<close>

definition calls :: "(string \<Rightarrow> bool) \<Rightarrow> World \<Rightarrow> Service \<Rightarrow> Service \<Rightarrow> bool" where
  "calls tells W sv sv' \<longleftrightarrow> (\<exists>cs. list_all (call_tells tells) cs \<and> sv' = run (service_step (names W)) cs sv)"

lemma calls_refl [simp]: "calls tells W sv sv"
  unfolding calls_def by (rule exI[of _ "[]"]) simp

lemma calls_trans: "calls tells W sv sv' \<Longrightarrow> calls tells W sv' sv'' \<Longrightarrow> calls tells W sv sv''"
  unfolding calls_def by (metis list_all_append run_append)

lemma calls_one: "call_tells tells c \<Longrightarrow> calls tells W sv (service_step (names W) c sv)"
  unfolding calls_def by (intro exI[of _ "[c]"]) simp

lemmas calls_apply = calls_one[of _ "Called (Applied out obs cursors t)" for out obs cursors t, simplified]
lemmas calls_tick = calls_one[of _ "Called (Ticked ord out now)" for ord out now, simplified]
lemmas calls_sent = calls_one[of _ "Called (Sent out n a x t)" for out n a x t, simplified]
lemmas calls_failed = calls_one[of _ "Called (Not_sent out n w r p)" for out n w r p, simplified]
lemmas calls_rebuild = calls_one[of _ "Rebuilding ord ords out obs cursors t" for ord ords out obs cursors t, simplified]

lemma calls_dispatch_job:
  assumes "pass_tells tells p" "tells ''incident not found''"
  shows "calls tells W (engine w) (fst (dispatch_job fl p now job w))"
proof -
  have "tells what" if "Answer p m = NotDelivered what e" for m what e
    using assms(1) that by (auto simp: pass_tells_def)
  then show ?thesis
    using assms(2)
    by (auto simp: dispatch_job_def Send_def Let_def split_beta calls_sent calls_failed split: option.split delivery.split)
qed

lemma calls_dispatch:
  assumes "pass_tells tells p" "tells ''incident not found''"
  shows "calls tells W (engine w) (engine (worker (dispatch_jobs fl p now jobs w)))"
proof (induction jobs arbitrary: w)
  case (Cons job jobs)
  obtain sv out err where d: "dispatch_job fl p now job w = (sv, out, err)" by (cases "dispatch_job fl p now job w")
  then have "calls tells W (engine w) sv" using calls_dispatch_job[OF assms, of W w fl now job] by simp
  then show ?case
    using calls_trans Cons.IH[of "w\<lparr>engine := sv\<rparr>"] by (auto simp: d Let_def split: option.split)
qed simp

lemma calls_worker_tick:
  assumes "pass_tells tells p" "tells ''incident not found''"
  shows "calls tells W (engine w) (engine (worker (worker_tick W p now w)))"
proof -
  obtain sv err where t: "Tick (TickOrd p) (TickSave p) now (engine w) = (sv, err)"
    by (cases "Tick (TickOrd p) (TickSave p) now (engine w)")
  then have "calls tells W (engine w) sv" using calls_tick[of tells W "engine w" "TickOrd p" "TickSave p" now] by simp
  then show ?thesis
    using calls_trans calls_dispatch[OF assms, of W "w\<lparr>engine := sv\<rparr>"]
    by (auto simp: worker_tick_def t dispatch_def split: option.split)
qed

lemma calls_reconcile:
  assumes "pass_tells tells p" "tells ''incident not found''"
  shows "calls tells W (engine w) (engine (worker (reconcile W p now w)))"
proof (cases "read_new W p (cfg (engine w)) (Cursors (state (engine w)))")
  case (Inr r)
  obtain changed rs nxt where r: "r = (changed, rs, nxt)" by (cases r) auto
  let ?obs = "map (\<lambda>ob. (ObserveOrd p (SourceRef ob), ob)) (map (observation w changed) (in_order rs))"
  let ?a = "case changed of
      Some f \<Rightarrow> Rebuild (names W) (RebuildOrd p) (RebuildOrds p) (ApplySave p) ?obs nxt now (engine w)
    | None \<Rightarrow> Apply (names W) (ApplySave p) ?obs nxt now (engine w)"
  obtain sv err where a: "?a = (sv, err)" by (cases ?a)
  have "calls tells W (engine w) (fst ?a)" by (auto simp: calls_apply calls_rebuild split: option.split)
  then have sv: "calls tells W (engine w) sv" by (simp only: a fst_conv)
  then have "calls tells W (engine w) (engine (worker (worker_tick W p now (w\<lparr>engine := sv\<rparr>))))"
    using calls_trans calls_worker_tick[OF assms, of W "w\<lparr>engine := sv\<rparr>" now] by auto
  with sv show ?thesis
    unfolding reconcile_def Inr r sum.case prod.case Let_def a by (simp split: option.split)
qed (simp add: reconcile_failed)

lemma calls_watch:
  assumes "list_all (pass_tells tells) (passes ev)" "tells ''incident not found''"
  shows "calls tells W (engine (watched s)) (engine (watched (watch_step W ev s)))"
proof (cases ev)
  case (Event e)
  show ?thesis
  proof (cases e)
    case (Started cancelled now p)
    then show ?thesis
      using calls_reconcile[of tells p W "setRunning True (watched s)" now] assms Event
      by (simp add: watch_done_def Let_def setRunning_def)
  next
    case (Woken now p)
    then show ?thesis
      using calls_reconcile[of tells p W "(watched s)\<lparr>wake := False\<rparr>" now] assms Event
      by (simp add: watch_done_def Let_def)
  qed (use assms Event in \<open>simp_all add: watch_done_def Let_def calls_reconcile calls_worker_tick untouched_def
      setRunning_def Publish_def Wake_def\<close>)
next
  case (Restarted began)
  then show ?thesis
    using calls_one[of tells Reloading W "engine (watched s)"] by (simp add: restart_def NewWorker_def)
qed

lemma calls_watched:
  "\<forall>ev \<in> set es. list_all (pass_tells tells) (passes ev) \<Longrightarrow> tells ''incident not found'' \<Longrightarrow>
   calls tells W (engine (watched s)) (engine (watched (run (watch_step W) es s)))"
  by (induction es arbitrary: s) (auto intro: calls_trans calls_watch)

text \<open>So a law of jobs that deliveries keep holds of every job of a worker, whatever happens to it.\<close>

context delivery_law
begin

lemma watched_law:
  assumes "watch_start s" "\<forall>ev \<in> set es. list_all (pass_tells tells) (passes ev)" "tells ''incident not found''"
  shows "all_states (each_job law) (engine (watched (run (watch_step W) es s)))"
proof -
  have "all_states (each_job law) (engine (watched s))"
    using assms(1) begun by (auto simp: watch_start_def new_watch_def NewWorker_def)
  moreover obtain cs where "list_all (call_tells tells) cs"
      "engine (watched (run (watch_step W) es s)) = run (service_step (names W)) cs (engine (watched s))"
    using calls_watched[OF assms(2,3), of W s] by (auto simp: calls_def)
  ultimately show ?thesis using called_run by simp
qed

end



end
