(* ===== verification/Worker_Delivery.thy ===== *)
theory Worker_Delivery
  imports Worker_Properties
begin

text \<open>
  How the worker deals with the notification jobs that are due.
\<close>

section \<open>Attempts are counted from zero\<close>

interpretation attempts: delivery_law "\<lambda>j. 0 \<le> JobAttempts j" "\<lambda>_. True"
  by unfold_locales (simp_all add: new_job_def sent_job_def failed_job_def)

section \<open>What is due is dealt with\<close>

text \<open>The arithmetic of doubles: integers of 53 bits are exact, other results are off by the last bit at most.\<close>

definition double_ok :: "(rat \<Rightarrow> rat) \<Rightarrow> bool" where
  "double_ok fl \<longleftrightarrow>
     (\<forall>x. \<bar>fl x - x\<bar> \<le> \<bar>x\<bar> / 2 ^ 52) \<and> (\<forall>n. \<bar>n\<bar> \<le> 2 ^ 53 \<longrightarrow> fl (of_int n) = of_int n)"

definition is_due :: "time \<Rightarrow> NotificationJob \<Rightarrow> bool" where
  "is_due now j \<longleftrightarrow> waiting j \<and> NextAt j \<le> now"

lemma retry_later: "double_ok fl \<Longrightarrow> 0 \<le> JobAttempts j \<Longrightarrow> now < fst (retry_at fl now j e)"
  using retry_delay_range[of fl "JobAttempts j + 1" "JobID j"]
  by (auto simp: double_ok_def retry_at_def Let_def split: option.split)

lemma mark_saved:
  assumes "out = None" "map_of (Jobs (state sv)) i = Some j"
  shows "state (fst (mark out i f sv)) = (state sv)\<lparr>Jobs := AList.update i (f j) (Jobs (state sv))\<rparr>
       \<and> snd (mark out i f sv) = None \<and> cfg (fst (mark out i f sv)) = cfg sv"
  using assms by (simp add: mark_cases Let_def)

lemma dispatch_job_saved:
  assumes "double_ok fl" "MarkSave p (JobID job) = None" "map_of (Jobs (state (engine w))) (JobID job) = Some job"
    and "0 \<le> JobAttempts job" "Get (JobIncidentID job) (engine w) = Some i"
  shows "\<exists>sv job'. dispatch_job fl p now job w = (sv, [message_for w job i], None)
     \<and> state sv = (state (engine w))\<lparr>Jobs := AList.update (JobID job) job' (Jobs (state (engine w)))\<rparr>
     \<and> cfg sv = cfg (engine w) \<and> \<not> is_due now job'"
proof (cases "Send w (Answer p) (message_for w job i)")
  case (Delivered a x)
  let ?f = "\<lambda>j. j\<lparr>SentAt := Some now, JobAdapter := a, ExternalID := x, JobLastError := []\<rparr>"
  show ?thesis
    using Delivered assms(2,5) mark_saved[OF refl assms(3), of ?f]
    by (intro exI[of _ "fst (mark None (JobID job) ?f (engine w))"] exI[of _ "?f job"])
      (simp add: dispatch_job_def MarkNotificationSent_def is_due_def waiting_def Let_def split_beta mark_saved)
next
  case (NotDelivered what e)
  let ?r = "retry_at fl now job e"
  let ?f = "\<lambda>j. j\<lparr>JobAttempts := JobAttempts j + 1, JobLastError := what, NextAt := fst ?r, JobPermanent := snd ?r\<rparr>"
  show ?thesis
    using NotDelivered assms(2,5) mark_saved[OF refl assms(3), of ?f] retry_later[OF assms(1,4), of now e]
    by (intro exI[of _ "fst (mark None (JobID job) ?f (engine w))"] exI[of _ "?f job"])
      (simp add: dispatch_job_def MarkNotificationFailed_def is_due_def waiting_def Let_def split_beta mark_saved)
qed

lemma dispatch_jobs_saved:
  assumes "double_ok fl" "\<And>i. MarkSave p i = None" "distinct (map JobID jobs)"
    and "\<And>j. j \<in> set jobs \<Longrightarrow> map_of (Jobs (state (engine w))) (JobID j) = Some j \<and> 0 \<le> JobAttempts j
           \<and> Get (JobIncidentID j) (engine w) \<noteq> None"
  shows "let d = dispatch_jobs fl p now jobs w; s = state (engine w); s' = state (engine (worker d))
    in failure d = None \<and> map EventID (posted d) = map JobID jobs
       \<and> cfg (engine (worker d)) = cfg (engine w) \<and> s' = s\<lparr>Jobs := Jobs s'\<rparr>
       \<and> (\<forall>j \<in> set jobs. \<forall>j'. map_of (Jobs s') (JobID j) = Some j' \<longrightarrow> \<not> is_due now j')
       \<and> (\<forall>n. n \<notin> JobID ` set jobs \<longrightarrow> map_of (Jobs s') n = map_of (Jobs s) n)"
  using assms(3,4)
proof (induction jobs arbitrary: w)
  case Nil
  then show ?case by (simp add: Let_def)
next
  case (Cons job jobs)
  let ?s = "state (engine w)"
  obtain i where i: "Get (JobIncidentID job) (engine w) = Some i" using Cons.prems(2)[of job] by auto
  obtain sv job' where one: "dispatch_job fl p now job w = (sv, [message_for w job i], None)"
    "state sv = ?s\<lparr>Jobs := AList.update (JobID job) job' (Jobs ?s)\<rparr>" "cfg sv = cfg (engine w)" "\<not> is_due now job'"
    using dispatch_job_saved[OF assms(1,2) _ _ i, of now] Cons.prems(2)[of job] by auto
  let ?w = "w\<lparr>engine := sv\<rparr>"
  have "map_of (Jobs (state (engine ?w))) (JobID j) = Some j \<and> 0 \<le> JobAttempts j
      \<and> Get (JobIncidentID j) (engine ?w) \<noteq> None" if j: "j \<in> set jobs" for j
  proof -
    have "JobID j \<noteq> JobID job" using Cons.prems(1) j by (auto simp: image_iff)
    then show ?thesis using Cons.prems(2)[of j] j by (simp add: one(2) Get_def update_conv')
  qed
  note later = Cons.IH[of ?w, OF _ this, unfolded Let_def]
  let ?d = "dispatch_jobs fl p now jobs ?w"
  have d: "dispatch_jobs fl p now (job # jobs) w = ?d\<lparr>posted := message_for w job i # posted ?d\<rparr>"
    by (simp add: one(1) Let_def)
  have "map_of (Jobs (state (engine (worker ?d)))) (JobID job) = Some job'"
    using later Cons.prems(1) by (simp add: one(2) update_conv')
  then show ?case
    using later Cons.prems(1) one(2-4) unfolding d Let_def by (auto simp: update_conv')
qed

lemma due_jobs:
  assumes "engine_inv c (state sv)" "visits_all ord"
  shows "distinct (map JobID (DueNotifications ord now sv))"
    and "set (DueNotifications ord now sv) = {j. map_of (Jobs (state sv)) (JobID j) = Some j \<and> is_due now j}"
proof -
  let ?J = "Jobs (state sv)"
  have keys: "distinct (map fst ?J)" "\<And>k j. (k, j) \<in> set ?J \<Longrightarrow> JobID j = k"
    using assms(1) by (auto simp: engine_inv_def keyed_def jobs_ok_def)
  have visited: "mset (ord ?J) = mset ?J" using assms(2) by (simp add: visits_all_def)
  then have "mset (map fst (ord ?J)) = mset (map fst ?J)" by (metis mset_map)
  with keys(1) have "distinct (map fst (ord ?J))" by (metis mset_eq_imp_distinct_iff)
  moreover have set: "set (ord ?J) = set ?J" by (rule visits_set[OF assms(2)])
  then have "map JobID (map snd (ord ?J)) = map fst (ord ?J)" using keys(2) by auto
  ultimately have "distinct (map JobID (map snd (ord ?J)))" by metis
  then have "distinct (map JobID (filter (is_due now) (map snd (ord ?J))))" by (rule distinct_map_filter)
  then have "distinct (map JobID (sort_key CreatedAt (filter (is_due now) (map snd (ord ?J)))))"
    by (metis mset_eq_imp_distinct_iff mset_map mset_sort)
  then show "distinct (map JobID (DueNotifications ord now sv))"
    by (simp add: DueNotifications_def is_due_def[abs_def])
  have named: "j \<in> snd ` set ?J \<longleftrightarrow> map_of ?J (JobID j) = Some j" for j
  proof
    assume "j \<in> snd ` set ?J"
    then obtain k where k: "(k, j) \<in> set ?J" by auto
    then show "map_of ?J (JobID j) = Some j" using keys(1) keys(2)[OF k] by simp
  qed (auto dest: map_of_SomeD intro: rev_image_eqI)
  have "set (DueNotifications ord now sv) = {j \<in> snd ` set ?J. is_due now j}"
    by (auto simp: DueNotifications_def is_due_def set)
  then show "set (DueNotifications ord now sv) = {j. map_of ?J (JobID j) = Some j \<and> is_due now j}"
    by (simp add: named)
qed

lemma dispatch_saved:
  fixes now :: time
  assumes "service_reachable mk (engine w)" "double_ok fl" "visits_all (JobOrd p)" "\<And>i. MarkSave p i = None"
  defines "d \<equiv> dispatch fl p now w"
  shows "failure d = None \<and> map EventID (posted d) = map JobID (DueNotifications (JobOrd p) now (engine w))
       \<and> DueNotifications (JobOrd p) now (engine (worker d)) = []
       \<and> cfg (engine (worker d)) = cfg (engine w)
       \<and> state (engine (worker d)) = (state (engine w))\<lparr>Jobs := Jobs (state (engine (worker d)))\<rparr>"
proof -
  let ?due = "DueNotifications (JobOrd p) now (engine w)"
  have inv: "engine_inv (cfg (engine w)) (state (engine w))" using reachable_inv[OF assms(1)] by blast
  note due = due_jobs[OF inv assms(3), of now]
  have "map_of (Jobs (state (engine w))) (JobID j) = Some j \<and> 0 \<le> JobAttempts j
      \<and> Get (JobIncidentID j) (engine w) \<noteq> None" if j: "j \<in> set ?due" for j
  proof -
    have "map_of (Jobs (state (engine w))) (JobID j) = Some j" using j due(2) by blast
    then show ?thesis
      using inv each_job_named[OF attempts.reached[OF TrueI assms(1)]]
      by (fastforce simp: engine_inv_def jobs_ok_def job_ok_def Get_def)
  qed
  note after = dispatch_jobs_saved[where now = now, OF assms(2,4) due(1) this, folded dispatch_def d_def, unfolded Let_def]
  obtain es where "worker d = w\<lparr>engine := run (engine_step mk) es (engine w)\<rparr>" "list_all is_mark es"
    using dispatch_jobs_marks[of fl p now ?due w mk] unfolding d_def dispatch_def by blast
  then have "service_reachable mk (engine (worker d))"
    using reach_run[OF assms(1)] marks_allowed by simp
  then have "engine_inv (cfg (engine (worker d))) (state (engine (worker d)))" using reachable_inv by blast
  note due' = due_jobs(2)[OF this assms(3), of now]
  have "set (DueNotifications (JobOrd p) now (engine (worker d))) = {}"
  proof -
    have False if j: "map_of (Jobs (state (engine (worker d)))) (JobID j) = Some j" "is_due now j" for j
    proof (cases "JobID j \<in> JobID ` set ?due")
      case True
      with after j show False by auto
    next
      case False
      with after j(1) have "map_of (Jobs (state (engine w))) (JobID j) = Some j" by metis
      with j(2) due(2) False show False by auto
    qed
    then show ?thesis unfolding due' by blast
  qed
  with after show ?thesis by auto
qed

text \<open>C8: A tick that can save leaves nothing undone. When its saves succeed, the worker gives the notifier, in
  the order of their creation, the notification of every job that is due after the clock was advanced, each once;
  after it no job is due, whether its delivery succeeded, failed for good or is to be tried again, no pending tracker
  is overdue, and there is no error.\<close>

theorem tick_leaves_nothing_due:
  assumes "service_reachable mk (engine w)" "double_ok (double W)" "range_ok (TickOrd p)" "visits_all (JobOrd p)"
    and "TickSave p = None" "MarkSave p = (\<lambda>i. None)"
  shows "failure (worker_tick W p now w) = None
    \<and> map EventID (posted (worker_tick W p now w))
        = map JobID (DueNotifications (JobOrd p) now (fst (Tick (TickOrd p) None now (engine w))))
    \<and> DueNotifications (JobOrd p) now (engine (worker (worker_tick W p now w))) = []
    \<and> nothing_due (cfg (engine w)) (TickOrd p) now (state (engine (worker (worker_tick W p now w))))"
proof -
  let ?sv = "fst (Tick (TickOrd p) None now (engine w))"
  have "?sv = engine_step mk (Ticked (TickOrd p) None now) (engine w)" by simp
  then have sv: "service_reachable mk (engine (w\<lparr>engine := ?sv\<rparr>))"
    using reach.step[OF assms(1), of "Ticked (TickOrd p) None now"] assms(3) by (simp add: engine_allowed_def)
  have "snd (Tick (TickOrd p) None now (engine w)) = None"
    by (simp add: Tick_def saveLocked_def Let_def split_beta)
  then have "Tick (TickOrd p) (TickSave p) now (engine w) = (?sv, None)" by (metis assms(5) prod.collapse)
  then have tick: "worker_tick W p now w = dispatch (double W) p now (w\<lparr>engine := ?sv\<rparr>)"
    by (simp add: worker_tick_def)
  note after = dispatch_saved[OF sv assms(2,4), of now, folded tick, unfolded assms(6)]
  have "trackers_ok (state (engine w))" using reachable_inv[OF assms(1)] engine_inv_trackers_ok by blast
  then have "nothing_due (cfg (engine w)) (TickOrd p) now (state ?sv)"
    using nothing_due_after[OF assms(3)] by (simp add: Tick_def Let_def split_beta)
  moreover have "nothing_due c ord now (state (engine (worker (worker_tick W p now w)))) = nothing_due c ord now (state ?sv)" for c ord
  proof -
    define s' where "s' = state (engine (worker (worker_tick W p now w)))"
    have "s' = (state ?sv)\<lparr>Jobs := Jobs s'\<rparr>" unfolding s'_def using after by simp
    then have "Incidents s' = Incidents (state ?sv)" "Trackers s' = Trackers (state ?sv)"
      by (metis Snapshot.select_convs Snapshot.update_convs Snapshot.surjective)+
    then show ?thesis by (simp add: nothing_due_def nextDueTrackerLocked_def s'_def)
  qed
  ultimately show ?thesis using after by simp
qed

text \<open>Two outages are confirmed at once; the notifier takes one notification and asks to wait with the other.\<close>

definition busy_pass :: Pass where
  "busy_pass =
     \<lparr>FirstVisit = Visit [] (\<lambda>_. No_stat) id, SecondVisit = Visit [] (\<lambda>_. No_stat) id, ObserveOrd = \<lambda>_. listed,
      RebuildOrd = listed, RebuildOrds = \<lambda>_. listed, ApplySave = None, TickOrd = listed, TickSave = None, JobOrd = rev,
      Answer = \<lambda>n. if NoteKind n = KindIncidentOpened then Delivered ''discord'' ''7'' else NotDelivered ''busy'' (Some (False, 5)),
      MarkSave = \<lambda>_. None\<rparr>"

definition two_outages :: Worker where
  "two_outages = NewWorker (service_run (take 1 outage)) False 50 []"

definition sample_world :: World where
  "sample_world = \<lparr>digest = id, names = sample_mk, json = sample_codec, directory = ''log'', double = id\<rparr>"

lemma two_outages_reachable: "service_reachable sample_mk (engine two_outages)"
proof -
  have "service_reachable sample_mk (service_run (take 1 outage))"
  proof (rule service_run_reachable)
    show "list_all (\<lambda>e. set (orders e) \<subseteq> {listed}) (take 1 outage)" by (simp add: outage_def seen_def)
    show "allowed_run (engine_step sample_mk) (names_new sample_mk) (take 1 outage) new_service" by code_simp
  qed
  then show ?thesis by (simp add: two_outages_def NewWorker_def)
qed

theorem tick_leaves_nothing_due_witness:
  "map EventID (posted (worker_tick sample_world busy_pass 200 two_outages))
     = [''router/wan/a:incident_opened'', ''router/wwan/b:fallback_escalated:router/wan/a'']
   \<and> DueNotifications rev 200 (engine (worker (worker_tick sample_world busy_pass 200 two_outages))) = []"
proof -
  have "double_ok (double sample_world)" by (simp add: double_ok_def sample_world_def)
  moreover have "visits_all (JobOrd busy_pass)" by (simp add: visits_all_def busy_pass_def)
  moreover have "range_ok (TickOrd busy_pass)" "TickSave busy_pass = None" "MarkSave busy_pass = (\<lambda>i. None)"
      "JobOrd busy_pass = rev" "TickOrd busy_pass = listed"
    by (simp_all add: busy_pass_def)
  moreover have "map JobID (DueNotifications rev 200 (fst (Tick listed None 200 (engine two_outages))))
      = [''router/wan/a:incident_opened'', ''router/wwan/b:fallback_escalated:router/wan/a'']" by code_simp
  ultimately show ?thesis
    using tick_leaves_nothing_due[OF two_outages_reachable, of sample_world busy_pass 200] by simp
qed

section \<open>A delivery that could not be recorded\<close>

text \<open>A notification is given to the notifier again until that is recorded. When the mark of the first due
  job cannot be saved, the pass has sent this one notification, whatever the notifier answered, and ends with the
  error; the worker is as it was, so the job is due in the next pass, which sends the same notification again.\<close>

theorem unsaved_delivery_is_repeated:
  assumes "service_reachable mk (engine w)" "visits_all (JobOrd p)" "persistent (engine w)"
    and "DueNotifications (JobOrd p) now (engine w) = job # later" "MarkSave p (JobID job) = Some err"
  shows "\<exists>i. Get (JobIncidentID job) (engine w) = Some i
    \<and> dispatch fl p now w =
        \<lparr>worker = w, observed = [], posted = [message_for w job i], failure = Some (MarkFailed (SaveFailed err))\<rparr>"
proof -
  have inv: "engine_inv (cfg (engine w)) (state (engine w))" using reachable_inv[OF assms(1)] by blast
  have "job \<in> set (DueNotifications (JobOrd p) now (engine w))" by (simp add: assms(4))
  then have j: "map_of (Jobs (state (engine w))) (JobID job) = Some job"
    unfolding due_jobs(2)[OF inv assms(2)] by blast
  then obtain i where i: "Get (JobIncidentID job) (engine w) = Some i"
    using inv by (fastforce simp: engine_inv_def jobs_ok_def job_ok_def Get_def)
  have "mark (Some err) (JobID job) f (engine w) = (engine w, Some (SaveFailed err))" for f
    using assms(3) j by (simp add: mark_cases Let_def)
  then have "dispatch_job fl p now job w = (engine w, [message_for w job i], Some (SaveFailed err))"
    using i assms(5)
    by (simp add: dispatch_job_def MarkNotificationSent_def MarkNotificationFailed_def Let_def split_beta split: delivery.split)
  then show ?thesis using i by (simp add: dispatch_def assms(4))
qed

theorem unsaved_delivery_is_repeated_witness:
  "map EventID (posted (dispatch id (busy_pass\<lparr>MarkSave := \<lambda>_. Some ''full''\<rparr>) 1000 (NewWorker (service_run outage) False 50 [])))
     = [''router/wan/a:incident_opened'']"
proof -
  let ?w = "NewWorker (service_run outage) False 50 []" and ?p = "busy_pass\<lparr>MarkSave := \<lambda>_. Some ''full''\<rparr>"
  have sv: "engine ?w = service_run outage" by (simp add: NewWorker_def)
  have "map JobID (DueNotifications (JobOrd ?p) 1000 (engine ?w)) \<noteq> []
      \<and> JobID (hd (DueNotifications (JobOrd ?p) 1000 (engine ?w))) = ''router/wan/a:incident_opened''"
    unfolding sv by code_simp
  then obtain job later where j: "DueNotifications (JobOrd ?p) 1000 (engine ?w) = job # later"
      "JobID job = ''router/wan/a:incident_opened''"
    by (cases "DueNotifications (JobOrd ?p) 1000 (engine ?w)") auto
  have "service_reachable sample_mk (engine ?w)" unfolding sv by (rule outage_reachable)
  moreover have "visits_all (JobOrd ?p)" "MarkSave ?p (JobID job) = Some ''full''"
    by (simp_all add: visits_all_def busy_pass_def)
  moreover have "persistent (engine ?w)"
    unfolding sv using first_process_inv[OF outage_first] by blast
  ultimately show ?thesis
    using unsaved_delivery_is_repeated[of sample_mk ?w ?p 1000 job later "''full''" id] j by auto
qed

end
