(* ===== verification/Worker_Rebuild.thy ===== *)
theory Worker_Rebuild
  imports Worker_Properties
begin

text \<open>
  What a pass may announce: when a file of the store was replaced or cut short, the worker reads everything again and
  builds the service's state anew; and messages that were imported are analysed too.
\<close>

section \<open>Who may be told\<close>

text \<open>Every incident and tracker that wants notifications is one of \<open>A\<close>, and every job that is not one of
  \<open>J\<close> belongs to one of them.\<close>

definition incidents_quiet :: "string set \<Rightarrow> Incident gomap \<Rightarrow> bool" where
  "incidents_quiet A m \<longleftrightarrow> (\<forall>(n, i) \<in> set m. IncID i = n \<and> (IncNotify i \<longrightarrow> n \<in> A))"

definition trackers_quiet :: "string set \<Rightarrow> tracker gomap \<Rightarrow> bool" where
  "trackers_quiet A m \<longleftrightarrow> (\<forall>(k, c) \<in> set m. TrackedNotify c \<longrightarrow> TrackedID c \<in> A)"

definition jobs_quiet :: "string set \<Rightarrow> string set \<Rightarrow> NotificationJob gomap \<Rightarrow> bool" where
  "jobs_quiet A J m \<longleftrightarrow> (\<forall>(n, j) \<in> set m. n \<in> J \<or> JobIncidentID j \<in> A)"

definition quiet :: "string set \<Rightarrow> string set \<Rightarrow> Snapshot \<Rightarrow> bool" where
  "quiet A J s \<longleftrightarrow> incidents_quiet A (Incidents s) \<and> trackers_quiet A (Trackers s) \<and> jobs_quiet A J (Jobs s)"

lemma set_delete: "set (AList.delete k m) \<subseteq> set m"
  by (auto simp: AList.delete_eq)

lemma quiet_update [simp]:
  "incidents_quiet A m \<Longrightarrow> IncID i = n \<and> (IncNotify i \<longrightarrow> n \<in> A) \<Longrightarrow> incidents_quiet A (AList.update n i m)"
  "trackers_quiet A t \<Longrightarrow> (TrackedNotify c \<longrightarrow> TrackedID c \<in> A) \<Longrightarrow> trackers_quiet A (AList.update k c t)"
  "jobs_quiet A J l \<Longrightarrow> a \<in> J \<or> JobIncidentID j \<in> A \<Longrightarrow> jobs_quiet A J (AList.update a j l)"
  unfolding incidents_quiet_def trackers_quiet_def jobs_quiet_def
  by (rule ball_update; simp)+

lemma quiet_delete [simp]:
  "incidents_quiet A m \<Longrightarrow> incidents_quiet A (AList.delete n m)"
  "trackers_quiet A t \<Longrightarrow> trackers_quiet A (AList.delete k t)"
  using set_delete by (fastforce simp: incidents_quiet_def trackers_quiet_def)+

lemma quiet_incident:
  "incidents_quiet A m \<Longrightarrow> map_of m n = Some i \<Longrightarrow> IncID i = n \<and> (IncNotify i \<longrightarrow> n \<in> A)"
  by (auto simp: incidents_quiet_def dest: map_of_SomeD)

lemma quiet_tracker:
  "trackers_quiet A (Trackers s) \<Longrightarrow> TrackedNotify (tracker_of s k) \<Longrightarrow> TrackedID (tracker_of s k) \<in> A"
  by (auto simp: trackers_quiet_def tracker_of_def zero_tracker_def dest: map_of_SomeD split: option.splits)

lemma quiet_enqueue [simp]:
  "jobs_quiet A J (Jobs s) \<Longrightarrow> i \<in> A \<Longrightarrow> jobs_quiet A J (Jobs (enqueueLocked i k t s))"
  "jobs_quiet A J (Jobs s) \<Longrightarrow> i \<in> A \<Longrightarrow> jobs_quiet A J (Jobs (enqueueFallbackEscalationLocked i p t s))"
  by (simp_all add: enqueueLocked_def enqueueFallbackEscalationLocked_def add_job_def new_job_def split: option.split)


text \<open>A loop over the incidents that adds jobs for those that want them.\<close>

lemma quiet_jobs_loop:
  assumes "incidents_quiet A m" "set xs \<subseteq> set m" "jobs_quiet A J (Jobs s)"
    and "\<And>i s. (IncNotify i \<Longrightarrow> IncID i \<in> A) \<Longrightarrow> jobs_quiet A J (Jobs s) \<Longrightarrow> jobs_quiet A J (Jobs (f i s))"
  shows "jobs_quiet A J (Jobs (fold (\<lambda>(k, i). f i) xs s))"
  using assms(2,3)
proof (induction xs arbitrary: s)
  case (Cons x xs)
  obtain k i where x: "x = (k, i)" by (cases x)
  have "IncNotify i \<Longrightarrow> IncID i \<in> A" using assms(1) Cons.prems(1) by (auto simp: x incidents_quiet_def)
  from Cons.IH[OF _ assms(4)[OF this Cons.prems(2)]] Cons.prems(1) show ?case by (simp add: x)
qed simp

lemma quiet_escalate:
  assumes "range_ok ord" "incidents_quiet A (Incidents s)" "jobs_quiet A J (Jobs s)"
  shows "jobs_quiet A J (Jobs (escalateFallbacksLocked c ord h p t s))"
  unfolding escalateFallbacksLocked_def
  by (rule quiet_jobs_loop[OF assms(2) _ assms(3),
        where f = "\<lambda>i s. if escalates c h i then enqueueFallbackEscalationLocked (IncID i) p t s else s"])
    (auto simp: range_set_incidents[OF assms(1)] escalates_def)

lemma quiet_due:
  assumes "range_ok ord" "quiet A J s" "TrackedNotify cur \<Longrightarrow> TrackedID cur \<in> A"
  shows "quiet A J (advance_due c ord k cur s)"
proof (cases "map_of (Incidents s) (TrackedID cur)")
  case (Some i)
  note i = quiet_incident[OF assms(2)[unfolded quiet_def, THEN conjunct1] Some]
  show ?thesis
    using assms i
    by (auto simp: quiet_def advance_due_def Some activate_def resolve_def healthy_tracker_def zero_tracker_def Let_def
        intro!: quiet_escalate split: option.split)
qed (use assms in \<open>simp add: advance_due_def quiet_def\<close>)

lemma quiet_round:
  assumes "range_ok ord" "quiet A J s"
  shows "quiet A J (advance_round c ord now s)"
proof (cases "nextDueTrackerLocked c ord now s")
  case (Some kc)
  then obtain k cur where kc: "nextDueTrackerLocked c ord now s = Some (k, cur)" by (cases kc) auto
  then have "(k, cur) \<in> set (Trackers s)" using next_due_Some[OF assms(1)] by blast
  then have "TrackedNotify cur \<Longrightarrow> TrackedID cur \<in> A" using assms(2) by (auto simp: quiet_def trackers_quiet_def)
  with assms kc show ?thesis by (simp add: advance_round_def quiet_due)
qed (simp add: advance_round_def assms)

lemma quiet_advance: "range_ok ord \<Longrightarrow> quiet A J s \<Longrightarrow> quiet A J (fst (advanceLocked c ord now s))"
  by (rule advance_inv) (simp_all add: quiet_round)

lemma quiet_touch:
  "incidents_quiet A (Incidents s) \<Longrightarrow> (\<And>i. IncID (f i) = IncID i) \<Longrightarrow> (\<And>i. IncNotify (f i) \<Longrightarrow> IncNotify i \<or> TrackedNotify c)
   \<Longrightarrow> (TrackedNotify c \<longrightarrow> TrackedID c \<in> A) \<Longrightarrow> incidents_quiet A (Incidents (touch c f s))"
  using quiet_incident[of A "Incidents s" "TrackedID c"]
  by (auto simp: touch_def split: option.split)

lemma touch_rest [simp]: "Trackers (touch c f s) = Trackers s" "Jobs (touch c f s) = Jobs s"
  by (simp_all add: touch_def split: option.split)

lemma add_evidence_frame [simp]: "IncID (add_evidence e i) = IncID i" "IncNotify (add_evidence e i) = IncNotify i"
  by (simp_all add: add_evidence_def)

text \<open>Evidence that may not be told adds nothing to \<open>A\<close>.\<close>

lemma quiet_take:
  assumes "quiet A J s" "take_evidence mk c e False s = (cur, s')"
  shows "quiet A J s' \<and> (TrackedNotify cur \<longrightarrow> TrackedID cur \<in> A)"
proof -
  let ?c = "(tracker_of s (tracker_key e))\<lparr>LastEvidenceAt := seen_at e\<rparr>"
  have c: "TrackedNotify ?c \<longrightarrow> TrackedID ?c \<in> A"
    using assms(1) quiet_tracker[of A s "tracker_key e"] by (auto simp: quiet_def)
  have parts: "incidents_quiet A (Incidents s)" "trackers_quiet A (Trackers s)" "jobs_quiet A J (Jobs s)"
    using assms(1) by (simp_all add: quiet_def)
  note touched = quiet_touch[OF parts(1)]
  show ?thesis
    using assms(2) c parts
    by (auto simp: take_evidence_def came_up_def went_down_def started_def healthy_tracker_def zero_tracker_def
        Let_def quiet_def intro!: touched split: phase.splits if_splits)
qed

lemma quiet_observe:
  assumes "range_ok ord" "quiet A J s"
  shows "quiet A J (observeLocked mk c ord m False ref s)"
proof (cases "classify m (Interface c)")
  case (Some e)
  let ?e = "e\<lparr>sourceRef := ref\<rparr>"
  have track: "quiet A J (s'\<lparr>Trackers := AList.update k cur (Trackers s')\<rparr>)"
    if "quiet A J s'" "TrackedNotify cur \<longrightarrow> TrackedID cur \<in> A" for k cur s'
    using that by (simp add: quiet_def)
  have old: "TrackedNotify (tracker_of s k) \<longrightarrow> TrackedID (tracker_of s k) \<in> A" for k
    using assms(2) quiet_tracker by (auto simp: quiet_def)
  note now = quiet_advance[OF assms, of c "seen_at ?e"]
  obtain cur s' where taken: "take_evidence mk c ?e False (fst (advanceLocked c ord (seen_at ?e) s)) = (cur, s')"
    by (cases "take_evidence mk c ?e False (fst (advanceLocked c ord (seen_at ?e) s))")
  have "quiet A J (observe_evidence mk c ord ?e False s)"
    unfolding observe_evidence_cases Let_def taken
    using assms(2) now quiet_take[OF now taken] old by (simp add: track)
  then show ?thesis by (simp add: observeLocked_def Some)
qed (use assms in \<open>simp add: observeLocked_def\<close>)

lemma quiet_observe_all:
  "list_all range_ok (map fst obs) \<Longrightarrow> list_all (\<lambda>ob. \<not> NotifyEligible ob) (map snd obs) \<Longrightarrow> quiet A J s \<Longrightarrow>
   quiet A J (observe_all mk c obs s)"
  by (induction mk c obs s rule: observe_all.induct) (simp_all add: quiet_observe)

section \<open>Rebuilding\<close>







section \<open>A whole pass\<close>

lemma quiet_mark:
  assumes "quiet A J (state sv)" "\<And>j. JobIncidentID (f j) = JobIncidentID j"
  shows "quiet A J (state (fst (mark out n f sv)))"
proof (cases "map_of (Jobs (state sv)) n")
  case (Some j)
  then have "n \<in> J \<or> JobIncidentID j \<in> A"
    using assms(1) by (auto simp: quiet_def jobs_quiet_def dest: map_of_SomeD)
  with Some assms show ?thesis by (auto simp: mark_cases quiet_def Let_def split: option.split)
qed (use assms in \<open>simp add: mark_cases\<close>)

lemma quiet_marks:
  "list_all is_mark es \<Longrightarrow> quiet A J (state sv) \<Longrightarrow> quiet A J (state (run (engine_step mk) es sv))"
proof (induction es arbitrary: sv)
  case (Cons ev es)
  then show ?case
    by (cases ev) (simp_all add: MarkNotificationSent_def MarkNotificationFailed_def quiet_mark)
qed simp


section \<open>What was settled before a pass\<close>















section \<open>Imported messages\<close>

text \<open>What wants notifications before a pass: an incident, or a tracker for the incident it is on.\<close>

definition wanted_before :: "Snapshot \<Rightarrow> string set" where
  "wanted_before s =
     fst ` {(n, i) \<in> set (Incidents s). IncNotify i} \<union> TrackedID ` {c \<in> snd ` set (Trackers s). TrackedNotify c}"

lemma wanted_quiet:
  assumes "engine_inv c s"
  shows "quiet (wanted_before s) (fst ` set (Jobs s)) s"
proof -
  have "IncID i = n" if "(n, i) \<in> set (Incidents s)" for n i
  proof -
    have "map_of (Incidents s) n = Some i" using assms that by (simp add: engine_inv_def keyed_def)
    then show ?thesis using assms linked_id by (auto simp: engine_inv_def)
  qed
  moreover have "n \<in> wanted_before s" if "(n, i) \<in> set (Incidents s)" "IncNotify i" for n i
    using image_eqI[of n fst "(n, i)"] that by (simp add: wanted_before_def)
  moreover have "TrackedID c \<in> wanted_before s" if "(k, c) \<in> set (Trackers s)" "TrackedNotify c" for k c
    using image_eqI[of c snd "(k, c)"] that by (simp add: wanted_before_def)
  moreover have "n \<in> fst ` set (Jobs s)" if "(n, j) \<in> set (Jobs s)" for n j
    using image_eqI[of n fst "(n, j)"] that by simp
  ultimately show ?thesis
    by (auto simp: quiet_def incidents_quiet_def trackers_quiet_def jobs_quiet_def)
qed

text \<open>C33: Imported messages are analysed without being announced. When all that is new are imported messages, a
  pass adds no notification but for an incident that wanted one before.\<close>

theorem imports_are_not_announced:
  assumes "service_reachable mk (engine w)"
    and "read_new W p (cfg (engine w)) (Cursors (state (engine w))) = Inr (None, rs, nxt)"
    and "list_all (\<lambda>r. Transport (RecMessage r) = ''import'') rs"
    and "\<And>ref. range_ok (ObserveOrd p ref)" "range_ok (TickOrd p)"
    and "(n, j) \<in> set (Jobs (state (engine (worker (reconcile W p now w)))))"
  shows "n \<in> fst ` set (Jobs (state (engine w))) \<or> JobIncidentID j \<in> wanted_before (state (engine w))"
proof -
  let ?q = "quiet (wanted_before (state (engine w))) (fst ` set (Jobs (state (engine w))))"
  define obs where "obs = map (observation w None) (in_order rs)"
  have "list_all (\<lambda>ob. \<not> NotifyEligible ob) (map snd (ordered p obs))"
    using assms(3)
    by (auto simp: ordered_def obs_def observation_def eligible_record_def in_order_def list_all_iff Let_def)
  moreover have "list_all range_ok (map fst (ordered p obs))"
    using assms(4) by (auto simp: ordered_def list_all_iff)
  moreover have "?q (state (engine w))"
    using wanted_quiet reachable_inv[OF assms(1)] by blast
  ultimately have "?q (observe_all (names W) (cfg (engine w)) (ordered p obs) (state (engine w)))"
    by (intro quiet_observe_all)
  then have first: "?q (state (engine_step (names W) (Applied (ApplySave p) (ordered p obs) nxt now) (engine w)))"
    by (simp add: Apply_def quiet_def)
  obtain es h where es: "es = [] \<or> (\<exists>ms. es = Ticked (TickOrd p) (TickSave p) now # ms \<and> list_all is_mark ms)"
      "worker (reconcile W p now w) =
         w\<lparr>engine := run (engine_step (names W)) (Applied (ApplySave p) (ordered p obs) nxt now # es) (engine w), health := h\<rparr>"
    using reconcile_run[OF assms(2), of now] unfolding obs_def by blast
  have "?q (state (fst (Tick (TickOrd p) (TickSave p) now sv)))" if "?q (state sv)" for sv
    using quiet_advance[OF assms(5) that] by (simp add: Tick_def Let_def split_beta)
  then have "?q (state (engine (worker (reconcile W p now w))))"
    using es first quiet_marks by auto
  with assms(6) show ?thesis by (auto simp: quiet_def jobs_quiet_def)
qed

text \<open>An imported record of an outage, read by a worker that reports what it sees.\<close>

definition imported_world :: World where
  "imported_world =
     outage_world\<lparr>json := outage_codec\<lparr>decode := map_of [(''a'' @ [newline_byte], (goes_down ''a'' 100 ''wan'')\<lparr>Transport := ''import''\<rparr>)]\<rparr>\<rparr>"

theorem imports_are_not_announced_witness:
  "Jobs (state (engine (worker (reconcile imported_world (found (take 2 log_bytes)) 300 (NewWorker new_service False 50 []))))) = []"
proof -
  let ?w = "NewWorker new_service False 50 []"
  let ?r = "\<lparr>RecMessage = (goes_down ''a'' 100 ''wan'')\<lparr>Transport := ''import''\<rparr>, RecFile = ''router.ndjson'', RecOffset = 2\<rparr>"
  have w: "engine ?w = new_service" by (simp add: NewWorker_def)
  have s: "state new_service = empty_snapshot" by (simp add: new_service_def New_def sample_config_def)
  have "read_new imported_world (found (take 2 log_bytes)) (cfg new_service) [] =
      Inr (None, [?r], [(''router.ndjson'', \<lparr>CursorOffset = 2, Fingerprint = take 2 log_bytes\<rparr>)])"
    by code_simp
  then have r: "read_new imported_world (found (take 2 log_bytes)) (cfg (engine ?w)) (Cursors (state (engine ?w))) =
      Inr (None, [?r], [(''router.ndjson'', \<lparr>CursorOffset = 2, Fingerprint = take 2 log_bytes\<rparr>)])"
    by (simp add: w s empty_snapshot_def)
  have reached: "service_reachable sample_mk (engine ?w)"
    unfolding w by (rule reach.start) simp
  have "range_ok (ObserveOrd (found (take 2 log_bytes)) ref)" "range_ok (TickOrd (found (take 2 log_bytes)))" for ref
    by (simp_all add: found_def)
  with imports_are_not_announced[OF reached r] have
    "(n, j) \<notin> set (Jobs (state (engine (worker (reconcile imported_world (found (take 2 log_bytes)) 300 ?w)))))" for n j
    by (auto simp: w s empty_snapshot_def wanted_before_def)
  then show ?thesis by (metis list.set_intros(1) neq_Nil_conv surj_pair)
qed

end
