(* ===== verification/Message_Import.thy ===== *)
theory Message_Import
  imports Message_Store
begin

text \<open>
  \<open>internal/api/import.go\<close> and \<open>handleImportMessages\<close>: an uploaded body of JSON lines becomes messages of the
  store. The JSON decoder, \<open>time.Parse\<close> at RFC3339Nano, lower-casing and the text in which a decoded value is kept
  are the parameters of an import. The request's context, the new identifier and what the store answers are given for
  every line.
\<close>

section \<open>Lines\<close>

text \<open>A value of a decoded object; one that is none of these comes with its \<open>fmt.Sprint\<close> text.\<close>

datatype json_value = Json_null | Json_string string | Json_number string | Json_bool bool | Json_other string

text \<open>What decoding a line with \<open>UseNumber\<close> gives; the JSON value null gives no fields.\<close>

datatype decoded = Invalid_json | Trailing_json | Object "(string \<times> json_value) list"

record import_library =
  decode_line :: "string \<Rightarrow> decoded"
  parse_rfc3339 :: "string \<Rightarrow> time option"
  lower :: "string \<Rightarrow> string"
  value_text :: "json_value \<Rightarrow> string"

datatype code_error = Not_recognized string | Outside int int int

datatype line_error =
    Bad_json | Bad_trailing | No_timestamp | Bad_timestamp | Bad_facility code_error | Bad_severity code_error

definition importString :: "(string \<times> json_value) list \<Rightarrow> string \<Rightarrow> string" where
  "importString raw key =
     (case map_of raw key of
        None \<Rightarrow> []
      | Some v \<Rightarrow>
          (case v of
             Json_null \<Rightarrow> []
           | Json_string s \<Rightarrow> s
           | Json_number n \<Rightarrow> n
           | Json_bool b \<Rightarrow> (if b then ''true'' else ''false'')
           | Json_other t \<Rightarrow> t))"

definition severityNames :: "(string \<times> int) list" where
  "severityNames =
     [(''emerg'', 0), (''emergency'', 0), (''alert'', 1), (''crit'', 2), (''critical'', 2), (''err'', 3),
      (''error'', 3), (''warning'', 4), (''warn'', 4), (''notice'', 5), (''info'', 6), (''informational'', 6),
      (''debug'', 7)]"

definition facilityNames :: "(string \<times> int) list" where
  "facilityNames =
     [(''kern'', 0), (''kernel'', 0), (''user'', 1), (''mail'', 2), (''daemon'', 3), (''auth'', 4), (''security'', 4),
      (''syslog'', 5), (''lpr'', 6), (''news'', 7), (''uucp'', 8), (''cron'', 9), (''authpriv'', 10), (''ftp'', 11),
      (''ntp'', 12), (''audit'', 13), (''alert'', 14), (''clock'', 15), (''local0'', 16), (''local1'', 17),
      (''local2'', 18), (''local3'', 19), (''local4'', 20), (''local5'', 21), (''local6'', 22), (''local7'', 23)]"

definition parseSyslogCode ::
  "import_library \<Rightarrow> string \<Rightarrow> (string \<times> int) list \<Rightarrow> int \<Rightarrow> int \<Rightarrow> code_error + int option" where
  "parseSyslogCode lib val table minValue maxValue =
     (let val = lower lib (go_trim val)
      in if val = [] then Inr None
         else (case map_of table val of
                 Some n \<Rightarrow> Inr (Some n)
               | None \<Rightarrow>
                   (case atoi val of
                      None \<Rightarrow> Inl (Not_recognized val)
                    | Some n \<Rightarrow>
                        if n < minValue \<or> maxValue < n then Inl (Outside n minValue maxValue) else Inr (Some n))))"

definition parseSeverity :: "import_library \<Rightarrow> string \<Rightarrow> code_error + int option" where
  "parseSeverity lib val = parseSyslogCode lib val severityNames 0 7"

definition parseFacility :: "import_library \<Rightarrow> string \<Rightarrow> code_error + int option" where
  "parseFacility lib val = parseSyslogCode lib val facilityNames 0 23"

definition parseImportedMessage :: "import_library \<Rightarrow> string \<Rightarrow> string \<Rightarrow> line_error + Message" where
  "parseImportedMessage lib newID line =
     (case decode_line lib line of
        Invalid_json \<Rightarrow> Inl Bad_json
      | Trailing_json \<Rightarrow> Inl Bad_trailing
      | Object raw \<Rightarrow>
          let timestampText = go_trim (importString raw ''timestamp'')
          in if timestampText = [] then Inl No_timestamp
             else (case parse_rfc3339 lib timestampText of
                     None \<Rightarrow> Inl Bad_timestamp
                   | Some t \<Rightarrow>
                       (case parseFacility lib (importString raw ''facility'') of
                          Inl e \<Rightarrow> Inl (Bad_facility e)
                        | Inr fac \<Rightarrow>
                            (case parseSeverity lib (importString raw ''severity'') of
                               Inl e \<Rightarrow> Inl (Bad_severity e)
                             | Inr sev \<Rightarrow>
                                 let prio = (case (fac, sev) of (Some f, Some s) \<Rightarrow> Some (f * 8 + s) | _ \<Rightarrow> None);
                                     hst = go_trim (importString raw ''host'');
                                     program = go_trim (importString raw ''program'')
                                 in Inr \<lparr>ID = newID, ReceivedAt = t, Timestamp = Some t, Transport = ''import'',
                                         Source = [], Priority = prio, Facility = fac, Severity = sev,
                                         Hostname = (if hst = [] then ''unknown'' else hst), AppName = program,
                                         ProcID = go_trim (importString raw ''pid''), MsgID = [], Tag = program,
                                         Text = importString raw ''message'', StructuredData = [],
                                         Raw = map (map_prod id (value_text lib)) raw\<rparr>))))"

section \<open>Bodies\<close>

text \<open>The bytes that arrived, and whether the body ended there or reading it failed. A scanner hands out the last
  line in both cases, and fails on a line that does not fit its buffer, which is as large as the store's.\<close>

record import_body =
  arrived :: string
  cut_off :: bool

record line_world =
  gone :: bool
  fresh_id :: string
  written :: write_outcome
  clock :: time
  inode :: nat

datatype import_error = Invalid_line nat line_error | Not_appended nat store_error | Request_gone | Body_unreadable

record importResult =
  imported :: nat
  skipped :: nat

record 's import_state =
  result :: importResult
  kept_in :: 's

text \<open>The loop over the lines, the first of which has a number. The store is what it is asked to append to.\<close>

fun import_lines ::
  "import_library \<Rightarrow> (line_world \<Rightarrow> Message \<Rightarrow> 's \<Rightarrow> 's \<times> store_error option) \<Rightarrow> (nat \<Rightarrow> line_world) \<Rightarrow> bool
   \<Rightarrow> nat \<Rightarrow> string list \<Rightarrow> 's import_state \<Rightarrow> 's import_state \<times> import_error option" where
  "import_lines lib put env cutoff n [] s = (s, if cutoff then Some Body_unreadable else None)"
| "import_lines lib put env cutoff n (line # lines) s =
     (if too_long line then (s, Some Body_unreadable)
      else if gone (env n) then (s, Some Request_gone)
      else
        let line = go_trim line
        in if line = []
           then import_lines lib put env cutoff (n + 1) lines
                  (s\<lparr>result := (result s)\<lparr>skipped := skipped (result s) + 1\<rparr>\<rparr>)
           else (case parseImportedMessage lib (fresh_id (env n)) line of
                   Inl e \<Rightarrow> (s, Some (Invalid_line n e))
                 | Inr m \<Rightarrow>
                     (case put (env n) m (kept_in s) of
                        (st, Some e) \<Rightarrow> (s\<lparr>kept_in := st\<rparr>, Some (Not_appended n e))
                      | (st, None) \<Rightarrow>
                          import_lines lib put env cutoff (n + 1) lines
                            (s\<lparr>result := (result s)\<lparr>imported := imported (result s) + 1\<rparr>, kept_in := st\<rparr>))))"

definition importMessages ::
  "import_library \<Rightarrow> (line_world \<Rightarrow> Message \<Rightarrow> 's \<Rightarrow> 's \<times> store_error option) \<Rightarrow> (nat \<Rightarrow> line_world) \<Rightarrow> import_body
   \<Rightarrow> 's \<Rightarrow> 's import_state \<times> import_error option" where
  "importMessages lib put env body st =
     import_lines lib put env (cut_off body) 1 (scan_lines (arrived body))
       \<lparr>result = \<lparr>imported = 0, skipped = 0\<rparr>, kept_in = st\<rparr>"

definition isImportValidationError :: "import_error \<Rightarrow> bool" where
  "isImportValidationError e = (case e of Invalid_line n l \<Rightarrow> True | _ \<Rightarrow> False)"

datatype import_reply = Imported nat nat | Rejected import_error | Import_failed

definition handleImportMessages ::
  "import_library \<Rightarrow> (line_world \<Rightarrow> Message \<Rightarrow> 's \<Rightarrow> 's \<times> store_error option) \<Rightarrow> (nat \<Rightarrow> line_world) \<Rightarrow> import_body
   \<Rightarrow> 's \<Rightarrow> 's \<times> import_reply" where
  "handleImportMessages lib put env body st =
     (case importMessages lib put env body st of
        (s, Some e) \<Rightarrow> (kept_in s, if isImportValidationError e then Rejected e else Import_failed)
      | (s, None) \<Rightarrow> (kept_in s, Imported (imported (result s)) (skipped (result s))))"

section \<open>What an import leaves\<close>

text \<open>The lines with their numbers, from \<open>n\<close> on, and the messages they ask to be stored.\<close>

fun numbered :: "nat \<Rightarrow> string list \<Rightarrow> (nat \<times> string) list" where
  "numbered n [] = []"
| "numbered n (line # lines) = (n, line) # numbered (n + 1) lines"

definition filled :: "(nat \<times> string) list \<Rightarrow> (nat \<times> string) list" where
  "filled = filter (\<lambda>(n, line). go_trim line \<noteq> [])"

definition parsed :: "import_library \<Rightarrow> (nat \<Rightarrow> line_world) \<Rightarrow> nat \<times> string \<Rightarrow> line_error + Message" where
  "parsed lib env x = parseImportedMessage lib (fresh_id (env (fst x))) (go_trim (snd x))"

text \<open>All of some lines become messages of the store, one after the other.\<close>

fun stores_all ::
  "import_library \<Rightarrow> (line_world \<Rightarrow> Message \<Rightarrow> 's \<Rightarrow> 's \<times> store_error option) \<Rightarrow> (nat \<Rightarrow> line_world)
   \<Rightarrow> (nat \<times> string) list \<Rightarrow> 's \<Rightarrow> 's \<Rightarrow> bool" where
  "stores_all lib put env [] st st' \<longleftrightarrow> st' = st"
| "stores_all lib put env (x # xs) st st' \<longleftrightarrow>
     (case parsed lib env x of
        Inl e \<Rightarrow> False
      | Inr m \<Rightarrow> (case put (env (fst x)) m st of (st1, None) \<Rightarrow> stores_all lib put env xs st1 st' | _ \<Rightarrow> False))"

text \<open>Why an import stopped after \<open>k\<close> lines, in a store \<open>st\<close>.\<close>

definition stopped_by ::
  "import_library \<Rightarrow> (line_world \<Rightarrow> Message \<Rightarrow> 's \<Rightarrow> 's \<times> store_error option) \<Rightarrow> (nat \<Rightarrow> line_world)
   \<Rightarrow> (nat \<times> string) list \<Rightarrow> bool \<Rightarrow> 's \<Rightarrow> 's \<Rightarrow> import_error option \<Rightarrow> bool" where
  "stopped_by lib put env todo cutoff st st' err \<longleftrightarrow>
     (case err of
        None \<Rightarrow> todo = [] \<and> \<not> cutoff \<and> st' = st
      | Some (Invalid_line n e) \<Rightarrow>
          (\<exists>line more. todo = (n, line) # more \<and> parsed lib env (n, line) = Inl e) \<and> st' = st
      | Some (Not_appended n e) \<Rightarrow>
          (\<exists>line more m. todo = (n, line) # more \<and> parsed lib env (n, line) = Inr m \<and> put (env n) m st = (st', Some e))
      | Some Request_gone \<Rightarrow> todo \<noteq> [] \<and> gone (env (fst (hd todo))) \<and> st' = st
      | Some Body_unreadable \<Rightarrow> (todo = [] \<and> cutoff \<or> todo \<noteq> [] \<and> too_long (snd (hd todo))) \<and> st' = st)"

lemma import_lines_prefix:
  assumes "import_lines lib put env cutoff n lines s = (s', err)"
  shows "\<exists>k st. k \<le> length lines
    \<and> stores_all lib put env (filled (take k (numbered n lines))) (kept_in s) st
    \<and> imported (result s') = imported (result s) + length (filled (take k (numbered n lines)))
    \<and> skipped (result s') = skipped (result s) + (k - length (filled (take k (numbered n lines))))
    \<and> stopped_by lib put env (drop k (numbered n lines)) cutoff st (kept_in s') err"
  using assms
proof (induction lib put env cutoff n lines s rule: import_lines.induct)
  case (1 lib put env cutoff n s)
  then show ?case
    by (intro exI[of _ 0] exI[of _ "kept_in s"])
      (auto simp: filled_def stopped_by_def split: if_splits)
next
  case (2 lib put env cutoff n line lines s)
  have here: ?case if "stopped_by lib put env (numbered n (line # lines)) cutoff (kept_in s) (kept_in s') err"
      "result s' = result s"
    using that by (intro exI[of _ 0] exI[of _ "kept_in s"]) (simp add: filled_def)
  show ?case
  proof (cases "too_long line \<or> gone (env n)")
    case True
    with 2(3) show ?thesis by (intro here) (auto simp: stopped_by_def split: if_splits)
  next
    case False
    show ?thesis
    proof (cases "go_trim line = []")
      case True
      let ?s = "s\<lparr>result := (result s)\<lparr>skipped := skipped (result s) + 1\<rparr>\<rparr>"
      have "import_lines lib put env cutoff (n + 1) lines ?s = (s', err)" using 2(3) False True by simp
      from 2(1)[OF _ _ refl True this] False obtain k st where k: "k \<le> length lines"
        "stores_all lib put env (filled (take k (numbered (n + 1) lines))) (kept_in s) st"
        "imported (result s') = imported (result s) + length (filled (take k (numbered (n + 1) lines)))"
        "skipped (result s') = skipped (result s) + 1 + (k - length (filled (take k (numbered (n + 1) lines))))"
        "stopped_by lib put env (drop k (numbered (n + 1) lines)) cutoff st (kept_in s') err"
        by auto
      have "length (filled (take k (numbered (n + 1) lines))) \<le> k"
        using length_filter_le[of _ "take k (numbered (n + 1) lines)"] by (fastforce simp: filled_def)
      with k True show ?thesis
        by (intro exI[of _ "Suc k"] exI[of _ st]) (simp add: filled_def Suc_diff_le)
    next
      case filled: False
      show ?thesis
      proof (cases "parsed lib env (n, line)")
        case (Inl e)
        with 2(3) False filled show ?thesis
          by (intro here) (auto simp: stopped_by_def parsed_def)
      next
        case (Inr m)
        show ?thesis
        proof (cases "put (env n) m (kept_in s)")
          case (Pair st1 failed)
          show ?thesis
          proof (cases failed)
            case (Some e)
            with 2(3) False filled Inr Pair show ?thesis
              by (intro here) (auto simp: stopped_by_def parsed_def)
          next
            case None
            let ?s = "s\<lparr>result := (result s)\<lparr>imported := imported (result s) + 1\<rparr>, kept_in := st1\<rparr>"
            have "import_lines lib put env cutoff (n + 1) lines ?s = (s', err)"
              using 2(3) False filled Inr Pair None by (simp add: parsed_def)
            from 2(2)[OF _ _ refl filled Inr[unfolded parsed_def fst_conv snd_conv] Pair[symmetric] None this] False
            obtain k st where k: "k \<le> length lines"
              "stores_all lib put env (filled (take k (numbered (n + 1) lines))) st1 st"
              "imported (result s') = imported (result s) + 1 + length (filled (take k (numbered (n + 1) lines)))"
              "skipped (result s') = skipped (result s) + (k - length (filled (take k (numbered (n + 1) lines))))"
              "stopped_by lib put env (drop k (numbered (n + 1) lines)) cutoff st (kept_in s') err"
              by auto
            then show ?thesis
              using Inr Pair None filled
              by (intro exI[of _ "Suc k"] exI[of _ st]) (simp add: filled_def)
          qed
        qed
      qed
    qed
  qed
qed

lemma numbered_length [simp]: "length (numbered n lines) = length lines"
  by (induction n lines rule: numbered.induct) simp_all

text \<open>C36: An import keeps what it has read. Whatever ends it, the lines before have been dealt with: each that is
  not blank is one message of the store, in the order of the lines, and the counts say how many were stored and
  skipped. No error means that every line was taken and the body ended there. An error that a line causes, because it
  is no message or could not be stored, gives the number of the line; one that no line causes, because the request is
  gone or the body cannot be read on (as after a line that is too long), gives none. Nothing of this is taken back.\<close>

theorem import_keeps_what_it_read:
  assumes "importMessages lib put env body st = (s, err)"
  shows "\<exists>k st1. stores_all lib put env (filled (take k (numbered 1 (scan_lines (arrived body))))) st st1
    \<and> imported (result s) = length (filled (take k (numbered 1 (scan_lines (arrived body)))))
    \<and> imported (result s) + skipped (result s) = k \<and> k \<le> length (scan_lines (arrived body))
    \<and> stopped_by lib put env (drop k (numbered 1 (scan_lines (arrived body)))) (cut_off body) st1 (kept_in s) err"
proof -
  let ?lines = "scan_lines (arrived body)"
  obtain k st1 where k: "k \<le> length ?lines" "stores_all lib put env (filled (take k (numbered 1 ?lines))) st st1"
    "imported (result s) = length (filled (take k (numbered 1 ?lines)))"
    "skipped (result s) = k - length (filled (take k (numbered 1 ?lines)))"
    "stopped_by lib put env (drop k (numbered 1 ?lines)) (cut_off body) st1 (kept_in s) err"
    using import_lines_prefix[OF assms[unfolded importMessages_def]] by auto
  have "length (filled (take k (numbered 1 ?lines))) \<le> length (take k (numbered 1 ?lines))"
    unfolding filled_def by (rule length_filter_le)
  with k show ?thesis by (intro exI[of _ k] exI[of _ st1]) simp
qed

definition sample_import :: import_library where
  "sample_import =
     \<lparr>decode_line = \<lambda>line. if line = ''a'' then Object [(''timestamp'', Json_string ''t''), (''severity'', Json_string ''err'')]
        else Invalid_json,
      parse_rfc3339 = \<lambda>t. Some 5, lower = \<lambda>s. s, value_text = \<lambda>v. []\<rparr>"

definition sample_lines :: import_body where
  "sample_lines = \<lparr>arrived = '' '' @ [newline_byte] @ ''a'' @ [newline_byte] @ ''{'' @ [newline_byte] @ ''a'', cut_off = False\<rparr>"

definition sample_env :: "nat \<Rightarrow> line_world" where
  "sample_env n = \<lparr>gone = False, fresh_id = dec (int n), written = Written 1, clock = 9, inode = 1\<rparr>"

text \<open>An import into a list.\<close>

definition put_last :: "line_world \<Rightarrow> Message \<Rightarrow> Message list \<Rightarrow> Message list \<times> store_error option" where
  "put_last w m ms = (ms @ [m], None)"

theorem import_keeps_what_it_read_witness:
  "\<exists>k st1. stores_all sample_import put_last sample_env (filled (take k (numbered 1 (scan_lines (arrived sample_lines))))) [] st1
    \<and> stopped_by sample_import put_last sample_env (drop k (numbered 1 (scan_lines (arrived sample_lines)))) False st1
        st1 (Some (Invalid_line 3 Bad_json)) \<and> map ID st1 = [''2'']"
proof -
  obtain s err where s: "importMessages sample_import put_last sample_env sample_lines [] = (s, err)" by fastforce
  have "(\<lambda>(s, err). (err, map ID (kept_in s))) (importMessages sample_import put_last sample_env sample_lines []) =
      (Some (Invalid_line 3 Bad_json), [''2''])"
    by code_simp
  then have err: "err = Some (Invalid_line 3 Bad_json)" "map ID (kept_in s) = [''2'']" by (simp_all add: s)
  have "cut_off sample_lines = False" by (simp add: sample_lines_def)
  with import_keeps_what_it_read[OF s] obtain k st1 where
    "stores_all sample_import put_last sample_env (filled (take k (numbered 1 (scan_lines (arrived sample_lines))))) [] st1"
    "stopped_by sample_import put_last sample_env (drop k (numbered 1 (scan_lines (arrived sample_lines)))) False st1
        (kept_in s) (Some (Invalid_line 3 Bad_json))"
    using err(1) by auto
  moreover from this(2) have "kept_in s = st1" by (simp add: stopped_by_def)
  ultimately show ?thesis using err(2) by (intro exI[of _ k] exI[of _ st1]) simp
qed

lemma code_in_range:
  assumes "parseSyslogCode lib v table lo hi = Inr n" "snd ` set table \<subseteq> {lo..hi}"
  shows "set_option n \<subseteq> {lo..hi}"
  using assms by (auto simp: parseSyslogCode_def Let_def dest!: map_of_SomeD split: if_splits option.splits)

text \<open>C37: What an import stores is well-formed: a message of the transport import with a host name, received at its
  own timestamp, with a facility up to 23 and a severity up to 7 where it has them, and with the priority, at most
  191, exactly where it has both.\<close>

theorem imported_message_is_well_formed:
  assumes "parseImportedMessage lib i line = Inr m"
  shows "ID m = i \<and> Transport m = ''import'' \<and> Timestamp m = Some (ReceivedAt m) \<and> Hostname m \<noteq> []
    \<and> set_option (Facility m) \<subseteq> {0..23} \<and> set_option (Severity m) \<subseteq> {0..7} \<and> set_option (Priority m) \<subseteq> {0..191}
    \<and> Priority m = Option.bind (Facility m) (\<lambda>f. map_option (\<lambda>s. 8 * f + s) (Severity m))"
proof -
  obtain raw t fac sev where parts: "parseFacility lib (importString raw ''facility'') = Inr fac"
      "parseSeverity lib (importString raw ''severity'') = Inr sev" "Facility m = fac" "Severity m = sev"
      "Priority m = (case (fac, sev) of (Some f, Some s) \<Rightarrow> Some (f * 8 + s) | _ \<Rightarrow> None)"
      "ID m = i" "Transport m = ''import''" "Timestamp m = Some (ReceivedAt m)" "Hostname m \<noteq> []"
    using assms by (auto simp: parseImportedMessage_def Let_def split: decoded.splits if_splits option.splits sum.splits)
  have "set_option fac \<subseteq> {0..23}"
    by (rule code_in_range[OF parts(1)[unfolded parseFacility_def]]) (simp add: facilityNames_def)
  moreover have "set_option sev \<subseteq> {0..7}"
    by (rule code_in_range[OF parts(2)[unfolded parseSeverity_def]]) (simp add: severityNames_def)
  ultimately show ?thesis using parts by (cases fac; cases sev) auto
qed

theorem imported_message_is_well_formed_witness:
  "\<exists>m. parseImportedMessage sample_import ''7'' ''a'' = Inr m \<and> Hostname m = ''unknown'' \<and> set_option (Severity m) \<subseteq> {0..7}"
proof -
  have "(case parseImportedMessage sample_import ''7'' ''a'' of Inl e \<Rightarrow> False | Inr m \<Rightarrow> Hostname m = ''unknown'')" by code_simp
  then obtain m where "parseImportedMessage sample_import ''7'' ''a'' = Inr m" "Hostname m = ''unknown''"
    by (auto split: sum.splits)
  with imported_message_is_well_formed[OF this(1)] show ?thesis by blast
qed

end
