(* ===== verification/Export_Import.thy ===== *)
theory Export_Import
  imports Message_Import Timeline
begin

text \<open>
  What becomes of the page's export when it is imported: the object that \<open>JSON.stringify\<close> wrote
  (\<open>Wire_Types.message_json\<close>) is read by \<open>parseImportedMessage\<close>.
\<close>

text \<open>What is documented of Go's decoder: it reads an object that \<open>JSON.stringify\<close> wrote, field by field.\<close>

fun decoded_value :: "json \<Rightarrow> json_value \<Rightarrow> bool" where
  "decoded_value JNull v = (v = Json_null)"
| "decoded_value (JBool b) v = (v = Json_bool b)"
| "decoded_value (JNum t) v = (v = Json_number t)"
| "decoded_value (JStr s) v = (v = Json_string s)"
| "decoded_value (JArr xs) v = (\<exists>t. v = Json_other t)"
| "decoded_value (JObj fs) v = (\<exists>t. v = Json_other t)"

definition decodes_objects :: "import_library \<Rightarrow> (string \<times> json) list \<Rightarrow> bool" where
  "decodes_objects lib fs \<longleftrightarrow>
     (\<exists>obj. decode_line lib (stringify (JObj fs)) = Object obj \<and> list_all2 (\<lambda>(k, j) (k', v). k' = k \<and> decoded_value j v) fs obj)"

lemma fields_map:
  "list_all2 (\<lambda>(k, j) (k', v). k' = k \<and> decoded_value j v) fs obj \<Longrightarrow>
   (case map_of fs k of None \<Rightarrow> map_of obj k = None | Some j \<Rightarrow> \<exists>v. map_of obj k = Some v \<and> decoded_value j v)"
  by (induction rule: list_all2_induct) (auto split: option.splits)

definition message_fields :: "SyslogMessage \<Rightarrow> (string \<times> json) list" where
  "message_fields m = (case message_json m of JObj fs \<Rightarrow> fs | _ \<Rightarrow> [])"

lemma message_json_fields: "message_json m = JObj (message_fields m)"
  by (simp add: message_fields_def message_json_def)

lemma opt_field_map:
  "map_of (opt_field k f v @ fs) n = (if n = k \<and> v \<noteq> None then map_option f v else map_of fs n)"
  "map_of (opt_field k f v) n = (if n = k then map_option f v else None)"
  by (simp_all add: opt_field_def split: option.split)

lemma message_field:
  "map_of (message_fields m) ''host'' = None" "map_of (message_fields m) ''program'' = None"
  "map_of (message_fields m) ''pid'' = None" "map_of (message_fields m) ''message'' = map_option JStr (message m)"
  "map_of (message_fields m) ''timestamp'' = map_option JStr (timestamp m)"
  by (simp_all add: message_fields_def message_json_def opt_field_map del: map_of_append)

text \<open>C38: An exported message comes back without its host and program. The export writes the fields
  \<open>hostname\<close>, \<open>app_name\<close> and \<open>proc_id\<close>, the import reads \<open>host\<close>, \<open>program\<close> and \<open>pid\<close>: whatever message of the
  page is exported and imported, the stored one has the host "unknown" and no program, tag or process; its text is
  kept. A message without a timestamp of its own is not taken at all.\<close>

theorem exported_message_loses_its_host:
  assumes "decodes_objects lib (message_fields m)"
    and "parseImportedMessage lib i (stringify (message_json m)) = Inr m'"
  shows "Hostname m' = ''unknown'' \<and> AppName m' = [] \<and> Tag m' = [] \<and> ProcID m' = []
       \<and> Text m' = (case message m of None \<Rightarrow> [] | Some t \<Rightarrow> t) \<and> timestamp m \<noteq> None"
proof -
  obtain obj where r: "decode_line lib (stringify (message_json m)) = Object obj"
      "list_all2 (\<lambda>(k, j) (k', v). k' = k \<and> decoded_value j v) (message_fields m) obj"
    using assms(1) by (auto simp: decodes_objects_def message_json_fields)
  note field = fields_map[OF r(2)]
  have "importString obj ''host'' = []" "importString obj ''program'' = []" "importString obj ''pid'' = []"
    using field[of "''host''"] field[of "''program''"] field[of "''pid''"] by (simp_all add: message_field importString_def)
  moreover have "importString obj ''message'' = (case message m of None \<Rightarrow> [] | Some t \<Rightarrow> t)"
    using field[of "''message''"] by (auto simp: message_field importString_def split: option.splits)
  moreover have "timestamp m = None \<Longrightarrow> importString obj ''timestamp'' = []"
    using field[of "''timestamp''"] by (simp add: message_field importString_def)
  ultimately show ?thesis
    using assms(2) r(1)
    by (cases "timestamp m") (auto simp: parseImportedMessage_def Let_def split: if_splits option.splits sum.splits)
qed

definition exported :: SyslogMessage where
  "exported =
     \<lparr>msg_key = ''1'', received_at = ''t'', timestamp = Some ''t'', transport = None, source = None, priority = None,
      facility = None, severity = Some 3, hostname = Some ''router'', app_name = Some ''dnsmasq'', proc_id = None,
      msg_id = None, tag = None, message = Some ''up'', structured_data = None, raw = None\<rparr>"

definition reading :: import_library where
  "reading =
     \<lparr>decode_line = \<lambda>line. if line = stringify (message_json exported)
        then Object [(''id'', Json_string ''1''), (''received_at'', Json_string ''t''), (''timestamp'', Json_string ''t''),
          (''severity'', Json_number ''3''), (''hostname'', Json_string ''router''), (''app_name'', Json_string ''dnsmasq''),
          (''message'', Json_string ''up'')]
        else Invalid_json,
      parse_rfc3339 = \<lambda>t. Some 5, lower = \<lambda>s. s, value_text = \<lambda>v. []\<rparr>"

theorem exported_message_loses_its_host_witness:
  "\<exists>m'. parseImportedMessage reading ''2'' (stringify (message_json exported)) = Inr m'
     \<and> Hostname m' = ''unknown'' \<and> Text m' = ''up'' \<and> hostname exported = Some ''router''"
proof -
  have "dec 3 = ''3''" by code_simp
  then have lib: "decodes_objects reading (message_fields exported)"
    unfolding decodes_objects_def message_json_fields[symmetric]
    by (simp add: reading_def) (simp add: message_fields_def message_json_def exported_def opt_field_def)
  have "(case parseImportedMessage reading ''2'' (stringify (message_json exported)) of Inl e \<Rightarrow> False | Inr m' \<Rightarrow> True)"
    by code_simp
  then obtain m' where "parseImportedMessage reading ''2'' (stringify (message_json exported)) = Inr m'"
    by (auto split: sum.splits)
  with exported_message_loses_its_host[OF lib this] show ?thesis
    by (simp add: exported_def)
qed

end
