(* ===== verification/Http_Mux.thy ===== *)
theory Http_Mux
  imports Url_Form
begin

text \<open>
  What \<open>internal/api/router.go\<close> relies on of Go's library to route a request: \<open>path.Clean\<close>, the decoding of
  a path, and \<open>http.ServeMux\<close> for patterns without a host, a method or wildcards. The multiplexer looks at
  the path as it was sent, sends a client to the clean form of a path, and to the form with a slash at its end
  when only that is registered; among the patterns that match it takes the one with the most segments.
\<close>

section \<open>Paths\<close>

fun clean_segments :: "bool \<Rightarrow> string list \<Rightarrow> string list \<Rightarrow> string list" where
  "clean_segments rooted out [] = rev out"
| "clean_segments rooted out (s # ss) =
     (if s = [] \<or> s = ''.'' then clean_segments rooted out ss
      else if s = ''..''
      then (if out \<noteq> [] \<and> hd out \<noteq> ''..'' then clean_segments rooted (tl out) ss
            else if rooted then clean_segments rooted out ss
            else clean_segments rooted (s # out) ss)
      else clean_segments rooted (s # out) ss)"

definition path_clean :: "string \<Rightarrow> string" where
  "path_clean p =
     (let rooted = prefix ''/'' p; ss = clean_segments rooted [] (split_on CHR ''/'' p)
      in if rooted then CHR ''/'' # join ''/'' ss else if ss = [] then ''.'' else join ''/'' ss)"

text \<open>\<open>cleanPath\<close> of the multiplexer keeps a slash at the end.\<close>

definition cleanPath :: "string \<Rightarrow> string" where
  "cleanPath p =
     (if p = [] then ''/''
      else let p = (if hd p = CHR ''/'' then p else CHR ''/'' # p); np = path_clean p
           in if last p = CHR ''/'' \<and> np \<noteq> ''/'' then np @ ''/'' else np)"

fun percent_decode :: "string \<Rightarrow> string option" where
  "percent_decode [] = Some []"
| "percent_decode (c # s) =
     (if c = CHR 0x25
      then (case s of
              a # b # r \<Rightarrow>
                (case (unhex a, unhex b) of
                   (Some x, Some y) \<Rightarrow> map_option ((#) (char_of (16 * x + y))) (percent_decode r)
                 | _ \<Rightarrow> None)
            | _ \<Rightarrow> None)
      else map_option ((#) c) (percent_decode s))"

definition pathUnescape :: "string \<Rightarrow> string" where
  "pathUnescape s = (case percent_decode s of None \<Rightarrow> s | Some t \<Rightarrow> t)"

section \<open>The multiplexer\<close>

text \<open>A pattern: its segments, and whether it ends in a slash and so stands for all that is below it.\<close>

record pattern =
  literals :: "string list"
  subtree :: bool

definition pattern_of :: "string \<Rightarrow> pattern" where
  "pattern_of p =
     (let ss = split_on CHR ''/'' (tl p)
      in if last ss = [] then \<lparr>literals = butlast ss, subtree = True\<rparr> else \<lparr>literals = ss, subtree = False\<rparr>)"

text \<open>The segments of a path; a slash at its end is a segment of its own.\<close>

definition segments :: "string \<Rightarrow> string list" where
  "segments p =
     (if p = [] then []
      else let ss = split_on CHR ''/'' (tl p)
           in if last ss = [] then map pathUnescape (butlast ss) @ [''/''] else map pathUnescape ss)"

definition fits :: "string list \<Rightarrow> pattern \<Rightarrow> bool" where
  "fits ss n \<longleftrightarrow>
     (if subtree n then prefix (literals n) ss \<and> length (literals n) < length ss else literals n = ss)"

definition longer :: "('h \<times> pattern) option \<Rightarrow> 'h \<times> pattern \<Rightarrow> ('h \<times> pattern) option" where
  "longer best x =
     (case best of
        None \<Rightarrow> Some x
      | Some b \<Rightarrow> if length (literals (snd b)) < length (literals (snd x)) then Some x else Some b)"

definition mux_match :: "('h \<times> pattern) list \<Rightarrow> string \<Rightarrow> ('h \<times> pattern) option" where
  "mux_match pats p = foldl longer None (filter (fits (segments p) \<circ> snd) pats)"

definition exactMatch :: "('h \<times> pattern) option \<Rightarrow> string \<Rightarrow> bool" where
  "exactMatch found p =
     (case found of
        None \<Rightarrow> False
      | Some (h, n) \<Rightarrow>
          subtree n \<longrightarrow> p \<noteq> [] \<and> last p = CHR ''/'' \<and> Suc (length (literals n)) = count_list p CHR ''/'')"

text \<open>A path that is registered only with a slash at its end is sent there.\<close>

definition wants_slash :: "('h \<times> pattern) list \<Rightarrow> string \<Rightarrow> bool" where
  "wants_slash pats p \<longleftrightarrow>
     \<not> exactMatch (mux_match pats p) p \<and> \<not> suffix ''/'' p \<and> exactMatch (mux_match pats (p @ ''/'')) (p @ ''/'')"

datatype 'h routed = Moved string | To 'h | Nowhere

definition findHandler :: "('h \<times> pattern) list \<Rightarrow> string \<Rightarrow> string \<Rightarrow> 'h routed" where
  "findHandler pats meth escaped =
     (let p = (if meth = ''CONNECT'' then escaped else cleanPath escaped)
      in if wants_slash pats p then Moved (cleanPath (pathUnescape escaped) @ ''/'')
         else if p \<noteq> escaped then Moved p
         else (case mux_match pats p of None \<Rightarrow> Nowhere | Some (h, n) \<Rightarrow> To h))"

section \<open>What a pattern matches\<close>

lemma longer_best:
  "foldl longer b xs = Some y \<Longrightarrow> b = Some y \<or> y \<in> set xs"
  by (induction xs arbitrary: b) (auto simp: longer_def split: option.splits if_splits)

lemma mux_match_fits: "mux_match pats p = Some (h, n) \<Longrightarrow> (h, n) \<in> set pats \<and> fits (segments p) n"
  unfolding mux_match_def using longer_best[of None] by fastforce

lemma findHandler_fits: "findHandler pats meth p = To h \<Longrightarrow> \<exists>n. (h, n) \<in> set pats \<and> fits (segments p) n"
  by (auto simp: findHandler_def Let_def dest!: mux_match_fits split: if_splits option.splits)

section \<open>What cleaning leaves\<close>

lemma clean_segments_all:
  assumes "list_all P out" "\<And>s. s \<in> set ss \<Longrightarrow> s \<notin> {[], ''.'', ''..''} \<or> \<not> rooted \<and> s = ''..'' \<Longrightarrow> P s"
  shows "list_all P (clean_segments rooted out ss)"
  using assms
proof (induction ss arbitrary: out)
  case (Cons s ss)
  have "list_all P (tl out)" using Cons.prems(1) by (cases out) auto
  with Cons show ?case by (cases rooted) auto
qed simp

lemma split_on_pieces: "list_all (\<lambda>s. c \<notin> set s) (split_on c s)"
  by (induction s) (auto split: list.splits)

end
