(* ===== verification/Basic_Auth.thy ===== *)
theory Basic_Auth
  imports Prelude
begin

text \<open>
  \<open>internal/api/auth.go\<close>: the basic authentication before every handler but the health check, with what it
  uses of Go's library: \<open>http.Request.BasicAuth\<close>, the decoding of base64 and \<open>strings.Cut\<close>. The encoding is
  what a browser does with what its user types.
\<close>

section \<open>Base64\<close>

definition alphabet :: string where
  "alphabet = ''ABCDEFGHIJKLMNOPQRSTUVWXYZabcdefghijklmnopqrstuvwxyz0123456789+/''"

fun position_in :: "string \<Rightarrow> char \<Rightarrow> nat option" where
  "position_in [] c = None"
| "position_in (d # ds) c = (if c = d then Some 0 else map_option Suc (position_in ds c))"

definition sextet :: "char \<Rightarrow> nat option" where
  "sextet = position_in alphabet"

definition sextet_char :: "nat \<Rightarrow> char" where
  "sextet_char n = alphabet ! n"

text \<open>Four characters are three bytes; at the end two or three of them and padding are one or two.\<close>

fun decode_quads :: "string \<Rightarrow> string option" where
  "decode_quads [] = Some []"
| "decode_quads (a # b # c # d # rest) =
     (case (sextet a, sextet b) of
        (Some x, Some y) \<Rightarrow>
          if c = CHR ''='' then (if d = CHR ''='' \<and> rest = [] then Some [char_of (x * 4 + y div 16)] else None)
          else (case sextet c of
                  None \<Rightarrow> None
                | Some z \<Rightarrow>
                    let two = [char_of (x * 4 + y div 16), char_of (y mod 16 * 16 + z div 4)]
                    in if d = CHR ''='' then (if rest = [] then Some two else None)
                       else (case sextet d of
                               None \<Rightarrow> None
                             | Some w \<Rightarrow> map_option (\<lambda>s. two @ char_of (z mod 4 * 64 + w) # s) (decode_quads rest)))
      | _ \<Rightarrow> None)"
| "decode_quads _ = None"

text \<open>\<open>DecodeString\<close> skips line ends.\<close>

definition decode_base64 :: "string \<Rightarrow> string option" where
  "decode_base64 s = decode_quads (filter (\<lambda>c. c \<noteq> CHR 0x0A \<and> c \<noteq> CHR 0x0D) s)"

fun encode_base64 :: "string \<Rightarrow> string" where
  "encode_base64 [] = []"
| "encode_base64 [a] =
     (let x = of_char a :: nat in [sextet_char (x div 4), sextet_char (x mod 4 * 16), CHR ''='', CHR ''=''])"
| "encode_base64 [a, b] =
     (let x = of_char a :: nat; y = of_char b :: nat
      in [sextet_char (x div 4), sextet_char (x mod 4 * 16 + y div 16), sextet_char (y mod 16 * 4), CHR ''=''])"
| "encode_base64 (a # b # c # s) =
     (let x = of_char a :: nat; y = of_char b :: nat; z = of_char c :: nat
      in sextet_char (x div 4) # sextet_char (x mod 4 * 16 + y div 16) # sextet_char (y mod 16 * 4 + z div 64)
           # sextet_char (z mod 64) # encode_base64 s)"

section \<open>The check\<close>

record Credentials =
  Username :: string
  Password :: string

record basicAuth =
  username :: string
  password :: string

datatype auth_error = Username_required | Password_required

definition newBasicAuth :: "Credentials \<Rightarrow> auth_error + basicAuth" where
  "newBasicAuth c =
     (if Username c = [] then Inl Username_required
      else if Password c = [] then Inl Password_required
      else Inr \<lparr>username = Username c, password = Password c\<rparr>)"

definition matches :: "basicAuth \<Rightarrow> string \<Rightarrow> string \<Rightarrow> bool" where
  "matches a u p = (let usernameOK = (u = username a); passwordOK = (p = password a) in usernameOK \<and> passwordOK)"

definition lower_ascii :: "char \<Rightarrow> char" where
  "lower_ascii c = (let n = of_char c :: nat in if 65 \<le> n \<and> n \<le> 90 then char_of (n + 32) else c)"

fun cut :: "char \<Rightarrow> string \<Rightarrow> (string \<times> string) option" where
  "cut sep [] = None"
| "cut sep (c # s) = (if c = sep then Some ([], s) else map_option (map_prod ((#) c) id) (cut sep s))"

text \<open>\<open>r.BasicAuth()\<close> of the header \<open>Authorization\<close>, empty when there is none.\<close>

definition BasicAuth :: "string \<Rightarrow> (string \<times> string) option" where
  "BasicAuth header =
     (if map lower_ascii (take 6 header) \<noteq> ''basic '' then None
      else Option.bind (decode_base64 (drop 6 header)) (cut CHR '':''))"

text \<open>A refusal asks for credentials: its status, the header \<open>WWW-Authenticate\<close> and the error.\<close>

datatype 'a guarded = Unauthorized nat string string | Passed 'a

definition challenge :: "'a guarded" where
  "challenge =
     Unauthorized 401 (''Basic realm='' @ [CHR 0x22] @ ''logthing'' @ [CHR 0x22] @ '', charset='' @ [CHR 0x22] @ ''UTF-8'' @ [CHR 0x22])
       ''authentication required''"

definition require :: "basicAuth \<Rightarrow> string \<Rightarrow> 'a \<Rightarrow> 'a guarded" where
  "require a header answer =
     (case BasicAuth header of
        None \<Rightarrow> challenge
      | Some (u, p) \<Rightarrow> if matches a u p then Passed answer else challenge)"

section \<open>Base64 is read back\<close>

lemma sextet_char_value: "n < 64 \<Longrightarrow> sextet (sextet_char n) = Some n \<and> sextet_char n \<noteq> CHR ''=''
    \<and> sextet_char n \<noteq> CHR 0x0A \<and> sextet_char n \<noteq> CHR 0x0D"
proof -
  have "list_all (\<lambda>n. sextet (sextet_char n) = Some n \<and> sextet_char n \<noteq> CHR ''='' \<and> sextet_char n \<noteq> CHR 0x0A
      \<and> sextet_char n \<noteq> CHR 0x0D) [0..<64]" by code_simp
  then show "n < 64 \<Longrightarrow> ?thesis" by (simp add: list_all_iff)
qed

lemma unpack: "b < k \<Longrightarrow> (a * k + b) div k = a \<and> (a * k + b) mod k = (b :: nat)"
  by simp

lemma joined:
  fixes x y z :: nat
  assumes "x < 256" "y < 256" "z < 256"
  shows "x mod 4 * 16 + y div 16 < 64" "x div 4 * 4 + (x mod 4 * 16 + y div 16) div 16 = x"
    "(x mod 4 * 16 + y div 16) mod 16 * 16 + (y mod 16 * 4 + z div 64) div 4 = y"
    "y mod 16 * 4 + z div 64 < 64" "(y mod 16 * 4 + z div 64) mod 4 * 64 + z mod 64 = z"
proof -
  have parts: "y div 16 < 16" "z div 64 < 4" using assms by (simp_all add: less_mult_imp_div_less)
  note y = unpack[OF parts(1), of "x mod 4"] and z = unpack[OF parts(2), of "y mod 16"]
  have "x mod 4 \<le> 3" "y mod 16 \<le> 15" by simp_all
  with parts show "x mod 4 * 16 + y div 16 < 64" "y mod 16 * 4 + z div 64 < 64" by linarith+
  show "x div 4 * 4 + (x mod 4 * 16 + y div 16) div 16 = x"
    "(x mod 4 * 16 + y div 16) mod 16 * 16 + (y mod 16 * 4 + z div 64) div 4 = y"
    "(y mod 16 * 4 + z div 64) mod 4 * 64 + z mod 64 = z"
    by (simp_all only: y z div_mult_mod_eq)
qed

lemma decode_encode_quads: "decode_quads (encode_base64 s) = Some s"
proof (induction s rule: encode_base64.induct)
  case (2 a)
  then show ?case
    using of_char_bound[of a] joined(2)[of "of_char a" 0 0] by (simp add: sextet_char_value Let_def less_mult_imp_div_less)
next
  case (3 a b)
  then show ?case
    using of_char_bound[of a] of_char_bound[of b] joined(1-4)[of "of_char a" "of_char b" 0]
    by (simp add: sextet_char_value Let_def less_mult_imp_div_less)
next
  case (4 a b c s)
  then show ?case
    using of_char_bound[of a] of_char_bound[of b] of_char_bound[of c] joined[of "of_char a" "of_char b" "of_char c"]
    by (simp add: sextet_char_value Let_def less_mult_imp_div_less)
qed simp

lemma encode_no_line_ends: "filter (\<lambda>c. c \<noteq> CHR 0x0A \<and> c \<noteq> CHR 0x0D) (encode_base64 s) = encode_base64 s"
proof (induction s rule: encode_base64.induct)
  case (2 a)
  then show ?case using of_char_bound[of a] by (simp add: sextet_char_value Let_def less_mult_imp_div_less)
next
  case (3 a b)
  then show ?case
    using of_char_bound[of a] of_char_bound[of b] joined(1,4)[of "of_char a" "of_char b" 0]
    by (simp add: sextet_char_value Let_def less_mult_imp_div_less)
next
  case (4 a b c s)
  then show ?case
    using of_char_bound[of a] of_char_bound[of b] of_char_bound[of c] joined(1,4)[of "of_char a" "of_char b" "of_char c"]
    by (simp add: sextet_char_value Let_def less_mult_imp_div_less)
qed simp

lemma decode_encode [simp]: "decode_base64 (encode_base64 s) = Some s"
  by (simp add: decode_base64_def encode_no_line_ends decode_encode_quads)

section \<open>Who is let in\<close>

lemma cut_first: "sep \<notin> set u \<Longrightarrow> cut sep (u @ sep # p) = Some (u, p)"
  by (induction u) auto

lemma cut_some: "cut sep s = Some (u, p) \<Longrightarrow> sep \<notin> set u \<and> s = u @ sep # p"
  by (induction s arbitrary: u) (auto split: if_splits)

lemma basic_prefix: "map lower_ascii (take 6 (''Basic '' @ s)) = ''basic ''"
proof -
  have "take 6 (''Basic '' @ s) = ''Basic ''" by simp
  moreover have "map lower_ascii ''Basic '' = ''basic ''" by code_simp
  ultimately show ?thesis by metis
qed

lemma not_challenge [simp]: "Passed x \<noteq> challenge" "challenge \<noteq> Passed x"
  by (simp_all add: challenge_def)

text \<open>C35: A request passes exactly with the configured name and password: what a browser sends for a name without
  a colon and any password is read back and compared, and only the configured pair reaches the handler; every other
  is answered with the challenge.\<close>

theorem configured_pair_passes:
  assumes "newBasicAuth c = Inr a" "CHR '':'' \<notin> set u"
  shows "require a (''Basic '' @ encode_base64 (u @ '':'' @ p)) answer
    = (if u = Username c \<and> p = Password c then Passed answer else challenge)"
proof -
  have "BasicAuth (''Basic '' @ encode_base64 (u @ '':'' @ p)) = Some (u, p)"
    unfolding BasicAuth_def basic_prefix using cut_first[OF assms(2), of p] by simp
  moreover have "a = \<lparr>username = Username c, password = Password c\<rparr>"
    using assms(1) by (simp add: newBasicAuth_def split: if_splits)
  ultimately show ?thesis by (simp add: require_def matches_def)
qed

theorem configured_pair_passes_witness:
  "require \<lparr>username = ''admin'', password = ''a:b''\<rparr> ''Basic YWRtaW46YTpi'' (1 :: int) = Passed 1
   \<and> require \<lparr>username = ''admin'', password = ''a:b''\<rparr> ''Basic YWRtaW46YQ=='' (1 :: int) = challenge"
proof -
  have a: "newBasicAuth \<lparr>Username = ''admin'', Password = ''a:b''\<rparr> = Inr \<lparr>username = ''admin'', password = ''a:b''\<rparr>"
    by (simp add: newBasicAuth_def)
  have sent: "encode_base64 (''admin'' @ '':'' @ ''a:b'') = ''YWRtaW46YTpi''"
    "encode_base64 (''admin'' @ '':'' @ ''a'') = ''YWRtaW46YQ==''"
    by code_simp+
  have "CHR '':'' \<notin> set ''admin''" by simp
  note pair = configured_pair_passes[OF a this, of _ "1 :: int"]
  show ?thesis using pair[of "''a:b''"] pair[of "''a''"] unfolding sent by simp
qed

text \<open>A name with a colon locks everyone out. \<open>newBasicAuth\<close> takes any name, but a name in a request ends
  at its first colon: with a colon in the configured name no request passes, whatever its header.\<close>

theorem colon_in_name_locks_out:
  assumes "newBasicAuth c = Inr a" "CHR '':'' \<in> set (Username c)"
  shows "require a header answer = challenge"
proof -
  have "username a = Username c" using assms(1) by (auto simp: newBasicAuth_def split: if_splits)
  then have "\<not> matches a u p" if "BasicAuth header = Some (u, p)" for u p
    using that assms(2) cut_some by (auto simp: BasicAuth_def matches_def bind_eq_Some_conv split: if_splits)
  then show ?thesis by (auto simp: require_def split: option.split)
qed

theorem colon_in_name_locks_out_witness:
  "newBasicAuth \<lparr>Username = ''a:b'', Password = ''c''\<rparr> = Inr \<lparr>username = ''a:b'', password = ''c''\<rparr>
   \<and> require \<lparr>username = ''a:b'', password = ''c''\<rparr> (''Basic '' @ encode_base64 ''a:b:c'') (1 :: int) = challenge"
proof -
  have a: "newBasicAuth \<lparr>Username = ''a:b'', Password = ''c''\<rparr> = Inr \<lparr>username = ''a:b'', password = ''c''\<rparr>"
    by (simp add: newBasicAuth_def)
  show ?thesis using a colon_in_name_locks_out[OF a] by simp
qed

end
