(* ===== verification/Http_Router.thy ===== *)
theory Http_Router
  imports Http_Mux Message_Api Message_Import Realtime_Hub Incident_Worker Basic_Auth
begin

text \<open>
  \<open>internal/api/router.go\<close> as a whole: \<open>NewRouter\<close> with its two multiplexers, authentication before all
  but the health check, \<open>withMethod\<close>, and the handlers that are not in other theories: the health of server and
  worker, the test event, the test notification and the static files. The state is what the handlers reach: the
  message files, the event streams and the incident worker with its service. What a request meets of the world is
  the argument \<open>web_world\<close>. An answer is the value that is written, with the status where it is not that of
  the value; headers other than \<open>Allow\<close>, \<open>WWW-Authenticate\<close>, \<open>Location\<close> and the \<open>no-store\<close> of a page,
  and the log, are left out.
\<close>

section \<open>Requests, answers and the state\<close>

text \<open>A request: its path as it was sent, the text after the question mark, the header \<open>Authorization\<close>
  (empty when there is none) and the body.\<close>

record request =
  meth :: string
  escaped :: string
  raw_query :: string
  authorization :: string
  payload :: import_body

record server =
  message_files :: FileStore
  event_streams :: live_server
  incident_worker :: Worker

text \<open>What opening and reading a name of a file system gives.\<close>

datatype opened = Not_there | Not_a_file | Not_readable | File_data string

record TestEventResult =
  Network :: string
  Address :: string
  Payload :: string

text \<open>The configuration. The optional parts are there or not; a test event is given what to send and settles to an
  error or a result.\<close>

record settings =
  Auth :: basicAuth
  BuildID :: string
  Frontend :: "string \<Rightarrow> opened"
  SwaggerUI :: "string \<Rightarrow> opened"
  OpenAPISpec :: string
  with_events :: bool
  with_test_event :: bool
  with_incidents :: bool
  with_worker :: bool

text \<open>What decoding the body of a test event gives: its message, the end of an empty body, or an error.\<close>

datatype test_request = Test_message string | Test_empty | Test_invalid

record web_world =
  time_parser :: "string \<Rightarrow> time option"
  texts :: text_library
  lines_codec :: codec
  path_of :: "Message \<Rightarrow> string"
  incident_order :: range_order
  jobs_order :: job_order
  importing :: import_library
  per_line :: "nat \<Rightarrow> line_world"
  decode_test :: "import_body \<Rightarrow> test_request"
  TestEvent :: "string \<Rightarrow> string + TestEventResult"
  notifier :: "Notification \<Rightarrow> delivery"
  test_named :: time
  wall_clock :: time

datatype response =
    Refused_with nat string string
  | Redirect nat string
  | No_page
  | Method_not_allowed string
  | Health_check string string
  | Listed_messages "messagesResponse reply"
  | Import_answer import_reply
  | Stream_started
  | Stream_refused nat
  | Test_sent TestEventResult string
  | Test_failed nat string
  | Listed_incidents "incidentsResponse reply"
  | One_incident "incidentResponse reply"
  | Worker_health "WorkerHealth option"
  | Notification_sent string string
  | Notification_failed nat string
  | Document string
  | Static_file string string bool
  | Static_unreadable

section \<open>Publishing\<close>

text \<open>\<open>multiPublisher\<close> of \<open>cmd/server/main.go\<close>: the event streams, then the worker.\<close>

definition publish_all :: "Message \<Rightarrow> server \<Rightarrow> server" where
  "publish_all m s =
     (let s = s\<lparr>event_streams := publish m (event_streams s)\<rparr>
      in s\<lparr>incident_worker := Incident_Worker.Publish m (incident_worker s)\<rparr>)"

definition append_published ::
  "web_world \<Rightarrow> line_world \<Rightarrow> Message \<Rightarrow> server \<Rightarrow> server \<times> store_error option" where
  "append_published W l m s =
     (case PublishingStore_Append (path_of W) (lines_codec W) (written l) (clock l) (inode l) m (message_files s) of
        ((st, err), to_publish) \<Rightarrow>
          let s = s\<lparr>message_files := st\<rparr>
          in (case to_publish of None \<Rightarrow> s | Some m \<Rightarrow> publish_all m s, err))"

section \<open>The handlers of the API\<close>

definition withMethod :: "string \<Rightarrow> (request \<Rightarrow> 's \<Rightarrow> 's \<times> response) \<Rightarrow> request \<Rightarrow> 's \<Rightarrow> 's \<times> response" where
  "withMethod m h r s = (if meth r \<noteq> m then (s, Method_not_allowed m) else h r s)"

definition service_of :: "settings \<Rightarrow> server \<Rightarrow> Service option" where
  "service_of c s = (if with_incidents c then Some (engine (incident_worker s)) else None)"

definition serve_messages :: "web_world \<Rightarrow> request \<Rightarrow> server \<Rightarrow> server \<times> response" where
  "serve_messages W r s =
     (let (st, a) = handleMessages (time_parser W) (texts W) (lines_codec W) (parse_query (raw_query r)) (message_files s)
      in (s\<lparr>message_files := st\<rparr>, Listed_messages a))"

definition serve_import :: "web_world \<Rightarrow> request \<Rightarrow> server \<Rightarrow> server \<times> response" where
  "serve_import W r s =
     (let (s, a) = handleImportMessages (importing W) (append_published W) (per_line W) (payload r) s
      in (s, Import_answer a))"

definition handleMessageStream :: "web_world \<Rightarrow> settings \<Rightarrow> request \<Rightarrow> server \<Rightarrow> server \<times> response" where
  "handleMessageStream W c r s =
     (let q = values_get (parse_query (raw_query r)) ''q''
      in if CompileTextFilter (texts W) q = None then (s, Stream_refused 400)
         else if \<not> with_events c then (s, Stream_refused 503)
         else (s\<lparr>event_streams := connect (texts W) q (event_streams s)\<rparr>, Stream_started))"

definition handleTestEvent :: "web_world \<Rightarrow> settings \<Rightarrow> request \<Rightarrow> server \<Rightarrow> server \<times> response" where
  "handleTestEvent W c r s =
     (if \<not> with_test_event c then (s, Test_failed 503 ''test event sender is not configured'')
      else (case (if arrived (payload r) = [] \<and> \<not> cut_off (payload r) then Test_empty
                  else decode_test W (payload r)) of
              Test_invalid \<Rightarrow> (s, Test_failed 400 ''invalid test event request'')
            | decoded \<Rightarrow>
                let message = go_trim (case decoded of Test_message t \<Rightarrow> t | _ \<Rightarrow> [])
                in case TestEvent W message of
                     Inl e \<Rightarrow> (s, Test_failed 502 e)
                   | Inr sent \<Rightarrow> (s, Test_sent sent message)))"

definition handleIncidentHealth :: "web_world \<Rightarrow> settings \<Rightarrow> request \<Rightarrow> server \<Rightarrow> server \<times> response" where
  "handleIncidentHealth W c r s =
     (s, Worker_health (if with_worker c then Some (Health (jobs_order W) (wall_clock W) (incident_worker s)) else None))"

text \<open>An error of the notifier that is no \<open>SendError\<close> is not shown.\<close>

definition handleTestNotification :: "web_world \<Rightarrow> settings \<Rightarrow> request \<Rightarrow> server \<Rightarrow> server \<times> response" where
  "handleTestNotification W c r s =
     (if \<not> with_worker c then (s, Notification_failed 503 ''notification delivery unavailable'')
      else (case SendTest (test_named W) (wall_clock W) (notifier W) (incident_worker s) of
              None \<Rightarrow> (s, Notification_failed 503 ''notification adapter is not configured'')
            | Some (Delivered adapter external) \<Rightarrow> (s, Notification_sent adapter external)
            | Some (NotDelivered what (Some e)) \<Rightarrow> (s, Notification_failed 502 what)
            | Some (NotDelivered what None) \<Rightarrow> (s, Notification_failed 502 ''send test notification'')))"

section \<open>Static files\<close>

definition serveStaticFile :: "(string \<Rightarrow> opened) \<Rightarrow> string \<Rightarrow> bool \<Rightarrow> response option" where
  "serveStaticFile fs name noStoreIndex =
     (case fs name of
        Not_there \<Rightarrow> None
      | Not_a_file \<Rightarrow> None
      | Not_readable \<Rightarrow> Some Static_unreadable
      | File_data d \<Rightarrow> Some (Static_file name d (noStoreIndex \<and> name = ''index.html'')))"

definition without_prefix :: "string \<Rightarrow> string \<Rightarrow> string" where
  "without_prefix p s = (if prefix p s then drop (length p) s else s)"

definition file_name :: "string \<Rightarrow> string" where
  "file_name p =
     (let name = without_prefix ''/'' (path_clean p) in if name = ''.'' \<or> name = [] then ''index.html'' else name)"

definition readable_only :: "(request \<Rightarrow> response) \<Rightarrow> request \<Rightarrow> response" where
  "readable_only h r = (if meth r \<noteq> ''GET'' \<and> meth r \<noteq> ''HEAD'' then Method_not_allowed ''GET, HEAD'' else h r)"

definition url_path :: "request \<Rightarrow> string" where
  "url_path r = pathUnescape (escaped r)"

definition handleSwaggerUIRedirect :: "request \<Rightarrow> response" where
  "handleSwaggerUIRedirect = readable_only (\<lambda>r. Redirect 301 ''/swagger-ui/'')"

definition handleSwaggerUI :: "settings \<Rightarrow> request \<Rightarrow> response" where
  "handleSwaggerUI c =
     readable_only (\<lambda>r.
       case serveStaticFile (SwaggerUI c) (file_name (without_prefix ''/swagger-ui/'' (url_path r))) False of
         None \<Rightarrow> No_page | Some a \<Rightarrow> a)"

text \<open>What is not a file is the page; without a page there is an empty answer.\<close>

definition handleFrontend :: "settings \<Rightarrow> request \<Rightarrow> response" where
  "handleFrontend c =
     readable_only (\<lambda>r.
       case serveStaticFile (Frontend c) (file_name (url_path r)) True of
         Some a \<Rightarrow> a
       | None \<Rightarrow> (case serveStaticFile (Frontend c) ''index.html'' True of Some a \<Rightarrow> a | None \<Rightarrow> Document []))"

section \<open>Routing\<close>

datatype api_endpoint =
    To_messages | To_import | To_stream | To_test_event | To_incidents | To_incident_health | To_incident
  | To_test_notification

datatype endpoint = To_healthcheck | To_openapi | To_swagger_redirect | To_swagger | To_api | To_frontend

definition apiMux :: "(api_endpoint \<times> pattern) list" where
  "apiMux =
     map (map_prod id pattern_of)
       [(To_messages, ''/api/v1/messages''), (To_import, ''/api/v1/messages/import''),
        (To_stream, ''/api/v1/messages/stream''), (To_test_event, ''/api/v1/test-event''),
        (To_incidents, ''/api/v1/incidents''), (To_incident_health, ''/api/v1/incidents/health''),
        (To_incident, ''/api/v1/incidents/''), (To_test_notification, ''/api/v1/notifications/test'')]"

definition outerMux :: "(endpoint \<times> pattern) list" where
  "outerMux =
     map (map_prod id pattern_of)
       [(To_healthcheck, ''/healthcheck''), (To_openapi, ''/swagger.json''), (To_swagger_redirect, ''/swagger-ui''),
        (To_swagger, ''/swagger-ui/''), (To_api, ''/api/v1/''), (To_frontend, ''/'')]"

fun serve_endpoint :: "web_world \<Rightarrow> settings \<Rightarrow> api_endpoint \<Rightarrow> request \<Rightarrow> server \<Rightarrow> server \<times> response" where
  "serve_endpoint W c To_messages r s = withMethod ''GET'' (serve_messages W) r s"
| "serve_endpoint W c To_import r s = withMethod ''POST'' (serve_import W) r s"
| "serve_endpoint W c To_stream r s = withMethod ''GET'' (handleMessageStream W c) r s"
| "serve_endpoint W c To_test_event r s = withMethod ''POST'' (handleTestEvent W c) r s"
| "serve_endpoint W c To_incidents r s =
     withMethod ''GET'' (\<lambda>r s. (s, Listed_incidents
       (handleIncidents (incident_order W) (jobs_order W) (parse_query (raw_query r)) (service_of c s)))) r s"
| "serve_endpoint W c To_incident_health r s = withMethod ''GET'' (handleIncidentHealth W c) r s"
| "serve_endpoint W c To_incident r s =
     withMethod ''GET'' (\<lambda>r s. (s, One_incident (handleIncident (jobs_order W) (url_path r) (service_of c s)))) r s"
| "serve_endpoint W c To_test_notification r s = withMethod ''POST'' (handleTestNotification W c) r s"

definition routed_to :: "'h routed \<Rightarrow> ('h \<Rightarrow> 's \<Rightarrow> 's \<times> response) \<Rightarrow> 's \<Rightarrow> 's \<times> response" where
  "routed_to to h s = (case to of Moved p \<Rightarrow> (s, Redirect 301 p) | Nowhere \<Rightarrow> (s, No_page) | To e \<Rightarrow> h e s)"

definition serve_api :: "web_world \<Rightarrow> settings \<Rightarrow> request \<Rightarrow> server \<Rightarrow> server \<times> response" where
  "serve_api W c r = routed_to (findHandler apiMux (meth r) (escaped r)) (\<lambda>e. serve_endpoint W c e r)"

fun serve_signed_in :: "web_world \<Rightarrow> settings \<Rightarrow> endpoint \<Rightarrow> request \<Rightarrow> server \<Rightarrow> server \<times> response" where
  "serve_signed_in W c To_openapi r s = withMethod ''GET'' (\<lambda>r s. (s, Document (OpenAPISpec c))) r s"
| "serve_signed_in W c To_swagger_redirect r s = (s, handleSwaggerUIRedirect r)"
| "serve_signed_in W c To_swagger r s = (s, handleSwaggerUI c r)"
| "serve_signed_in W c To_api r s = serve_api W c r s"
| "serve_signed_in W c To_frontend r s = (s, handleFrontend c r)"
| "serve_signed_in W c To_healthcheck r s = withMethod ''GET'' (\<lambda>r s. (s, Health_check ''ok'' (BuildID c))) r s"

text \<open>The health check is the one handler that is not wrapped.\<close>

definition ServeHTTP :: "web_world \<Rightarrow> settings \<Rightarrow> request \<Rightarrow> server \<Rightarrow> server \<times> response" where
  "ServeHTTP W c r =
     routed_to (findHandler outerMux (meth r) (escaped r))
       (\<lambda>e s. if e = To_healthcheck then serve_signed_in W c e r s
              else (case require (Auth c) (authorization r) (serve_signed_in W c e r s) of
                      Unauthorized n header error \<Rightarrow> (s, Refused_with n header error)
                    | Passed answer \<Rightarrow> answer))"

section \<open>Making the router\<close>

text \<open>The store is always there; the optional parts of the configuration are there or not.\<close>

datatype router_error = No_frontend | No_swagger | No_spec | No_credentials auth_error

record router_config =
  frontend_files :: "(string \<Rightarrow> opened) option"
  swagger_files :: "(string \<Rightarrow> opened) option"
  spec_bytes :: string
  sign_in :: Credentials
  build :: string

definition NewRouter :: "bool \<Rightarrow> bool \<Rightarrow> bool \<Rightarrow> bool \<Rightarrow> router_config \<Rightarrow> router_error + settings" where
  "NewRouter events testing incidents working c =
     (case frontend_files c of
        None \<Rightarrow> Inl No_frontend
      | Some front \<Rightarrow>
          (case swagger_files c of
             None \<Rightarrow> Inl No_swagger
           | Some swagger \<Rightarrow>
               if spec_bytes c = [] then Inl No_spec
               else (case newBasicAuth (sign_in c) of
                       Inl e \<Rightarrow> Inl (No_credentials e)
                     | Inr a \<Rightarrow>
                         Inr \<lparr>Auth = a, BuildID = build c, Frontend = front, SwaggerUI = swagger,
                              OpenAPISpec = spec_bytes c, with_events = events, with_test_event = testing,
                              with_incidents = incidents, with_worker = working\<rparr>)))"

end
