(* ===== verification/Router_Properties.thy ===== *)
theory Router_Properties
  imports Http_Router Api_Properties
begin

text \<open>
  What the router makes of a request: what it tells one that does not know the password, and which handler a
  request of the page reaches.
\<close>

section \<open>Strangers\<close>

lemma only_healthcheck_unguarded:
  assumes "findHandler outerMux m p = To To_healthcheck"
  shows "segments p = [''healthcheck'']"
proof -
  have "n = \<lparr>literals = [''healthcheck''], subtree = False\<rparr>" if "(To_healthcheck, n) \<in> set outerMux" for n
    using that by (simp add: outerMux_def) (simp add: pattern_of_def)
  with findHandler_fits[OF assms] show ?thesis by (fastforce simp: fits_def)
qed

text \<open>C10: One that does not know the password learns nothing and changes nothing. A request without the
  configured name and password is answered alike whatever the server holds and whatever it serves, and leaves it as
  it is: with the challenge, with a redirection to the clean form of its path, or, at the address of the health check
  only, with the build or a refusal of the method.\<close>

theorem strangers_learn_nothing:
  assumes "require (Auth c) (authorization r) () = challenge"
  shows "\<exists>a. (\<forall>W c' s. Auth c' = Auth c \<and> BuildID c' = BuildID c \<longrightarrow> ServeHTTP W c' r s = (s, a))
    \<and> (a = Refused_with 401 (''Basic realm='' @ [CHR 0x22] @ ''logthing'' @ [CHR 0x22] @ '', charset='' @ [CHR 0x22] @ ''UTF-8'' @ [CHR 0x22])
             ''authentication required''
       \<or> (\<exists>p. a = Redirect 301 p) \<or> a = No_page
       \<or> segments (escaped r) = [''healthcheck''] \<and> a \<in> {Health_check ''ok'' (BuildID c), Method_not_allowed ''GET''})"
proof -
  have barred: "require (Auth c) (authorization r) x = challenge" for x :: "server \<times> Http_Router.response"
    using assms by (auto simp: require_def split: option.splits if_splits)
  show ?thesis
  proof (cases "findHandler outerMux (meth r) (escaped r)")
    case (To e)
    show ?thesis
    proof (cases "e = To_healthcheck")
      case True
      then show ?thesis
        using To only_healthcheck_unguarded[of "meth r" "escaped r"] by (auto simp: ServeHTTP_def routed_to_def withMethod_def)
    next
      case False
      then show ?thesis using To barred by (auto simp: ServeHTTP_def routed_to_def challenge_def)
    qed
  qed (auto simp: ServeHTTP_def routed_to_def)
qed


definition sample_settings :: settings where
  "sample_settings =
     \<lparr>Auth = \<lparr>username = ''admin'', password = ''a:b''\<rparr>, BuildID = ''7'',
      Frontend = \<lambda>n. if n = ''index.html'' then File_data ''page'' else if n = ''assets'' then Not_a_file else Not_there,
      SwaggerUI = \<lambda>n. Not_there, OpenAPISpec = ''{}'', with_events = True, with_test_event = False,
      with_incidents = True, with_worker = True\<rparr>"

definition asking :: "string \<Rightarrow> string \<Rightarrow> request" where
  "asking header p =
     \<lparr>meth = ''GET'', escaped = p, raw_query = [], authorization = header, payload = \<lparr>arrived = [], cut_off = False\<rparr>\<rparr>"

theorem strangers_learn_nothing_witness:
  "\<exists>a. (\<forall>W s. ServeHTTP W sample_settings (asking ''Basic YWRtaW46YQ=='' ''/api/v1/messages'') s = (s, a))
     \<and> a \<noteq> Health_check ''ok'' ''7''"
proof -
  let ?r = "asking ''Basic YWRtaW46YQ=='' ''/api/v1/messages''"
  have "require (Auth sample_settings) (authorization ?r) () = challenge" by code_simp
  from strangers_learn_nothing[OF this] obtain a where
    "\<forall>W s. ServeHTTP W sample_settings ?r s = (s, a)"
    "segments (escaped ?r) = [''healthcheck''] \<or> a \<noteq> Health_check ''ok'' ''7''"
    by auto
  moreover have "segments (escaped ?r) \<noteq> [''healthcheck'']" by code_simp
  ultimately show ?thesis by blast
qed

section \<open>The page's requests\<close>

text \<open>How a request of the client functions arrives: the browser adds the header with the credentials.\<close>

definition arrives :: "string \<Rightarrow> http_request \<Rightarrow> request" where
  "arrives header q =
     \<lparr>meth = http_method q, escaped = takeWhile (\<lambda>c. c \<noteq> CHR ''?'') (url q),
      raw_query = drop 1 (dropWhile (\<lambda>c. c \<noteq> CHR ''?'') (url q)), authorization = header,
      payload = \<lparr>arrived = (case body q of NoBody \<Rightarrow> [] | TextBody t \<Rightarrow> t | FileBody t \<Rightarrow> t), cut_off = False\<rparr>\<rparr>"

lemma arrives_at [simp]:
  assumes "CHR ''?'' \<notin> set p"
  shows "takeWhile (\<lambda>c. c \<noteq> CHR ''?'') (p @ ''?'' @ t) = p" "drop 1 (dropWhile (\<lambda>c. c \<noteq> CHR ''?'') (p @ ''?'' @ t)) = t"
proof -
  have "\<forall>c \<in> set p. c \<noteq> CHR ''?''" using assms by auto
  then show "takeWhile (\<lambda>c. c \<noteq> CHR ''?'') (p @ ''?'' @ t) = p" "drop 1 (dropWhile (\<lambda>c. c \<noteq> CHR ''?'') (p @ ''?'' @ t)) = t"
    by (simp_all add: takeWhile_append dropWhile_append)
qed

lemma served:
  assumes "require (Auth c) (authorization r) () = Passed ()" "findHandler outerMux (meth r) (escaped r) = To e"
  shows "ServeHTTP W c r s = serve_signed_in W c e r s"
proof -
  have "require (Auth c) (authorization r) x = Passed x" for x :: "server \<times> Http_Router.response"
    using assms(1) by (auto simp: require_def challenge_def split: option.splits if_splits)
  then show ?thesis using assms(2) by (simp add: ServeHTTP_def routed_to_def)
qed

lemma served_api:
  assumes "require (Auth c) (authorization r) () = Passed ()"
    and "findHandler outerMux (meth r) (escaped r) = To To_api" "findHandler apiMux (meth r) (escaped r) = To e"
  shows "ServeHTTP W c r s = serve_endpoint W c e r s"
  using served[OF assms(1,2)] assms(3) by (simp add: serve_api_def routed_to_def)

lemma api_paths:
  "findHandler outerMux ''GET'' ''/api/v1/messages'' = To To_api" "findHandler apiMux ''GET'' ''/api/v1/messages'' = To To_messages"
  "findHandler outerMux ''GET'' ''/api/v1/messages/stream'' = To To_api" "findHandler apiMux ''GET'' ''/api/v1/messages/stream'' = To To_stream"
  "findHandler outerMux ''POST'' ''/api/v1/messages/import'' = To To_api" "findHandler apiMux ''POST'' ''/api/v1/messages/import'' = To To_import"
  "findHandler outerMux ''POST'' ''/api/v1/test-event'' = To To_api" "findHandler apiMux ''POST'' ''/api/v1/test-event'' = To To_test_event"
  "findHandler outerMux ''GET'' ''/api/v1/incidents'' = To To_api" "findHandler apiMux ''GET'' ''/api/v1/incidents'' = To To_incidents"
  "findHandler outerMux ''GET'' ''/api/v1/incidents/health'' = To To_api" "findHandler apiMux ''GET'' ''/api/v1/incidents/health'' = To To_incident_health"
  "findHandler outerMux ''POST'' ''/api/v1/notifications/test'' = To To_api"
  "findHandler apiMux ''POST'' ''/api/v1/notifications/test'' = To To_test_notification"
  "findHandler outerMux ''GET'' ''/healthcheck'' = To To_healthcheck"
  by code_simp+


text \<open>The browser opens an event source by a request for its address.\<close>

definition openMessageStream_request :: "string \<Rightarrow> http_request" where
  "openMessageStream_request q =
     \<lparr>http_method = ''GET'', url = openMessageStream_url q, content_type = None, body = NoBody,
      credentials = ''same-origin''\<rparr>"

lemmas client_requests =
  listMessages_request_def importMessages_request_def listIncidents_request_def getIncidentHealth_request_def
  sendTestEvent_request_def sendTestNotification_request_def fetchBuildID_request_def openMessageStream_request_def
  openMessageStream_url_def

lemma arrives_fields [simp]:
  "meth (arrives h q) = http_method q" "authorization (arrives h q) = h"
  "payload (arrives h q) = \<lparr>arrived = (case body q of NoBody \<Rightarrow> [] | TextBody t \<Rightarrow> t | FileBody t \<Rightarrow> t), cut_off = False\<rparr>"
  by (simp_all add: arrives_def)

lemma api_answers_query:
  assumes "require (Auth c) h () = Passed ()" "url q = p @ ''?'' @ serialize vs" "CHR ''?'' \<notin> set p"
    and "findHandler outerMux (http_method q) p = To To_api" "findHandler apiMux (http_method q) p = To e"
  shows "ServeHTTP W c (arrives h q) s = serve_endpoint W c e (arrives h q) s \<and> parse_query (raw_query (arrives h q)) = vs"
proof
  have at: "escaped (arrives h q) = p" "raw_query (arrives h q) = serialize vs"
    using arrives_at[OF assms(3), of "serialize vs"] by (simp_all add: arrives_def assms(2))
  then show "parse_query (raw_query (arrives h q)) = vs" by simp
  show "ServeHTTP W c (arrives h q) s = serve_endpoint W c e (arrives h q) s"
    using served_api[of c "arrives h q" e] assms(1,4,5) at(1) by simp
qed

lemma api_answers_plain:
  assumes "require (Auth c) h () = Passed ()" "CHR ''?'' \<notin> set (url q)"
    and "findHandler outerMux (http_method q) (url q) = To To_api" "findHandler apiMux (http_method q) (url q) = To e"
  shows "ServeHTTP W c (arrives h q) s = serve_endpoint W c e (arrives h q) s"
proof -
  have "\<forall>c \<in> set (url q). c \<noteq> CHR ''?''" using assms(2) by auto
  then have "escaped (arrives h q) = url q" by (simp add: arrives_def)
  then show ?thesis using served_api[of c "arrives h q" e] assms(1,3,4) by simp
qed

text \<open>C17: Every request the page makes reaches the handler it is meant for, by an allowed method and with what the
  page put into it. Signed in, the server answers \<open>listMessages\<close>, \<open>listIncidents\<close> and the event stream from the
  parameters of their address, \<open>importMessages\<close> from the file, and the test event, the health of the worker, the
  test notification and the build as their handlers do.\<close>

theorem page_requests_reach_their_handlers:
  assumes "require (Auth c) h () = Passed ()"
  shows "ServeHTTP W c (arrives h (listMessages_request p)) s =
      (let (st, a) = handleMessages (time_parser W) (texts W) (lines_codec W) (listMessages_query p) (message_files s)
       in (s\<lparr>message_files := st\<rparr>, Listed_messages a))
    \<and> ServeHTTP W c (arrives h (importMessages_request f)) s =
      (let (s, a) = handleImportMessages (importing W) (append_published W) (per_line W)
                      \<lparr>arrived = contents f, cut_off = False\<rparr> s in (s, Import_answer a))
    \<and> ServeHTTP W c (arrives h (listIncidents_request st)) s =
      (s, Listed_incidents (handleIncidents (incident_order W) (jobs_order W)
            [(''state'', filter_text st), (''limit'', ''100'')] (service_of c s)))
    \<and> ServeHTTP W c (arrives h getIncidentHealth_request) s =
      (s, Worker_health (if with_worker c then Some (Health (jobs_order W) (wall_clock W) (incident_worker s)) else None))
    \<and> ServeHTTP W c (arrives h (sendTestEvent_request now)) s =
      handleTestEvent W c (arrives h (sendTestEvent_request now)) s
    \<and> ServeHTTP W c (arrives h sendTestNotification_request) s =
      handleTestNotification W c (arrives h sendTestNotification_request) s
    \<and> ServeHTTP W c (arrives h (openMessageStream_request q)) s =
      (if CompileTextFilter (texts W) q = None then (s, Stream_refused 400)
       else if \<not> with_events c then (s, Stream_refused 503)
       else (s\<lparr>event_streams := connect (texts W) q (event_streams s)\<rparr>, Stream_started))
    \<and> ServeHTTP W c (arrives h' fetchBuildID_request) s = (s, Health_check ''ok'' (BuildID c))"
proof (intro conjI)
  note paths = api_paths
  have q: "CHR ''?'' \<notin> set ''/api/v1/messages''" "CHR ''?'' \<notin> set ''/api/v1/messages/stream''"
    "CHR ''?'' \<notin> set ''/api/v1/incidents''" by simp_all
  have m: "http_method (listMessages_request p) = ''GET''" "http_method (listIncidents_request st) = ''GET''"
    "http_method (openMessageStream_request q) = ''GET''" by (simp_all add: client_requests)
  have u: "url (listMessages_request p) = ''/api/v1/messages'' @ ''?'' @ serialize (listMessages_query p)"
    "url (listIncidents_request st) = ''/api/v1/incidents'' @ ''?'' @ serialize [(''state'', filter_text st), (''limit'', ''100'')]"
    "url (openMessageStream_request q) = ''/api/v1/messages/stream'' @ ''?'' @ serialize [(''q'', q)]"
    by (simp_all add: client_requests)
  show "ServeHTTP W c (arrives h (listMessages_request p)) s =
      (let (st, a) = handleMessages (time_parser W) (texts W) (lines_codec W) (listMessages_query p) (message_files s)
       in (s\<lparr>message_files := st\<rparr>, Listed_messages a))"
    using api_answers_query[OF assms u(1) q(1), of To_messages W s] paths(1,2) by (simp add: m withMethod_def serve_messages_def)
  show "ServeHTTP W c (arrives h (listIncidents_request st)) s =
      (s, Listed_incidents (handleIncidents (incident_order W) (jobs_order W)
            [(''state'', filter_text st), (''limit'', ''100'')] (service_of c s)))"
    using api_answers_query[OF assms u(2) q(3), of To_incidents W s] paths(9,10) by (simp add: m withMethod_def)
  show "ServeHTTP W c (arrives h (openMessageStream_request q)) s =
      (if CompileTextFilter (texts W) q = None then (s, Stream_refused 400)
       else if \<not> with_events c then (s, Stream_refused 503)
       else (s\<lparr>event_streams := connect (texts W) q (event_streams s)\<rparr>, Stream_started))"
    using api_answers_query[OF assms u(3) q(2), of To_stream W s] paths(3,4)
    by (simp add: m withMethod_def handleMessageStream_def values_get_def)
  show "ServeHTTP W c (arrives h (importMessages_request f)) s =
      (let (s, a) = handleImportMessages (importing W) (append_published W) (per_line W)
                      \<lparr>arrived = contents f, cut_off = False\<rparr> s in (s, Import_answer a))"
    using api_answers_plain[OF assms, of "importMessages_request f" To_import W s] paths(5,6)
    by (simp add: client_requests withMethod_def serve_import_def)
  show "ServeHTTP W c (arrives h getIncidentHealth_request) s =
      (s, Worker_health (if with_worker c then Some (Health (jobs_order W) (wall_clock W) (incident_worker s)) else None))"
    using api_answers_plain[OF assms, of getIncidentHealth_request To_incident_health W s] paths(11,12)
    by (simp add: client_requests withMethod_def handleIncidentHealth_def)
  show "ServeHTTP W c (arrives h (sendTestEvent_request now)) s =
      handleTestEvent W c (arrives h (sendTestEvent_request now)) s"
    using api_answers_plain[OF assms, of "sendTestEvent_request now" To_test_event W s] paths(7,8)
    by (simp add: client_requests withMethod_def)
  show "ServeHTTP W c (arrives h sendTestNotification_request) s =
      handleTestNotification W c (arrives h sendTestNotification_request) s"
    using api_answers_plain[OF assms, of sendTestNotification_request To_test_notification W s] paths(13,14)
    by (simp add: client_requests withMethod_def)
  show "ServeHTTP W c (arrives h' fetchBuildID_request) s = (s, Health_check ''ok'' (BuildID c))"
    using paths(15) by (simp add: arrives_def client_requests ServeHTTP_def routed_to_def withMethod_def)
qed


theorem page_requests_reach_their_handlers_witness:
  "\<forall>W s. ServeHTTP W sample_settings (arrives ''Basic YWRtaW46YTpi'' getIncidentHealth_request) s =
       (s, Worker_health (Some (Health (jobs_order W) (wall_clock W) (incident_worker s))))
     \<and> ServeHTTP W sample_settings (arrives [] fetchBuildID_request) s = (s, Health_check ''ok'' ''7'')"
proof -
  have "require (Auth sample_settings) ''Basic YWRtaW46YTpi'' () = Passed ()" by code_simp
  from page_requests_reach_their_handlers[OF this, where h' = "[]"] show ?thesis
    by (simp add: sample_settings_def)
qed

section \<open>The files of the page\<close>

text \<open>\<open>fs.ValidPath\<close>: no part of the name is empty, the directory itself or the one above.\<close>

definition valid_name :: "string \<Rightarrow> bool" where
  "valid_name n \<longleftrightarrow> list_all (\<lambda>s. s \<notin> {[], ''.'', ''..''}) (split_on CHR ''/'' n)"

lemma join_empty: "list_all (\<lambda>s. s \<noteq> []) ss \<Longrightarrow> join sep ss = [] \<longleftrightarrow> ss = []"
  by (induction sep ss rule: join.induct) auto

lemma rooted_name_valid:
  assumes "prefix ''/'' p"
  shows "valid_name (file_name p)"
proof -
  define ss where "ss = clean_segments True [] (split_on CHR ''/'' p)"
  have good: "list_all (\<lambda>s. s \<notin> {[], ''.'', ''..''} \<and> CHR ''/'' \<notin> set s) ss"
    unfolding ss_def using split_on_pieces[of "CHR ''/''" p] by (intro clean_segments_all) (auto simp: list_all_iff)
  have name: "file_name p = (if join ''/'' ss = ''.'' \<or> join ''/'' ss = [] then ''index.html'' else join ''/'' ss)"
    using assms by (simp add: file_name_def path_clean_def without_prefix_def ss_def Let_def)
  have "valid_name ''index.html''" by code_simp
  moreover have "valid_name (join ''/'' ss)" if "join ''/'' ss \<noteq> []"
  proof -
    have "ss \<noteq> []" using that by auto
    then have "split_on CHR ''/'' (join ''/'' ss) = ss"
      using good by (intro split_on_join) (auto simp: list_all_iff)
    then show ?thesis using good by (simp add: valid_name_def list_all_iff)
  qed
  ultimately show ?thesis by (simp add: name)
qed

text \<open>The page is served at every address, and nothing but its files. A signed-in request to read an address that
  has no other handler is answered with a file of the page whose name leads nowhere above its directory: the one that
  the clean path names when there is one, and the page itself otherwise, which is not to be kept by caches.\<close>

theorem page_is_served_everywhere:
  assumes "prefix ''/'' (url_path r)" "meth r = ''GET'' \<or> meth r = ''HEAD''" "Frontend c ''index.html'' = File_data page"
    and "require (Auth c) (authorization r) () = Passed ()" "findHandler outerMux (meth r) (escaped r) = To To_frontend"
  shows "\<exists>n. valid_name n
    \<and> ServeHTTP W c r s = (s, case Frontend c n of File_data d \<Rightarrow> Static_file n d (n = ''index.html'') | _ \<Rightarrow> Static_unreadable)
    \<and> n = (if Frontend c (file_name (url_path r)) \<in> {Not_there, Not_a_file} then ''index.html'' else file_name (url_path r))"
proof -
  have "valid_name (file_name (url_path r))" by (rule rooted_name_valid[OF assms(1)])
  moreover have "valid_name ''index.html''" by code_simp
  ultimately show ?thesis
    using assms(2,3) served[OF assms(4,5)]
    by (auto simp: handleFrontend_def readable_only_def serveStaticFile_def split: opened.splits)
qed

theorem page_is_served_everywhere_witness:
  "\<forall>W s. ServeHTTP W sample_settings (asking ''Basic YWRtaW46YTpi'' ''/assets/%2e%2e/incidents'') s
     = (s, Static_file ''index.html'' ''page'' True)"
proof (intro allI)
  fix W s
  let ?r = "asking ''Basic YWRtaW46YTpi'' ''/assets/%2e%2e/incidents''"
  have "prefix ''/'' (url_path ?r)" "file_name (url_path ?r) = ''incidents''"
    "require (Auth sample_settings) (authorization ?r) () = Passed ()"
    "findHandler outerMux (meth ?r) (escaped ?r) = To To_frontend"
    by code_simp+
  then show "ServeHTTP W sample_settings ?r s = (s, Static_file ''index.html'' ''page'' True)"
    using page_is_served_everywhere[of ?r sample_settings "''page''" W s]
    by (auto simp: sample_settings_def asking_def)
qed

end
