(* ===== verification/Discord_Notifier.thy ===== *)
theory Discord_Notifier
  imports Worker_Delivery Message_Path
begin

text \<open>
  \<open>internal/notification/discord.go\<close>: the notifier that posts to a Discord webhook. Its text, cut to what
  Discord takes, the address it posts to, what it makes of an answer, and what it lets out about an address that is
  a secret. Of the library, the reading of a URL and of a floating-point number, the double arithmetic, the JSON of
  an answer and the network are parameters; encoding a map of strings as JSON does not fail.
\<close>

section \<open>Text\<close>

text \<open>The runes of a text, each as its UTF-8 bytes; a byte that is part of none is U+FFFD.\<close>

function runes :: "string \<Rightarrow> string list" where
  "runes [] = []"
| "runes (c # s) =
     (let n = rune_length (c # s)
      in (if n = 1 \<and> 128 \<le> (of_char c :: nat) then [CHR 0xEF, CHR 0xBF, CHR 0xBD] else take n (c # s))
         # runes (drop n (c # s)))"
  by pat_completeness auto

termination
  by (relation "measure length") (use rune_length_pos in \<open>auto simp: gr0_conv_Suc\<close>)

definition ellipsis :: string where
  "ellipsis = [CHR 0xE2, CHR 0x80, CHR 0xA6]"

definition truncateRunes :: "string \<Rightarrow> nat \<Rightarrow> string" where
  "truncateRunes s n =
     (let rs = runes s in if length rs \<le> n then s else concat (take (n - 1) rs) @ ellipsis)"

definition discordContentLimit :: nat where
  "discordContentLimit = 2000"

definition discord_text :: "Notification \<Rightarrow> string" where
  "discord_text m =
     (let content = go_trim (Title m); text = go_trim (Body m);
          content = (if text = [] then content else (if content = [] then [] else content @ [CHR 0x0A]) @ text);
          link = go_trim (Link m)
      in if link = [] then content else content @ [CHR 0x0A] @ link)"

definition discord_content :: "Notification \<Rightarrow> string" where
  "discord_content m = truncateRunes (discord_text m) discordContentLimit"

section \<open>The webhook\<close>

text \<open>A parsed URL: what its methods give.\<close>

record webhook_url =
  Scheme :: string
  Host :: string
  Path :: string
  EscapedPath :: string
  RawQuery :: string
  Whole :: string

record DiscordNotifier =
  webhook :: webhook_url
  timeout :: int

datatype discord_error = Webhook_invalid | Webhook_not_https

definition newDiscord ::
  "(string \<Rightarrow> webhook_url option) \<Rightarrow> string \<Rightarrow> int \<Rightarrow> discord_error + DiscordNotifier" where
  "newDiscord parse_url webhookURL wait =
     (case parse_url (go_trim webhookURL) of
        None \<Rightarrow> Inl Webhook_invalid
      | Some u \<Rightarrow>
          if Scheme u = [] \<or> Host u = [] then Inl Webhook_invalid
          else if Scheme u \<noteq> ''https'' then Inl Webhook_not_https
          else Inr \<lparr>webhook = u, timeout = (if wait \<le> 0 then 5 * 1000000000 else wait)\<rparr>)"

text \<open>\<open>url.QueryEscape\<close> and \<open>Values.Encode\<close>, which sorts by the names.\<close>

definition query_safe :: "char \<Rightarrow> bool" where
  "query_safe c \<longleftrightarrow>
     between CHR ''a'' CHR ''z'' c \<or> between CHR ''A'' CHR ''Z'' c \<or> between CHR ''0'' CHR ''9'' c \<or> c \<in> set ''-_.~''"

definition QueryEscape :: "string \<Rightarrow> string" where
  "QueryEscape s =
     concat (map (\<lambda>c. if c = CHR '' '' then ''+'' else if query_safe c then [c]
                       else [CHR 0x25, hex_char (of_char c div 16), hex_char (of_char c mod 16)]) s)"

definition endpoint_query :: "webhook_url \<Rightarrow> string" where
  "endpoint_query u =
     (let vs = filter (\<lambda>(k, v). k \<noteq> ''wait'') (parse_query (RawQuery u)) @ [(''wait'', ''true'')]
      in join ''&'' (map (\<lambda>(k, v). QueryEscape k @ ''='' @ QueryEscape v) (sort_key fst vs)))"

section \<open>Answers\<close>

datatype double_value = Finite rat | Plus_infinity | Minus_infinity | Not_a_number

text \<open>A conversion of a double that an integer of 64 bits cannot hold gives what the processor gives.\<close>

record float_unit =
  parse_float :: "string \<Rightarrow> double_value option"
  rounded :: "rat \<Rightarrow> rat"
  out_of_range :: int

definition retryAfter :: "float_unit \<Rightarrow> string \<Rightarrow> int" where
  "retryAfter u text =
     (case parse_float u (go_trim text) of
        None \<Rightarrow> 0
      | Some Minus_infinity \<Rightarrow> 0
      | Some (Finite x) \<Rightarrow>
          if x \<le> 0 then 0
          else let y = rounded u (x * 1000000000) in if y < 2 ^ 63 then \<lfloor>y\<rfloor> else out_of_range u
      | Some _ \<Rightarrow> out_of_range u)"

datatype transport_failure = Timed_out | Request_canceled | Other_failure string

text \<open>An answer is its status, the headers \<open>Retry-After\<close> and \<open>X-Discord-Message-ID\<close>, and its body.\<close>

datatype discord_answer = No_request | Failed transport_failure | Answered int string string string

record discord_request =
  posted_query :: string
  posted_content :: string

function replace_all :: "string \<Rightarrow> string \<Rightarrow> string \<Rightarrow> string" where
  "replace_all old new s =
     (if old = [] \<or> s = [] then s
      else if prefix old s then new @ replace_all old new (drop (length old) s)
      else hd s # replace_all old new (tl s))"
  by pat_completeness auto

termination
  by (relation "measure (\<lambda>(old, new, s). length s)") auto

declare replace_all.simps [simp del]

definition trim_slashes :: "string \<Rightarrow> string" where
  "trim_slashes s = rev (dropWhile (\<lambda>c. c = CHR ''/'') (rev (dropWhile (\<lambda>c. c = CHR ''/'') s)))"

definition secrets :: "webhook_url \<Rightarrow> string list" where
  "secrets u = [Whole u, EscapedPath u, Path u, RawQuery u] @ split_on CHR ''/'' (trim_slashes (Path u))"

definition redact :: "string \<Rightarrow> string \<Rightarrow> string" where
  "redact cause secret = (if 8 \<le> length secret then replace_all secret ''[redacted]'' cause else cause)"

fun safeTransportCause :: "webhook_url \<Rightarrow> transport_failure \<Rightarrow> string" where
  "safeTransportCause u Timed_out = ''request timed out''"
| "safeTransportCause u Request_canceled = ''request canceled''"
| "safeTransportCause u (Other_failure cause) = foldl redact cause (secrets u)"

definition discord_send ::
  "float_unit \<Rightarrow> (string \<Rightarrow> string option) \<Rightarrow> (discord_request \<Rightarrow> discord_answer) \<Rightarrow> webhook_url \<Rightarrow> Notification \<Rightarrow> delivery" where
  "discord_send fu id_of network u m =
     (case network \<lparr>posted_query = endpoint_query u, posted_content = discord_content m\<rparr> of
        No_request \<Rightarrow> NotDelivered ''create Discord notification request'' (Some (True, 0))
      | Failed f \<Rightarrow> NotDelivered (''send Discord notification: '' @ safeTransportCause u f) (Some (False, 0))
      | Answered code again message_id answer \<Rightarrow>
          if code < 200 \<or> 300 \<le> code
          then NotDelivered (''Discord notification returned HTTP '' @ dec code)
                 (Some (400 \<le> code \<and> code < 500 \<and> code \<noteq> 429, retryAfter fu again))
          else Delivered ''discord''
                 (if code = 204 then message_id
                  else (case id_of (take 4096 answer) of None \<Rightarrow> message_id | Some i \<Rightarrow> i)))"

section \<open>The text fits\<close>

text \<open>A text that is one rune, before any other.\<close>

definition one_rune :: "string \<Rightarrow> bool" where
  "one_rune r \<longleftrightarrow> (\<forall>s. runes (r @ s) = r # runes s)"

lemma rune_length_ascii: "of_char c < (128 :: nat) \<Longrightarrow> rune_length (c # s) = 1"
  by (simp add: rune_length_def)

text \<open>The first byte says how long the rune is to be and what the second may be.\<close>

lemma rune_length_lead:
  "\<exists>lo hi size. size \<in> {1, 2, 3, 4} \<and>
     (\<forall>u. rune_length (a # u) =
        (if (1 < size \<longrightarrow> continues lo hi u) \<and> (2 < size \<longrightarrow> continues 0x80 0xBF (drop 1 u))
            \<and> (3 < size \<longrightarrow> continues 0x80 0xBF (drop 2 u)) then size else 1))"
proof -
  let ?b = "of_char a :: nat"
  have drops: "drop 1 (a # u) = u" "drop 2 (a # u) = drop 1 u" "drop 3 (a # u) = drop 2 u" for u
    by (simp_all add: drop_Cons')
  let ?lo = "if ?b = 0xE0 then 0xA0 else if ?b = 0xF0 then 0x90 else 0x80 :: nat"
  let ?hi = "if ?b = 0xED then 0x9F else if ?b = 0xF4 then 0x8F else 0xBF :: nat"
  let ?size = "if ?b < 0xC2 then 1 else if ?b \<le> 0xDF then 2 else if ?b \<le> 0xEF then 3 else if ?b \<le> 0xF4 then 4 else 1 :: nat"
  show ?thesis
  proof (intro exI conjI allI)
    show "?size \<in> {1, 2, 3, 4}" by simp
    show "rune_length (a # u) =
        (if (1 < ?size \<longrightarrow> continues ?lo ?hi u) \<and> (2 < ?size \<longrightarrow> continues 0x80 0xBF (drop 1 u))
            \<and> (3 < ?size \<longrightarrow> continues 0x80 0xBF (drop 2 u)) then ?size else 1)" for u
      unfolding rune_length_def Let_def drops list.case ..
  qed
qed

text \<open>A longer rune is there whole, and what follows it does not matter.\<close>

lemma rune_length_whole:
  assumes "rune_length s \<noteq> 1" "s \<noteq> []"
  shows "rune_length s \<le> length s \<and> rune_length (take (rune_length s) s @ t) = rune_length s"
proof -
  obtain a u where s: "s = a # u" using assms(2) by (cases s) auto
  obtain lo hi size where "size \<in> {1, 2, 3, 4}" and len: "rune_length (a # v) =
        (if (1 < size \<longrightarrow> continues lo hi v) \<and> (2 < size \<longrightarrow> continues 0x80 0xBF (drop 1 v))
            \<and> (3 < size \<longrightarrow> continues 0x80 0xBF (drop 2 v)) then size else 1)" for v
    using rune_length_lead[of a] by blast
  moreover have "rune_length s = size" using assms(1) len[of u] by (auto simp: s split: if_splits)
  ultimately show ?thesis
    using assms(1) by (cases u; cases "drop 1 u"; cases "drop 2 u") (auto simp: s continues_def drop_Suc split: if_splits)
qed

lemma one_rune_replacement: "one_rune [CHR 0xEF, CHR 0xBF, CHR 0xBD]"
  by (simp add: one_rune_def rune_length_def continues_def)

lemma one_rune_ellipsis: "one_rune ellipsis"
  by (simp add: one_rune_def rune_length_def continues_def ellipsis_def)

lemma one_rune_head:
  "one_rune (if rune_length (c # s) = 1 \<and> 128 \<le> (of_char c :: nat) then [CHR 0xEF, CHR 0xBF, CHR 0xBD]
             else take (rune_length (c # s)) (c # s))"
proof (cases "rune_length (c # s) = 1")
  case True
  then show ?thesis
    using one_rune_replacement rune_length_ascii[of c] by (auto simp: one_rune_def)
next
  case False
  let ?n = "rune_length (c # s)"
  have n: "?n \<le> Suc (length s)" "rune_length (take ?n (c # s) @ t) = ?n" for t
    using rune_length_whole[OF False, of t] by simp_all
  obtain k where k: "?n = Suc k" using rune_length_pos[of "c # s"] gr0_conv_Suc by blast
  have "runes (take ?n (c # s) @ t) = take ?n (c # s) # runes t" for t
    using n(1) n(2)[of t] False by (simp add: k)
  then show ?thesis using False by (simp add: one_rune_def)
qed

lemma runes_one: "list_all one_rune (runes s)"
  by (induction s rule: runes.induct) (use one_rune_head in \<open>simp_all add: Let_def\<close>)

lemma runes_concat: "list_all one_rune rs \<Longrightarrow> runes (concat rs @ t) = rs @ runes t"
  by (induction rs) (simp_all add: one_rune_def)

text \<open>C39: What is posted fits. The text of a notification has at most 2000 runes: it is whole when it has no more,
  and otherwise its first 1999 and an ellipsis, whatever bytes it is made of.\<close>

theorem discord_content_fits:
  "runes (discord_content m) =
     (if length (runes (discord_text m)) \<le> 2000 then runes (discord_text m)
      else take 1999 (runes (discord_text m)) @ [ellipsis])
   \<and> length (runes (discord_content m)) \<le> 2000"
proof -
  let ?rs = "runes (discord_text m)"
  have "list_all one_rune (take 1999 ?rs)"
    using runes_one[of "discord_text m"] by (auto simp: list_all_iff dest: in_set_takeD)
  then have "runes (concat (take 1999 ?rs) @ ellipsis) = take 1999 ?rs @ [ellipsis]"
    using one_rune_ellipsis[unfolded one_rune_def, rule_format, of "[]"] by (simp add: runes_concat)
  then show ?thesis by (simp add: discord_content_def truncateRunes_def discordContentLimit_def Let_def)
qed

section \<open>The address stays a secret\<close>

lemma sublist_around:
  assumes "c \<notin> set x"
  shows "sublist x (u @ c # v) \<longleftrightarrow> sublist x u \<or> sublist x v"
proof
  assume "sublist x (u @ c # v)"
  then obtain p q where "u @ c # v = p @ x @ q" by (auto simp: sublist_def)
  then consider r where "u = p @ r" "r @ c # v = x @ q" | r where "p = u @ r" "c # v = r @ x @ q"
    by (auto simp: append_eq_append_conv2)
  then show "sublist x u \<or> sublist x v"
  proof cases
    case 1
    then consider t where "r = x @ t" | t where "x = r @ t" "c # v = t @ q" by (auto simp: append_eq_append_conv2)
    then show ?thesis
    proof cases
      case 2
      with assms have "t = []" by (cases t) auto
      with 2 1 show ?thesis by simp
    qed (use 1 in \<open>auto simp: sublist_def\<close>)
  next
    case 2
    show ?thesis
    proof (cases r)
      case Nil
      with 2 assms have "x = []" by (cases x) auto
      then show ?thesis by simp
    next
      case (Cons d ds)
      with 2 show ?thesis by (auto simp: sublist_def)
    qed
  qed
next
  assume "sublist x u \<or> sublist x v"
  then show "sublist x (u @ c # v)" by (meson sublist_appendI sublist_append_leftI sublist_append_rightI sublist_Cons_right sublist_order.order.trans)
qed

lemma sublist_Cons_cases: "sublist x (c # v) \<longleftrightarrow> prefix x (c # v) \<or> sublist x v"
  by (auto simp: sublist_Cons_right)

text \<open>Text without an opening bracket at the front of a redacted text was at the front before.\<close>

lemma prefix_replaced:
  "CHR ''['' \<notin> set y \<Longrightarrow> prefix y (replace_all old (CHR ''['' # new) s) \<Longrightarrow> prefix y s"
proof (induction old "CHR ''['' # new" s arbitrary: y rule: replace_all.induct)
  case (1 old s)
  show ?case
  proof (cases "old = [] \<or> s = []")
    case True
    then show ?thesis using "1.prems"(2) by (subst (asm) replace_all.simps) simp
  next
    case False
    show ?thesis
    proof (cases y)
      case (Cons d ds)
      show ?thesis
      proof (cases "prefix old s")
        case True
        then show ?thesis using "1.prems" False Cons by (subst (asm) replace_all.simps) simp
      next
        case np: False
        then have "d = hd s" "prefix ds (replace_all old (CHR ''['' # new) (tl s))"
          using "1.prems"(2) False Cons by (subst (asm) replace_all.simps; simp)+
        then have "prefix ds (tl s)" using "1.hyps"(2)[OF False np, of ds] "1.prems"(1) Cons by simp
        with \<open>d = hd s\<close> False Cons show ?thesis by (cases s) auto
      qed
    qed simp
  qed
qed

text \<open>A secret that cannot overlap with the mark of a redaction.\<close>

definition markless :: "string \<Rightarrow> bool" where
  "markless x \<longleftrightarrow> CHR ''['' \<notin> set x \<and> CHR '']'' \<notin> set x \<and> \<not> sublist x ''redacted''"

lemma sublist_marked:
  assumes "markless x"
  shows "sublist x (''[redacted]'' @ s) \<longleftrightarrow> sublist x s"
proof -
  have "x \<noteq> []" using assms by (auto simp: markless_def)
  have "sublist x (''[redacted]'' @ s) \<longleftrightarrow> sublist x [] \<or> sublist x (''redacted'' @ CHR '']'' # s)"
    using sublist_around[of "CHR ''[''" x "[]" "''redacted'' @ CHR '']'' # s"] assms by (simp add: markless_def)
  also have "\<dots> \<longleftrightarrow> sublist x s"
    using sublist_around[of "CHR '']''" x "''redacted''" s] assms \<open>x \<noteq> []\<close> by (simp add: markless_def)
  finally show ?thesis .
qed

lemma replace_all_hides:
  assumes "markless x" "x = old \<or> \<not> sublist x s"
  shows "\<not> sublist x (replace_all old ''[redacted]'' s)"
  using assms(2)
proof (induction old "''[redacted]''" s rule: replace_all.induct)
  case (1 old s)
  have "x \<noteq> []" using assms(1) by (auto simp: markless_def)
  show ?case
  proof (cases "old = [] \<or> s = []")
    case True
    then show ?thesis using 1 \<open>x \<noteq> []\<close> by (subst replace_all.simps) auto
  next
    case False
    show ?thesis
    proof (cases "prefix old s")
      case True
      then have "x = old \<or> \<not> sublist x (drop (length old) s)"
        using "1.prems" by (meson sublist_drop sublist_order.order.trans)
      then show ?thesis
        using "1.hyps"(1)[OF False True] True False sublist_marked[OF assms(1)]
        by (subst replace_all.simps) simp
    next
      case np: False
      obtain c t where s: "s = c # t" using False by (cases s) auto
      have IH: "\<not> sublist x (replace_all old ''[redacted]'' t)"
        using "1.hyps"(2)[OF False np] "1.prems" by (auto simp: s sublist_Cons_right)
      have "\<not> prefix x (c # replace_all old ''[redacted]'' t)"
      proof
        assume "prefix x (c # replace_all old ''[redacted]'' t)"
        then obtain ds where x: "x = c # ds" "prefix ds (replace_all old ''[redacted]'' t)"
          using \<open>x \<noteq> []\<close> by (cases x) auto
        then have "prefix ds t"
          using prefix_replaced[of ds old "''redacted]''" t] assms(1) by (simp add: markless_def)
        with x have "prefix x s" by (simp add: s)
        then show False using "1.prems" np prefix_imp_sublist by blast
      qed
      with IH show ?thesis using np False by (subst replace_all.simps) (simp add: s sublist_Cons_right)
    qed
  qed
qed

lemma redacted_still: "markless x \<Longrightarrow> \<not> sublist x t \<Longrightarrow> \<not> sublist x (foldl redact t ss)"
  by (induction ss arbitrary: t) (simp_all add: redact_def replace_all_hides)

lemma redacted:
  "markless x \<Longrightarrow> 8 \<le> length x \<Longrightarrow> x \<in> set ss \<Longrightarrow> \<not> sublist x (foldl redact t ss)"
proof (induction ss arbitrary: t)
  case (Cons y ys)
  then show ?case
  proof (cases "x = y")
    case True
    with Cons.prems have "\<not> sublist x (redact t y)" by (simp add: redact_def replace_all_hides)
    then show ?thesis using redacted_still[OF Cons.prems(1)] by simp
  qed (use Cons in simp)
qed simp

text \<open>What the notifier and the worker write themselves has no word of eight letters but these.\<close>

definition telling :: "string \<Rightarrow> bool" where
  "telling x \<longleftrightarrow>
     8 \<le> length x \<and> CHR '' '' \<notin> set x \<and> markless x
     \<and> \<not> sublist x ''notification:'' \<and> \<not> sublist x ''canceled'' \<and> \<not> sublist x ''returned'' \<and> \<not> sublist x ''incident''"

lemma telling_words:
  assumes "telling x" "length w < 8 \<or> w \<in> {''notification'', ''notification:'', ''canceled'', ''returned'', ''incident''}"
  shows "sublist x (w @ CHR '' '' # v) \<longleftrightarrow> sublist x v" "\<not> sublist x w"
proof -
  have "sublist ''notification'' ''notification:''" by (simp add: sublist_def exI[of _ "[]"])
  then have "sublist x ''notification'' \<Longrightarrow> sublist x ''notification:''" by (meson sublist_order.order.trans)
  then show "\<not> sublist x w" using assms sublist_length_le[of x w] by (auto simp: telling_def)
  then show "sublist x (w @ CHR '' '' # v) \<longleftrightarrow> sublist x v"
    using sublist_around[of "CHR '' ''" x w v] assms(1) by (simp add: telling_def)
qed

lemma short_code: "0 \<le> n \<Longrightarrow> n < 1000 \<Longrightarrow> length (dec n) \<le> 3"
  by (simp add: dec_def dec_nat.simps[of "nat n"] dec_nat.simps[of "nat n div 10"] dec_nat.simps[of "nat n div 10 div 10"])

text \<open>HTTP gives a status of three digits.\<close>

definition http_statuses :: "(discord_request \<Rightarrow> discord_answer) \<Rightarrow> bool" where
  "http_statuses network \<longleftrightarrow>
     (\<forall>q code again i answer. network q = Answered code again i answer \<longrightarrow> 0 \<le> code \<and> code < 1000)"

text \<open>Whatever goes wrong with a request, the error contains no part of the address that the notifier knows and that
  cannot be mistaken for its own words: neither the address, its path or its query, nor a segment of its path, of
  eight characters or more, even when the library's error quotes it.\<close>

theorem webhook_stays_secret:
  assumes "x \<in> set (secrets u)" "telling x"
    and "http_statuses network"
    and "discord_send fu id_of network u m = NotDelivered what e"
  shows "\<not> sublist x what"
proof -
  have mk: "markless x" "8 \<le> length x" using assms(2) by (simp_all add: telling_def)
  have status: "0 \<le> code \<and> code < 1000" if "network q = Answered code again i answer" for q code again i answer
    using assms(3) that unfolding http_statuses_def by blast
  have create: "''create Discord notification request'' = ''create'' @ CHR '' '' # ''Discord'' @ CHR '' '' # ''notification'' @ CHR '' '' # ''request''"
    and send: "''send Discord notification: '' @ t = ''send'' @ CHR '' '' # ''Discord'' @ CHR '' '' # ''notification:'' @ CHR '' '' # t"
    and code: "''Discord notification returned HTTP '' @ t = ''Discord'' @ CHR '' '' # ''notification'' @ CHR '' '' # ''returned'' @ CHR '' '' # ''HTTP'' @ CHR '' '' # t"
    and timed: "''request timed out'' = ''request'' @ CHR '' '' # ''timed'' @ CHR '' '' # ''out''"
    and cancel: "''request canceled'' = ''request'' @ CHR '' '' # ''canceled''" for t
    by simp_all
  note words = telling_words[OF assms(2)]
  have "\<not> sublist x ''create Discord notification request''"
    unfolding create by (simp add: words del: append.simps)
  moreover have "\<not> sublist x (''send Discord notification: '' @ safeTransportCause u f)" for f
  proof -
    have "\<not> sublist x (safeTransportCause u f)"
    proof (cases f)
      case Timed_out
      have "\<not> sublist x ''request timed out''" unfolding timed by (simp add: words del: append.simps)
      with Timed_out show ?thesis by simp
    next
      case Request_canceled
      have "\<not> sublist x ''request canceled''" unfolding cancel by (simp add: words del: append.simps)
      with Request_canceled show ?thesis by simp
    next
      case (Other_failure cause)
      then show ?thesis using redacted[OF mk assms(1)] by simp
    qed
    then show ?thesis unfolding send by (simp add: words del: append.simps)
  qed
  moreover have "\<not> sublist x (''Discord notification returned HTTP '' @ dec n)" if "0 \<le> n" "n < 1000" for n
    unfolding code using words(2)[of "dec n"] short_code[OF that] by (simp add: words(1) del: append.simps)
  ultimately show ?thesis
    using assms(4) status by (auto simp: discord_send_def split: discord_answer.splits if_splits)
qed


definition sample_webhook :: webhook_url where
  "sample_webhook =
     \<lparr>Scheme = ''https'', Host = ''discord.test'', Path = ''/api/webhooks/1/abcdefghij'',
      EscapedPath = ''/api/webhooks/1/abcdefghij'', RawQuery = [], Whole = ''https://discord.test/api/webhooks/1/abcdefghij''\<rparr>"

definition sample_floats :: float_unit where
  "sample_floats =
     \<lparr>parse_float = \<lambda>t. if t = ''0.5'' then Some (Finite (1 / 2)) else None, rounded = id, out_of_range = - (2 ^ 63)\<rparr>"

definition sample_note :: Notification where
  "sample_note =
     \<lparr>EventID = ''1'', NoteKind = KindTest, Severity = ''info'', Title = ''T'', Body = ''B'', OccurredAt = 1, IncidentID = [],
      Link = []\<rparr>"

theorem webhook_stays_secret_witness:
  "discord_send sample_floats (\<lambda>_. None)
       (\<lambda>_. Failed (Other_failure ''dial abcdefghij: refused'')) sample_webhook sample_note
     = NotDelivered ''send Discord notification: dial [redacted]: refused'' (Some (False, 0))
   \<and> \<not> sublist ''abcdefghij'' ''send Discord notification: dial [redacted]: refused''"
proof
  let ?net = "\<lambda>_. Failed (Other_failure ''dial abcdefghij: refused'')"
  show sent: "discord_send sample_floats (\<lambda>_. None) ?net sample_webhook sample_note
     = NotDelivered ''send Discord notification: dial [redacted]: refused'' (Some (False, 0))" by code_simp
  have "''abcdefghij'' \<in> set (secrets sample_webhook)" "telling ''abcdefghij''" by code_simp+
  then show "\<not> sublist ''abcdefghij'' ''send Discord notification: dial [redacted]: refused''"
    using webhook_stays_secret[OF _ _ _ sent] by (simp add: http_statuses_def)
qed

section \<open>Discord and the worker\<close>

text \<open>C19: The answer of Discord decides what becomes of a job. After a delivery whose outcome was saved, the job is
  sent when the status was from 200 to 299 and will not be tried again; it will not be tried again either after a
  status from 400 to 499 other than 429; after any other it is due again exactly from the time on that the answer
  asked for, or, when it asked for none, after the delay that grows with the attempts.\<close>

theorem discord_answer_decides:
  assumes "service_reachable mk (engine w)" "visits_all (JobOrd p)"
    and "job \<in> set (DueNotifications (JobOrd p) now (engine w))" "MarkSave p (JobID job) = None"
    and "\<not> discards w" "Answer p = discord_send fu id_of network u" "Get (JobIncidentID job) (engine w) = Some i"
    and "network \<lparr>posted_query = endpoint_query u, posted_content = discord_content (message_for w job i)\<rparr>
           = Answered code again n answer"
  shows "\<exists>job'. map_of (Jobs (state (fst (dispatch_job fl p now job w)))) (JobID job) = Some job'
    \<and> snd (dispatch_job fl p now job w) = ([message_for w job i], None)
    \<and> (SentAt job' \<noteq> None \<longleftrightarrow> 200 \<le> code \<and> code < 300)
    \<and> (\<forall>t. is_due t job' \<longleftrightarrow> (code < 200 \<or> 300 \<le> code) \<and> \<not> (400 \<le> code \<and> code < 500 \<and> code \<noteq> 429)
          \<and> now + (if 0 < retryAfter fu again then retryAfter fu again
                   else retryDelay fl (JobID job) (JobAttempts job + 1)) \<le> t)"
proof -
  have inv: "engine_inv (cfg (engine w)) (state (engine w))" using reachable_inv[OF assms(1)] by blast
  have j: "map_of (Jobs (state (engine w))) (JobID job) = Some job"
    using assms(3) unfolding due_jobs(2)[OF inv assms(2)] by blast
  have waits: "waiting job" using assms(3) by (simp add: DueNotifications_def)
  note marked = mark_saved[OF refl j]
  show ?thesis
  proof (cases "code < 200 \<or> 300 \<le> code")
    case True
    then obtain what where "Send w (Answer p) (message_for w job i) =
        NotDelivered what (Some (400 \<le> code \<and> code < 500 \<and> code \<noteq> 429, retryAfter fu again))"
      using assms(5,6,8) by (simp add: Send_def discord_send_def)
    then show ?thesis
      using True waits assms(4,7) marked
      by (auto simp: dispatch_job_def MarkNotificationFailed_def retry_at_def is_due_def waiting_def Let_def split_beta
          update_conv')
  next
    case False
    then obtain x where "Send w (Answer p) (message_for w job i) = Delivered ''discord'' x"
      using assms(5,6,8) by (simp add: Send_def discord_send_def)
    then show ?thesis
      using False waits assms(4,7) marked
      by (auto simp: dispatch_job_def MarkNotificationSent_def is_due_def waiting_def Let_def split_beta update_conv')
  qed
qed


definition limited_pass :: Pass where
  "limited_pass =
     busy_pass\<lparr>Answer := discord_send sample_floats (\<lambda>_. None) (\<lambda>_. Answered 429 ''0.5'' [] []) sample_webhook\<rparr>"

definition waiting_worker :: Worker where
  "waiting_worker = NewWorker (service_run outage) False 50 []"

definition first_job :: NotificationJob where
  "first_job = hd (DueNotifications rev 1000 (service_run outage))"

theorem discord_answer_decides_witness:
  "\<exists>job'. map_of (Jobs (state (fst (dispatch_job id limited_pass 1000 first_job waiting_worker)))) (JobID first_job) = Some job'
     \<and> (\<forall>t. is_due t job' \<longleftrightarrow> 1000 + 500000000 \<le> t)"
proof -
  have sv: "engine waiting_worker = service_run outage" "\<not> discards waiting_worker" "JobOrd limited_pass = rev"
    by (simp_all add: waiting_worker_def NewWorker_def limited_pass_def busy_pass_def)
  have "map JobID (DueNotifications rev 1000 (service_run outage)) \<noteq> []" by code_simp
  then have job: "first_job \<in> set (DueNotifications rev 1000 (service_run outage))"
    unfolding first_job_def by (metis list.map_disc_iff hd_in_set)
  have reach: "service_reachable sample_mk (service_run outage)" by (rule outage_reachable)
  have order: "visits_all rev" by (simp add: visits_all_def)
  have inv: "engine_inv (cfg (service_run outage)) (state (service_run outage))" using reachable_inv[OF reach] by blast
  have "map_of (Jobs (state (service_run outage))) (JobID first_job) = Some first_job"
    using job unfolding due_jobs(2)[OF inv order] by blast
  then obtain i where i: "Get (JobIncidentID first_job) (service_run outage) = Some i"
    using inv by (fastforce simp: engine_inv_def jobs_ok_def job_ok_def Get_def)
  have "retryAfter sample_floats ''0.5'' = 500000000" by code_simp
  then show ?thesis
    using discord_answer_decides[of sample_mk waiting_worker limited_pass first_job 1000 sample_floats "\<lambda>_. None"
        "\<lambda>_. Answered 429 ''0.5'' [] []" sample_webhook i 429 "''0.5''" "[]" "[]" id] sv job reach order i
    by (auto simp: limited_pass_def busy_pass_def)
qed

end
