(* ===== verification/Syslog_Messages.thy ===== *)
theory Syslog_Messages
  imports Http_Router Json_Text Message_Path "HOL-Library.Word"
begin

text \<open>
  \<open>internal/syslog\<close>: how the listener makes a message of the parts its parser found and gives it to the store
  (\<open>listener.go\<close>), and the sender of test events (\<open>sender.go\<close>). The parser is a library; what it found
  arrives as named Go values. The texts of \<open>fmt\<close>, the text in which a stored message keeps a value, the time
  parser and the conversion of a float are parameters.
\<close>

section \<open>Parts\<close>

text \<open>A Go value. The signed integers of all widths are one constructor, as no conversion of them to \<open>int\<close>
  changes them; unsigned ones are words of 64 bits. \<open>P_other\<close> is any other value: whether JSON takes it, and
  its text.\<close>

datatype part =
    P_nil | P_string string | P_bytes string | P_bool bool | P_signed int | P_unsigned "64 word" | P_float rat
  | P_time time | P_map "(string \<times> part) list" | P_string_map "(string \<times> string) list"
  | P_nested "(string \<times> (string \<times> string) list) list" | P_strings "string list" | P_stringer string
  | P_other bool string

type_synonym parts = "(string \<times> part) list"

record part_library =
  sprint :: "part \<Rightarrow> string"
  kept_text :: "part \<Rightarrow> string"
  rfc3339_nano :: "string \<Rightarrow> time option"
  float_to_int :: "rat \<Rightarrow> int"

fun jsonSafeValue :: "part \<Rightarrow> part" where
  "jsonSafeValue (P_bytes b) = P_string b"
| "jsonSafeValue (P_map m) = P_map (map (\<lambda>p. (fst p, jsonSafeValue (snd p))) m)"
| "jsonSafeValue (P_string_map m) = P_map (map (map_prod id P_string) m)"
| "jsonSafeValue (P_nested m) = P_map (map (map_prod id (\<lambda>c. P_map (map (map_prod id P_string) c))) m)"
| "jsonSafeValue (P_stringer t) = P_string t"
| "jsonSafeValue (P_other marshals t) = (if marshals then P_other marshals t else P_string t)"
| "jsonSafeValue v = v"

definition stringify_part :: "part_library \<Rightarrow> part \<Rightarrow> string" where
  "stringify_part lib v =
     (case v of P_nil \<Rightarrow> [] | P_string s \<Rightarrow> s | P_bytes b \<Rightarrow> b | P_stringer t \<Rightarrow> t | _ \<Rightarrow> sprint lib v)"

fun firstString :: "part_library \<Rightarrow> parts \<Rightarrow> string list \<Rightarrow> string" where
  "firstString lib ps [] = []"
| "firstString lib ps (k # ks) =
     (case map_of ps k of Some v \<Rightarrow> stringify_part lib v | None \<Rightarrow> firstString lib ps ks)"

definition getInt :: "part_library \<Rightarrow> parts \<Rightarrow> string \<Rightarrow> int option" where
  "getInt lib ps key =
     (case map_of ps key of
        Some (P_signed i) \<Rightarrow> Some i
      | Some (P_unsigned w) \<Rightarrow> Some (sint w)
      | Some (P_float x) \<Rightarrow> Some (float_to_int lib x)
      | Some (P_string s) \<Rightarrow> atoi (go_trim s)
      | _ \<Rightarrow> None)"

definition getTime :: "part_library \<Rightarrow> parts \<Rightarrow> string \<Rightarrow> time option" where
  "getTime lib ps key =
     (case map_of ps key of
        Some (P_time t) \<Rightarrow> Some t
      | Some (P_string s) \<Rightarrow> rfc3339_nano lib s
      | _ \<Rightarrow> None)"

definition getMap :: "part_library \<Rightarrow> parts \<Rightarrow> string \<Rightarrow> (string \<times> string) list" where
  "getMap lib ps key =
     (case map_option jsonSafeValue (map_of ps key) of
        Some (P_map m) \<Rightarrow> map (map_prod id (kept_text lib)) m
      | _ \<Rightarrow> [])"

text \<open>\<open>newID\<close>: sixteen random bytes in hexadecimal, or the time in base 36 when there are none.\<close>

definition hex_text :: "string \<Rightarrow> string" where
  "hex_text bs = concat (map (\<lambda>b. [lower_hex (of_char b div 16), lower_hex (of_char b mod 16)]) bs)"

fun base36 :: "nat \<Rightarrow> string" where
  "base36 n =
     (let d = n mod 36; c = (if d < 10 then char_of (48 + d) else char_of (87 + d) :: char)
      in if n < 36 then [c] else base36 (n div 36) @ [c])"

declare base36.simps [simp del]

definition newID :: "string option \<Rightarrow> time \<Rightarrow> string" where
  "newID random now =
     (case random of
        Some bs \<Rightarrow> hex_text bs
      | None \<Rightarrow>
          let nanos = now - 62135596800 * 1000000000
          in if nanos < 0 then CHR ''-'' # base36 (nat (- nanos)) else base36 (nat nanos))"

definition messageFromParts :: "part_library \<Rightarrow> string option \<Rightarrow> time \<Rightarrow> string \<Rightarrow> parts \<Rightarrow> Message" where
  "messageFromParts lib random now transport ps =
     \<lparr>ID = newID random now, ReceivedAt = now, Timestamp = getTime lib ps ''timestamp'', Transport = transport,
      Source = firstString lib ps [''client'', ''source''], Priority = getInt lib ps ''priority'',
      Facility = getInt lib ps ''facility'', Severity = getInt lib ps ''severity'',
      Hostname = firstString lib ps [''hostname'', ''host''], AppName = firstString lib ps [''app_name'', ''appname''],
      ProcID = firstString lib ps [''proc_id'', ''procid''], MsgID = firstString lib ps [''msg_id'', ''msgid''],
      Tag = firstString lib ps [''tag''], Text = firstString lib ps [''message'', ''content'', ''msg''],
      StructuredData = getMap lib ps ''structured_data'',
      Raw = map (map_prod id (kept_text lib \<circ> jsonSafeValue)) ps\<rparr>"

section \<open>The listener\<close>

record ListenerConfig =
  UDPAddr :: string
  TCPAddr :: string
  Format :: string

record Listener =
  listening :: ListenerConfig
  transport :: string

datatype listener_error = No_address | Udp_failed | Tcp_failed | Boot_failed

definition transportName :: "ListenerConfig \<Rightarrow> string" where
  "transportName c =
     (if UDPAddr c \<noteq> [] \<and> TCPAddr c \<noteq> [] then ''udp/tcp''
      else if UDPAddr c \<noteq> [] then ''udp'' else if TCPAddr c \<noteq> [] then ''tcp'' else [])"

text \<open>The store is always there.\<close>

definition NewListener :: "ListenerConfig \<Rightarrow> listener_error + Listener" where
  "NewListener c =
     (if UDPAddr c = [] \<and> TCPAddr c = [] then Inl No_address
      else Inr \<lparr>listening = c, transport = transportName c\<rparr>)"

text \<open>\<open>Start\<close>, given which sockets can be opened.\<close>

definition Start :: "bool \<Rightarrow> bool \<Rightarrow> bool \<Rightarrow> Listener \<Rightarrow> listener_error option" where
  "Start udp_ok tcp_ok boot_ok l =
     (if UDPAddr (listening l) \<noteq> [] \<and> \<not> udp_ok then Some Udp_failed
      else if TCPAddr (listening l) \<noteq> [] \<and> \<not> tcp_ok then Some Tcp_failed
      else if \<not> boot_ok then Some Boot_failed else None)"

datatype syslog_format = Rfc3164 | Rfc6587 | Rfc5424 | Automatic

definition setFormat :: "(string \<Rightarrow> string) \<Rightarrow> string \<Rightarrow> syslog_format" where
  "setFormat to_lower fmt =
     (let f = to_lower (go_trim fmt)
      in if f = ''rfc3164'' then Rfc3164 else if f = ''rfc6587'' then Rfc6587
         else if f = ''rfc5424'' then Rfc5424 else Automatic)"

text \<open>\<open>consume\<close>: what the channel gives until it is closed or the listener stops; an append that fails is only
  logged. With each come the bytes of the random source, the time, and what becomes of the write.\<close>

datatype arrival = Parts parts "string option" line_world | Stop

fun consume :: "part_library \<Rightarrow> web_world \<Rightarrow> Listener \<Rightarrow> arrival list \<Rightarrow> server \<Rightarrow> server" where
  "consume lib W l [] s = s"
| "consume lib W l (Stop # as) s = s"
| "consume lib W l (Parts ps random e # as) s =
     consume lib W l as (fst (append_published W e (messageFromParts lib random (clock e) (transport l) ps) s))"

section \<open>Test events\<close>

record Event =
  EventTime :: time
  EventHost :: string
  EventApp :: string
  EventProc :: string
  EventMsg :: string
  EventFacility :: int
  EventSeverity :: int
  EventText :: string

text \<open>The process: its host name, none when asking for it failed, and its number.\<close>

record process =
  host_name :: "string option"
  pid :: nat

definition localHostname :: "process \<Rightarrow> string" where
  "localHostname p =
     (case host_name p of None \<Rightarrow> ''logthing'' | Some h \<Rightarrow> if go_trim h = [] then ''logthing'' else h)"

definition token :: "string \<Rightarrow> string" where
  "token s = (let s = go_trim s in if s = [] then ''-'' else map (\<lambda>c. if c = CHR '' '' then CHR ''_'' else c) s)"

definition or_else :: "string \<Rightarrow> string \<Rightarrow> string" where
  "or_else s d = (if s = [] then d else s)"

text \<open>An \<open>int\<close> of Go has 64 bits, and what is computed with it wraps.\<close>

definition go_int :: "int \<Rightarrow> int" where
  "go_int x = (x + 2 ^ 63) mod 2 ^ 64 - 2 ^ 63"

definition FormatRFC5424 :: "process \<Rightarrow> (time \<Rightarrow> string) \<Rightarrow> time \<Rightarrow> Event \<Rightarrow> string" where
  "FormatRFC5424 p rfc3339 now e =
     (let t = (if IsZero (EventTime e) then now else EventTime e);
          facility = (if EventFacility e < 0 then 1 else EventFacility e);
          severity = (if EventSeverity e < 0 then 5 else EventSeverity e)
      in ''<'' @ dec (go_int (facility * 8 + severity)) @ ''>1 '' @ rfc3339 t @ '' '' @ token (or_else (EventHost e) (localHostname p))
         @ '' '' @ token (or_else (EventApp e) ''logthing'') @ '' '' @ token (or_else (EventProc e) (dec (int (pid p))))
         @ '' '' @ token (or_else (EventMsg e) ''test'') @ '' - '' @ or_else (EventText e) ''logthing test event'' @ [CHR 0x0A])"

definition NewTestEvent :: "process \<Rightarrow> time \<Rightarrow> string \<Rightarrow> Event" where
  "NewTestEvent p now message =
     \<lparr>EventTime = now, EventHost = localHostname p, EventApp = ''logthing'', EventProc = dec (int (pid p)),
      EventMsg = ''test'', EventFacility = 1, EventSeverity = 5, EventText = message\<rparr>"

record Sender =
  network :: string
  address :: string
  send_timeout :: int

datatype sender_error = Unsupported_network string | Address_required

definition NewSender :: "(string \<Rightarrow> string) \<Rightarrow> string \<Rightarrow> string \<Rightarrow> int \<Rightarrow> sender_error + Sender" where
  "NewSender to_lower net addr wait =
     (let net = to_lower (go_trim net); net = (if net = [] then ''udp'' else net); addr = go_trim addr
      in if net \<noteq> ''udp'' \<and> net \<noteq> ''tcp'' then Inl (Unsupported_network net)
         else if addr = [] then Inl Address_required
         else Inr \<lparr>network = net, address = addr, send_timeout = (if wait \<le> 0 then 5 * 1000000000 else wait)\<rparr>)"

text \<open>\<open>Send\<close>, given what dialling, setting the deadline and writing the bytes come to.\<close>

definition send_event :: "(string \<Rightarrow> string option) \<Rightarrow> Sender \<Rightarrow> string \<Rightarrow> string + TestEventResult" where
  "send_event write s event_text =
     (case write event_text of
        Some e \<Rightarrow> Inl e
      | None \<Rightarrow> Inr \<lparr>Network = network s, Address = address s,
                     Payload = rev (dropWhile (\<lambda>c. c = CHR 0x0A) (rev event_text))\<rparr>)"

text \<open>\<open>net.SplitHostPort\<close> with the port, and \<open>net.JoinHostPort\<close>.\<close>

definition split_host_port :: "string \<Rightarrow> (string \<times> string) option" where
  "split_host_port s =
     map_option (\<lambda>h. (h, rev (takeWhile (\<lambda>c. c \<noteq> CHR '':'') (rev s)))) (SplitHostPort s)"

definition JoinHostPort :: "string \<Rightarrow> string \<Rightarrow> string" where
  "JoinHostPort h p = (if CHR '':'' \<in> set h then ''['' @ h @ '']:'' @ p else h @ '':'' @ p)"

definition loopbackTarget :: "string \<Rightarrow> string" where
  "loopbackTarget listenAddr =
     (let a = go_trim listenAddr
      in if a = [] then []
         else (case split_host_port a of
                 None \<Rightarrow> a
               | Some (h, p) \<Rightarrow>
                   JoinHostPort (if h \<in> {[], ''0.0.0.0'', ''::'', ''[::]''} then ''127.0.0.1'' else h) p))"

definition DefaultTestEventDestination :: "string \<Rightarrow> string \<Rightarrow> string \<times> string" where
  "DefaultTestEventDestination udpAddr tcpAddr =
     (if loopbackTarget udpAddr \<noteq> [] then (''udp'', loopbackTarget udpAddr)
      else if loopbackTarget tcpAddr \<noteq> [] then (''tcp'', loopbackTarget tcpAddr) else (''udp'', []))"


section \<open>What is kept can be encoded\<close>

text \<open>Values that JSON writes as they are meant: no bytes, which it would write as base64, nothing it refuses, and
  nothing with a text of its own.\<close>

fun json_takes :: "part \<Rightarrow> bool" where
  "json_takes (P_bytes b) = False"
| "json_takes (P_stringer t) = False"
| "json_takes (P_other marshals t) = marshals"
| "json_takes (P_map m) = list_all (\<lambda>p. json_takes (snd p)) m"
| "json_takes v = True"

theorem kept_values_are_encoded: "json_takes (jsonSafeValue v)"
  by (induction v rule: jsonSafeValue.induct) (auto simp: list_all_iff)

section \<open>What is received is stored, streamed and analysed\<close>

lemma base36_nonempty: "base36 n \<noteq> []"
  by (subst base36.simps) (simp add: Let_def)

lemma newID_nonempty: "random \<noteq> Some [] \<Longrightarrow> newID random now \<noteq> []"
  by (cases random) (auto simp: newID_def hex_text_def base36_nonempty Let_def)

lemma message_received [simp]:
  "ID (messageFromParts lib random now tr ps) = newID random now" "ReceivedAt (messageFromParts lib random now tr ps) = now"
  "Transport (messageFromParts lib random now tr ps) = tr"
  by (simp_all add: messageFromParts_def)

text \<open>C21: A message that arrives goes everywhere it has to. When its record can be written, it is at the end of the
  file of its source, under a new identifier, with the time of its arrival and the listener's transport; the
  incident worker is woken; and it is the last in the buffer of every event stream that has room for it, while a
  stream without room loses this message only.\<close>

theorem received_message_goes_everywhere:
  fixes lib :: part_library and W :: web_world and l :: Listener and ps :: parts and s :: server
  assumes "written e = Written t" "random \<noteq> Some []" "clock e \<noteq> 0"
    and "list_all (\<lambda>i. i < length (channels (hub (event_streams s))) \<and> \<not> closed (channels (hub (event_streams s)) ! i))
           (subscribers (hub (event_streams s)))"
  defines "m \<equiv> messageFromParts lib random (clock e) (transport l) ps"
    and "s' \<equiv> consume lib W l [Parts ps random e] s"
  shows "ID m \<noteq> [] \<and> ReceivedAt m = clock e \<and> Transport m = transport l
    \<and> map_option content (map_of (disk (message_files s')) (path_of W m)) =
        Some (case map_of (disk (message_files s)) (path_of W m) of None \<Rightarrow> encode (lines_codec W) m
              | Some f \<Rightarrow> content f @ encode (lines_codec W) m)
    \<and> wake (incident_worker s')
    \<and> (\<forall>i \<in> set (subscribers (hub (event_streams s))).
         buffer (channels (hub (event_streams s')) ! i) =
           (let b = buffer (channels (hub (event_streams s)) ! i) in if length b < 64 then b @ [m] else b))"
proof -
  let ?h = "hub (event_streams s)"
  have m: "ID m \<noteq> []" "ReceivedAt m = clock e" "Transport m = transport l"
    using newID_nonempty[OF assms(2)] by (simp_all add: m_def)
  obtain st where st: "Append (path_of W) (lines_codec W) (Written t) (clock e) (inode e) m (message_files s) = (st, None)"
    "map_option content (map_of (disk st) (path_of W m)) =
        Some (case map_of (disk (message_files s)) (path_of W m) of None \<Rightarrow> encode (lines_codec W) m
              | Some f \<Rightarrow> content f @ encode (lines_codec W) m)"
    using m(1,2) assms(3) by (auto simp: Append_def Let_def update_conv' split: option.split)
  have s': "s' = publish_all m (s\<lparr>message_files := st\<rparr>)"
    using st(1) assms(1) by (simp add: s'_def m_def append_published_def PublishingStore_Append_def)
  have "Realtime_Hub.Publish m ?h = Some (?h\<lparr>channels := map (\<lambda>(ch, c). if ch \<in> set (subscribers ?h) then send m c else c)
                                (zip [0..<length (channels ?h)] (channels ?h))\<rparr>)"
    using assms(4) by (auto simp: Realtime_Hub.Publish_def list_all_iff list_ex_iff)
  then have h: "hub (event_streams s') = ?h\<lparr>channels := map (\<lambda>(ch, c). if ch \<in> set (subscribers ?h) then send m c else c)
                                (zip [0..<length (channels ?h)] (channels ?h))\<rparr>"
    by (simp add: s' publish_all_def publish_def Let_def)
  have "buffer (channels (hub (event_streams s')) ! i) =
           (let b = buffer (channels ?h ! i) in if length b < 64 then b @ [m] else b)" if "i \<in> set (subscribers ?h)" for i
    using that assms(4) by (auto simp: h send_def subscriberBuffer_def Let_def list_all_iff)
  moreover have "wake (incident_worker s')" "message_files s' = st"
    by (simp_all add: s' publish_all_def Let_def Incident_Worker.Publish_def Wake_def)
  ultimately show ?thesis using m st(2) by simp
qed

definition on_arrival :: line_world where
  "on_arrival = \<lparr>gone = False, fresh_id = [], written = Written 5, clock = 9, inode = 1\<rparr>"

definition udp_listener :: Listener where
  "udp_listener = \<lparr>listening = \<lparr>UDPAddr = '':5514'', TCPAddr = [], Format = []\<rparr>, transport = ''udp''\<rparr>"

definition one_subscriber :: live_server where
  "one_subscriber = new_server\<lparr>hub := fst (Subscribe NewHub)\<rparr>"

theorem received_message_goes_everywhere_witness:
  "\<forall>lib W st w.
     let s' = consume lib W udp_listener [Parts [(''hostname'', P_string ''router'')] (Some ''ab'') on_arrival]
                \<lparr>message_files = st, event_streams = one_subscriber, incident_worker = w\<rparr>
     in wake (incident_worker s') \<and> map Hostname (buffer (channels (hub (event_streams s')) ! 0)) = [''router'']"
proof (intro allI)
  fix lib :: part_library and W st w
  let ?s = "\<lparr>message_files = st, event_streams = one_subscriber, incident_worker = w\<rparr>"
  have "buffer (channels (hub one_subscriber) ! 0) = []" "subscribers (hub one_subscriber) = [0]"
    "length (channels (hub one_subscriber)) = 1" "\<not> closed (channels (hub one_subscriber) ! 0)" by code_simp+
  then show "let s' = consume lib W udp_listener [Parts [(''hostname'', P_string ''router'')] (Some ''ab'') on_arrival] ?s
     in wake (incident_worker s') \<and> map Hostname (buffer (channels (hub (event_streams s')) ! 0)) = [''router'']"
    using received_message_goes_everywhere[of on_arrival 5 "Some ''ab''" ?s lib udp_listener "[(''hostname'', P_string ''router'')]" W]
    by (simp add: on_arrival_def messageFromParts_def stringify_part_def Let_def del: consume.simps)
qed

section \<open>A test event reads back\<close>

lemma join_split: "join [c] (split_on c s) = s"
proof (induction s)
  case (Cons x s)
  have "split_on c s \<noteq> []" by (induction s) (auto split: list.splits)
  then obtain y ys where ys: "split_on c s = y # ys" by (cases "split_on c s") auto
  with Cons show ?case by (cases ys) auto
qed simp

lemma token_word: "token s \<noteq> [] \<and> CHR '' '' \<notin> set (token s)"
  by (auto simp: token_def Let_def)

lemma dec_blank: "CHR '' '' \<notin> set (dec n)"
proof -
  have "\<not> is_digit CHR '' ''" by (simp add: is_digit_def)
  then show ?thesis using dec_nat_digits by (auto simp: dec_def list_all_iff)
qed

text \<open>C40: A test event is the syslog message it is meant to be. Its line begins with seven words: the priority
  (in the integers of Go) and version, the time, four names that are never empty and have no blanks, and the mark of absent structured data;
  and what follows them is the text of the event, blanks included, and the end of the line.\<close>

theorem test_event_reads_back:
  assumes "\<And>t. CHR '' '' \<notin> set (rfc3339 t)"
  shows "take 7 (split_on CHR '' '' (FormatRFC5424 p rfc3339 now e)) =
      [''<'' @ dec (go_int ((if EventFacility e < 0 then 1 else EventFacility e) * 8 + (if EventSeverity e < 0 then 5 else EventSeverity e))) @ ''>1'',
       rfc3339 (if EventTime e = 0 then now else EventTime e),
       token (or_else (EventHost e) (localHostname p)), token (or_else (EventApp e) ''logthing''),
       token (or_else (EventProc e) (dec (int (pid p)))), token (or_else (EventMsg e) ''test''), ''-'']
    \<and> join '' '' (drop 7 (split_on CHR '' '' (FormatRFC5424 p rfc3339 now e)))
        = or_else (EventText e) ''logthing test event'' @ [CHR 0x0A]"
proof -
  define pri where "pri = ''<'' @ dec (go_int ((if EventFacility e < 0 then 1 else EventFacility e) * 8 + (if EventSeverity e < 0 then 5 else EventSeverity e))) @ ''>1''"
  define t where "t = rfc3339 (if EventTime e = 0 then now else EventTime e)"
  define a where "a = token (or_else (EventHost e) (localHostname p))"
  define b where "b = token (or_else (EventApp e) ''logthing'')"
  define c where "c = token (or_else (EventProc e) (dec (int (pid p))))"
  define d where "d = token (or_else (EventMsg e) ''test'')"
  define r where "r = or_else (EventText e) ''logthing test event'' @ [CHR 0x0A]"
  have line: "FormatRFC5424 p rfc3339 now e = pri @ CHR '' '' # t @ CHR '' '' # a @ CHR '' '' # b @ CHR '' '' # c @ CHR '' '' # d
      @ CHR '' '' # ''-'' @ CHR '' '' # r"
    by (simp add: FormatRFC5424_def pri_def t_def a_def b_def c_def d_def r_def Let_def)
  have "CHR '' '' \<notin> set pri" by (simp add: pri_def dec_blank)
  moreover have "CHR '' '' \<notin> set t" using assms by (simp add: t_def)
  ultimately have "split_on CHR '' '' (FormatRFC5424 p rfc3339 now e) = [pri, t, a, b, c, d, ''-''] @ split_on CHR '' '' r"
    unfolding line by (simp add: split_on_append token_word a_def b_def c_def d_def del: append_Cons append_Nil)
  then show ?thesis
    using join_split[of "CHR '' ''" r] by (simp add: pri_def t_def a_def b_def c_def d_def r_def)
qed


definition sample_process :: process where
  "sample_process = \<lparr>host_name = Some ''log host'', pid = 42\<rparr>"

theorem test_event_reads_back_witness:
  "take 7 (split_on CHR '' '' (FormatRFC5424 sample_process (\<lambda>t. ''2026-01-02T03:04:05Z'') 7 (NewTestEvent sample_process 7 ''two words''))) =
      [''<13>1'', ''2026-01-02T03:04:05Z'', ''log_host'', ''logthing'', ''42'', ''test'', ''-'']"
proof -
  let ?e = "NewTestEvent sample_process 7 ''two words''"
  have "token (or_else (EventHost ?e) (localHostname sample_process)) = ''log_host''"
    "token (or_else (EventApp ?e) ''logthing'') = ''logthing''" "token (or_else (EventProc ?e) (dec (int (pid sample_process)))) = ''42''"
    "token (or_else (EventMsg ?e) ''test'') = ''test''" "EventFacility ?e = 1" "EventSeverity ?e = 5" "dec (go_int 13) = ''13''"
    by code_simp+
  then show ?thesis using test_event_reads_back[of "\<lambda>t. ''2026-01-02T03:04:05Z''" sample_process 7 ?e] by simp
qed

end
