(* ===== verification/Incident_Persistence.thy ===== *)
theory Incident_Persistence
  imports Incident_Service
begin

text \<open>
  \<open>internal/incidents/file_persistence.go\<close>: the snapshot as a file. Of the file system it has the file itself and
  the temporary one beside it; a save lists every state the two go through, since the process may die between any
  two operations. JSON is the parameters \<open>to_json\<close> and \<open>from_json\<close>. The name of the temporary file, which is new, and
  the modes are left out.
\<close>

section \<open>The operations\<close>

record files =
  target :: "string option"
  temporary :: "string option"

datatype save_error =
    SaveCancelled | NoDirectory | NotEncoded | NotCreated | NotSecured | NotWritten | NotSynced | NotClosed | NotReplaced

datatype load_error = LoadCancelled | NotRead | NotDecoded

text \<open>How the file system answers the operations of one save. A write may stop after some bytes.\<close>

datatype removal = Removed | Not_removed

record save_world =
  context_done :: bool
  mkdir_ok :: bool
  create_ok :: bool
  chmod_ok :: bool
  write_stops :: "nat option"
  sync_ok :: bool
  close_ok :: bool
  rename_ok :: bool
  removal_of :: removal
  second_rename_ok :: bool
  cleanup_ok :: bool

text \<open>Removing a file that is not there is no error.\<close>

definition replaceFile :: "save_world \<Rightarrow> files \<Rightarrow> files list \<times> bool" where
  "replaceFile fs d =
     (if rename_ok fs then ([\<lparr>target = temporary d, temporary = None\<rparr>], True)
      else if removal_of fs = Not_removed \<and> target d \<noteq> None then ([], False)
      else let d = d\<lparr>target := None\<rparr>
           in if second_rename_ok fs then ([d, \<lparr>target = temporary d, temporary = None\<rparr>], True) else ([d], False))"

text \<open>The deferred removal of the temporary file; its error is ignored.\<close>

definition cleanup :: "save_world \<Rightarrow> files \<Rightarrow> files" where
  "cleanup fs d = (if cleanup_ok fs then d\<lparr>temporary := None\<rparr> else d)"

definition tidy :: "save_world \<Rightarrow> files list \<Rightarrow> files list" where
  "tidy fs ds = ds @ [cleanup fs (last ds)]"

definition Save ::
  "(Snapshot \<Rightarrow> string option) \<Rightarrow> save_world \<Rightarrow> Snapshot \<Rightarrow> files \<Rightarrow> files list \<times> save_error option" where
  "Save to_json fs s d =
     (if context_done fs then ([d], Some SaveCancelled)
      else if \<not> mkdir_ok fs then ([d], Some NoDirectory)
      else (case to_json s of
              None \<Rightarrow> ([d], Some NotEncoded)
            | Some body \<Rightarrow>
                let data = body @ [CHR 0x0A]
                in if \<not> create_ok fs then ([d], Some NotCreated)
                   else let d1 = d\<lparr>temporary := Some []\<rparr>
                   in if \<not> chmod_ok fs then (tidy fs [d, d1], Some NotSecured)
                   else (case write_stops fs of
                           Some n \<Rightarrow> (tidy fs [d, d1, d\<lparr>temporary := Some (take n data)\<rparr>], Some NotWritten)
                         | None \<Rightarrow>
                             let d2 = d\<lparr>temporary := Some data\<rparr>
                             in if \<not> sync_ok fs then (tidy fs [d, d1, d2], Some NotSynced)
                                else if \<not> close_ok fs then (tidy fs [d, d1, d2], Some NotClosed)
                                else (case replaceFile fs d2 of
                                        (ds, True) \<Rightarrow> (tidy fs ([d, d1, d2] @ ds), None)
                                      | (ds, False) \<Rightarrow> (tidy fs ([d, d1, d2] @ ds), Some NotReplaced)))))"

text \<open>\<open>Snapshot{}\<close>.\<close>

definition zero_snapshot :: Snapshot where
  "zero_snapshot = empty_snapshot\<lparr>Version := 0\<rparr>"

datatype read_outcome = Readable | Unreadable | Done

definition LoadFile :: "(string \<Rightarrow> Snapshot option) \<Rightarrow> read_outcome \<Rightarrow> files \<Rightarrow> load_error + Snapshot" where
  "LoadFile from_json out d =
     (case out of
        Done \<Rightarrow> Inl LoadCancelled
      | Unreadable \<Rightarrow> Inl NotRead
      | Readable \<Rightarrow>
          (case target d of
             None \<Rightarrow> Inr zero_snapshot
           | Some data \<Rightarrow> (case from_json data of None \<Rightarrow> Inl NotDecoded | Some s \<Rightarrow> Inr s)))"

section \<open>Whole snapshots or none\<close>

lemma replace_targets:
  assumes "replaceFile fs d = (ds, ok)" "d' \<in> set ds"
  shows "target d' = temporary d \<or> target d' = None \<and> \<not> rename_ok fs"
  using assms by (auto simp: replaceFile_def Let_def split: if_splits)

lemma replace_result:
  "replaceFile fs d = (ds, True) \<Longrightarrow> ds \<noteq> [] \<and> target (last ds) = temporary d"
  "replaceFile fs d = (ds, False) \<Longrightarrow> \<not> rename_ok fs"
  by (auto simp: replaceFile_def Let_def split: if_splits)

lemma tidy_facts [simp]:
  "tidy fs ds \<noteq> []" "target (last (tidy fs ds)) = target (last ds)"
  "ds \<noteq> [] \<Longrightarrow> target ` set (tidy fs ds) = target ` set ds"
  by (auto simp: tidy_def cleanup_def)

lemma tidy_member: "x \<in> set (tidy fs ds) \<Longrightarrow> ds \<noteq> [] \<Longrightarrow> \<exists>y \<in> set ds. target x = target y"
  using tidy_facts(3)[of ds fs] by blast

lemma save_targets:
  assumes "Save to_json fs s d = (ds, err)"
  shows "target ` set ds \<subseteq> {target d} \<union> {Some (body @ [CHR 0x0A]) |body. to_json s = Some body}
       \<union> (if rename_ok fs then {} else {None})"
proof (cases "to_json s")
  case (Some body)
  let ?d = "d\<lparr>temporary := Some (body @ [CHR 0x0A])\<rparr>"
  obtain es ok where r: "replaceFile fs ?d = (es, ok)" by fastforce
  have replaced: "\<forall>y \<in> set es. target y = Some (body @ [CHR 0x0A]) \<or> target y = None \<and> \<not> rename_ok fs"
    using replace_targets[OF r] by simp
  show ?thesis
    using assms Some r replaced
    by (auto simp: Save_def Let_def dest!: tidy_member split: if_splits option.splits bool.splits)
qed (use assms in \<open>auto simp: Save_def split: if_splits\<close>)

lemma save_result:
  assumes "Save to_json fs s d = (ds, err)"
  shows "ds \<noteq> [] \<and> (err = None \<longrightarrow> (\<exists>body. to_json s = Some body \<and> target (last ds) = Some (body @ [CHR 0x0A])))
       \<and> (err \<noteq> None \<longrightarrow> rename_ok fs \<longrightarrow> target (last ds) = target d)"
proof (cases "to_json s")
  case (Some body)
  let ?d = "d\<lparr>temporary := Some (body @ [CHR 0x0A])\<rparr>"
  obtain es ok where r: "replaceFile fs ?d = (es, ok)" by fastforce
  show ?thesis
    using assms Some r replace_result[of fs ?d es]
    by (cases ok) (auto simp: Save_def Let_def split: if_splits option.splits)
qed (use assms in \<open>auto simp: Save_def split: if_splits\<close>)

section \<open>The file is the store of the service\<close>

text \<open>What is documented of JSON: a snapshot is read back from its text.\<close>

definition json_ok :: "(Snapshot \<Rightarrow> string option) \<Rightarrow> (string \<Rightarrow> Snapshot option) \<Rightarrow> bool" where
  "json_ok to_json from_json \<longleftrightarrow> (\<forall>s body. to_json s = Some body \<longrightarrow> from_json (body @ [CHR 0x0A]) = Some s)"

definition on_disk :: "(string \<Rightarrow> Snapshot option) \<Rightarrow> files \<Rightarrow> Snapshot option" where
  "on_disk from_json d = (case target d of None \<Rightarrow> None | Some data \<Rightarrow> from_json data)"

text \<open>C22: The file is what the service calls its store, until a rename fails. A save that succeeds, and one
  that fails although the rename would work, changes the file as \<open>saveLocked\<close> changes the store: to the new
  snapshot, or not at all. Whatever fails, a process that dies in the middle of a save leaves the old snapshot or the
  new one, never a part of one; only when the rename over the file fails, so that the file is removed before the
  second try, can it leave none.\<close>

theorem file_is_the_store:
  assumes "json_ok to_json from_json" "persistent sv" "on_disk from_json d = store sv"
    and "Save to_json fs (state sv) d = (ds, err)"
  shows "(rename_ok fs \<or> err = None \<longrightarrow>
            on_disk from_json (last ds) = store (fst (saveLocked (map_option describe err) sv)))
       \<and> on_disk from_json ` set ds \<subseteq> {store sv, Some (state sv)} \<union> (if rename_ok fs then {} else {None})"
proof -
  have new: "on_disk from_json d' = Some (state sv)"
    if "to_json (state sv) = Some body" "target d' = Some (body @ [CHR 0x0A])" for d' body
    using assms(1) that by (simp add: on_disk_def json_ok_def)
  have old: "on_disk from_json d' = store sv" if "target d' = target d" for d'
    using assms(3) that by (simp add: on_disk_def)
  have gone: "on_disk from_json d' = None" if "target d' = None" for d'
    using that by (simp add: on_disk_def)
  have "on_disk from_json d' \<in> {store sv, Some (state sv)} \<union> (if rename_ok fs then {} else {None})"
    if "d' \<in> set ds" for d'
    using save_targets[OF assms(4)] that new old gone by (auto simp: image_subset_iff split: if_splits)
  moreover have "on_disk from_json (last ds) = store (fst (saveLocked (map_option describe err) sv))"
    if "rename_ok fs \<or> err = None"
    using save_result[OF assms(4)] assms(2) that new old by (cases err) (auto simp: saveLocked_def)
  ultimately show ?thesis by blast
qed

definition smooth :: save_world where
  "smooth =
     \<lparr>context_done = False, mkdir_ok = True, create_ok = True, chmod_ok = True, write_stops = None, sync_ok = True,
      close_ok = True, rename_ok = True, removal_of = Removed, second_rename_ok = True, cleanup_ok = True\<rparr>"

text \<open>A JSON that knows two snapshots.\<close>

definition known_snapshot :: Snapshot where
  "known_snapshot = empty_snapshot\<lparr>Bootstrapped := True\<rparr>"

definition small_json :: "Snapshot \<Rightarrow> string option" where
  "small_json s = (if s = known_snapshot then Some ''new'' else if s = empty_snapshot then Some ''old'' else None)"

definition small_parse :: "string \<Rightarrow> Snapshot option" where
  "small_parse t = map_of [(''new'' @ [CHR 0x0A], known_snapshot), (''old'' @ [CHR 0x0A], empty_snapshot)] t"

lemma small_json_ok: "json_ok small_json small_parse"
  by (simp add: json_ok_def small_json_def small_parse_def)

definition half_saved :: Service where
  "half_saved =
     \<lparr>cfg = \<lparr>Interface = ''wan'', DownAfter = 60, RecoveredAfter = 30\<rparr>, persistent = True, state = known_snapshot,
      store = Some empty_snapshot\<rparr>"

theorem file_is_the_store_witness:
  "on_disk small_parse ` set (fst (Save small_json (smooth\<lparr>write_stops := Some 2\<rparr>) known_snapshot
       \<lparr>target = Some (''old'' @ [CHR 0x0A]), temporary = None\<rparr>)) \<subseteq> {Some empty_snapshot, Some known_snapshot}
   \<and> on_disk small_parse (last (fst (Save small_json (smooth\<lparr>rename_ok := False\<rparr>) known_snapshot
       \<lparr>target = Some (''old'' @ [CHR 0x0A]), temporary = None\<rparr>))) = Some known_snapshot"
proof -
  let ?d = "\<lparr>target = Some (''old'' @ [CHR 0x0A]), temporary = None\<rparr>"
  have sv: "persistent half_saved" "on_disk small_parse ?d = store half_saved" "state half_saved = known_snapshot"
      "store half_saved = Some empty_snapshot"
    by (simp_all add: half_saved_def on_disk_def small_parse_def)
  obtain ds err where cut: "Save small_json (smooth\<lparr>write_stops := Some 2\<rparr>) (state half_saved) ?d = (ds, err)" by fastforce
  obtain es err' where good: "Save small_json (smooth\<lparr>rename_ok := False\<rparr>) (state half_saved) ?d = (es, err')" by fastforce
  have "err' = None"
    using good by (simp add: Save_def smooth_def small_json_def sv(3) replaceFile_def tidy_def Let_def)
  moreover have "rename_ok (smooth\<lparr>write_stops := Some 2\<rparr>)" by (simp add: smooth_def)
  moreover note file_is_the_store[OF small_json_ok sv(1,2) cut] file_is_the_store[OF small_json_ok sv(1,2) good]
  ultimately show ?thesis
    using cut good sv(3,4) by (auto simp: saveLocked_def sv(1))
qed

text \<open>A failed replacement takes the saved state with it. When both renames fail but the removal between them
  works, \<open>Save\<close> reports an error and the last saved snapshot is gone: the next process finds no file, takes
  that for a first start, and begins with an empty state and no error.\<close>

theorem failed_replacement_loses_state:
  assumes "Save to_json fs s d = (ds, Some NotReplaced)" "removal_of fs = Removed"
    and "New c True found = Inr fresh"
  shows "LoadFile from_json Readable (last ds) = Inr zero_snapshot \<and> Load (Inr zero_snapshot) fresh = (fresh, None)
       \<and> state fresh = empty_snapshot"
proof -
  have "target (last ds) = None"
    using assms(1,2)
    by (auto simp: Save_def replaceFile_def Let_def split: if_splits option.splits)
  moreover have "persistent fresh" "state fresh = empty_snapshot"
    using assms(3) by (auto simp: New_def Let_def split: if_splits)
  ultimately show ?thesis
    by (simp add: LoadFile_def Load_def zero_snapshot_def)
qed

theorem failed_replacement_loses_state_witness:
  "snd (Save small_json (smooth\<lparr>rename_ok := False, second_rename_ok := False\<rparr>) known_snapshot
      \<lparr>target = Some (''old'' @ [CHR 0x0A]), temporary = None\<rparr>) = Some NotReplaced
   \<and> LoadFile small_parse Readable (last (fst (Save small_json (smooth\<lparr>rename_ok := False, second_rename_ok := False\<rparr>)
      known_snapshot \<lparr>target = Some (''old'' @ [CHR 0x0A]), temporary = None\<rparr>))) = Inr zero_snapshot"
proof -
  let ?fs = "smooth\<lparr>rename_ok := False, second_rename_ok := False\<rparr>"
  let ?d = "\<lparr>target = Some (''old'' @ [CHR 0x0A]), temporary = None\<rparr>"
  obtain ds err where s: "Save small_json ?fs known_snapshot ?d = (ds, err)" by fastforce
  then have "err = Some NotReplaced"
    by (simp add: Save_def smooth_def small_json_def replaceFile_def tidy_def Let_def)
  moreover have "removal_of ?fs = Removed" by (simp add: smooth_def)
  moreover obtain fresh where "New \<lparr>Interface = ''wan'', DownAfter = 60, RecoveredAfter = 30\<rparr> True None = Inr fresh"
    by (simp add: New_def)
  ultimately show ?thesis using failed_replacement_loses_state[of small_json ?fs known_snapshot ?d ds] s by auto
qed

end
