(* ===== verification/Server_Start.thy ===== *)
theory Server_Start
  imports Discord_Notifier Syslog_Messages Incident_Persistence
begin

text \<open>
  \<open>internal/config/config.go\<close> and \<open>run\<close> of \<open>cmd/server/main.go\<close>: the configuration from the
  environment, and the parts of the server made from it, in their order, up to the first error. Lower case,
  \<open>time.ParseDuration\<close> and \<open>url.Parse\<close> are parameters; so is what the system says to the directory and the sockets.
  The HTTP server's own start and the orderly end are left out.
\<close>

section \<open>The configuration\<close>

datatype NotifierKind = NotifierNone | NotifierDiscord | NotifierOther string

record ServerConfig =
  HTTPAddr :: string
  SyslogUDPAddr :: string
  SyslogTCPAddr :: string
  SyslogFormat :: string
  TestEventNetwork :: string
  TestEventTarget :: string
  DataDir :: string
  CfgUsername :: string
  CfgPassword :: string
  StateDir :: string
  WANInterface :: string
  WANDownAfter :: int
  WANRecoveredAfter :: int
  Notifier :: NotifierKind
  DiscordWebhookURL :: string
  PublicURL :: string

datatype config_error =
    Bad_duration string | Username_missing | Password_missing | Addresses_missing | State_dir_missing
  | Webhook_missing | Unsupported_notifier string

record environment =
  getenv :: "string \<Rightarrow> string option"
  parse_duration :: "string \<Rightarrow> int option"
  lower_case :: "string \<Rightarrow> string"

definition envDefault :: "environment \<Rightarrow> string \<Rightarrow> string \<Rightarrow> string" where
  "envDefault E name fallback = (case getenv E name of None \<Rightarrow> fallback | Some v \<Rightarrow> go_trim v)"

definition env_text :: "environment \<Rightarrow> string \<Rightarrow> string" where
  "env_text E name = (case getenv E name of None \<Rightarrow> [] | Some v \<Rightarrow> v)"

definition durationDefault :: "environment \<Rightarrow> string \<Rightarrow> int \<Rightarrow> config_error + int" where
  "durationDefault E name fallback =
     (let v = go_trim (env_text E name)
      in if v = [] then Inr fallback
         else (case parse_duration E v of
                 None \<Rightarrow> Inl (Bad_duration name)
               | Some d \<Rightarrow> if d \<le> 0 then Inl (Bad_duration name) else Inr d))"

text \<open>\<open>filepath.Dir\<close> and \<open>filepath.Join\<close> of two names.\<close>

definition dir_of :: "string \<Rightarrow> string" where
  "dir_of p = path_clean (rev (dropWhile (\<lambda>c. c \<noteq> CHR ''/'') (rev p)))"

definition join_paths :: "string \<Rightarrow> string \<Rightarrow> string" where
  "join_paths a b = (if a = [] \<and> b = [] then [] else if a = [] then path_clean b else if b = [] then path_clean a
                     else path_clean (a @ ''/'' @ b))"

definition notifier_kind :: "string \<Rightarrow> NotifierKind" where
  "notifier_kind s = (if s = ''none'' then NotifierNone else if s = ''discord'' then NotifierDiscord else NotifierOther s)"

definition read_config :: "environment \<Rightarrow> int \<Rightarrow> int \<Rightarrow> ServerConfig" where
  "read_config E downAfter recoveredAfter =
     (let udp = envDefault E ''LOGTHING_SYSLOG_UDP_ADDR'' '':5514''; tcp = envDefault E ''LOGTHING_SYSLOG_TCP_ADDR'' '':5514'';
          (net, target) = DefaultTestEventDestination udp tcp;
          dataDir = envDefault E ''LOGTHING_DATA_DIR'' ''data/messages''
      in \<lparr>HTTPAddr = envDefault E ''LOGTHING_HTTP_ADDR'' '':8080'', SyslogUDPAddr = udp, SyslogTCPAddr = tcp,
          SyslogFormat = envDefault E ''LOGTHING_SYSLOG_FORMAT'' ''automatic'',
          TestEventNetwork = envDefault E ''LOGTHING_TEST_EVENT_NETWORK'' net,
          TestEventTarget = envDefault E ''LOGTHING_TEST_EVENT_TARGET'' target, DataDir = dataDir,
          CfgUsername = go_trim (env_text E ''LOGTHING_USERNAME''), CfgPassword = env_text E ''LOGTHING_PASSWORD'',
          StateDir = envDefault E ''LOGTHING_STATE_DIR'' (join_paths (dir_of dataDir) ''state''),
          WANInterface = envDefault E ''LOGTHING_WAN_INTERFACE'' ''wan'', WANDownAfter = downAfter,
          WANRecoveredAfter = recoveredAfter,
          Notifier = notifier_kind (lower_case E (envDefault E ''LOGTHING_NOTIFIER'' ''none'')),
          DiscordWebhookURL = go_trim (env_text E ''LOGTHING_DISCORD_WEBHOOK_URL''),
          PublicURL = rev (dropWhile (\<lambda>c. c = CHR ''/'') (rev (go_trim (env_text E ''LOGTHING_PUBLIC_URL''))))\<rparr>)"

definition check_config :: "ServerConfig \<Rightarrow> config_error option" where
  "check_config c =
     (if CfgUsername c = [] then Some Username_missing
      else if CfgPassword c = [] then Some Password_missing
      else if SyslogUDPAddr c = [] \<and> SyslogTCPAddr c = [] then Some Addresses_missing
      else if StateDir c = [] then Some State_dir_missing
      else (case Notifier c of
              NotifierNone \<Rightarrow> None
            | NotifierDiscord \<Rightarrow> if DiscordWebhookURL c = [] then Some Webhook_missing else None
            | NotifierOther s \<Rightarrow> Some (Unsupported_notifier s)))"

definition FromEnv :: "environment \<Rightarrow> config_error + ServerConfig" where
  "FromEnv E =
     (case durationDefault E ''LOGTHING_WAN_DOWN_AFTER'' minute of
        Inl e \<Rightarrow> Inl e
      | Inr down \<Rightarrow>
          (case durationDefault E ''LOGTHING_WAN_RECOVERED_AFTER'' minute of
             Inl e \<Rightarrow> Inl e
           | Inr recovered \<Rightarrow>
               let c = read_config E down recovered
               in case check_config c of Some e \<Rightarrow> Inl e | None \<Rightarrow> Inr c))"

section \<open>Starting\<close>

datatype start_error =
    Config_failed config_error | Root_required | Root_not_created | Engine_failed engine_error
  | Notifier_failed discord_error | Router_failed router_error | Listener_failed listener_error

record surroundings =
  env :: environment
  root_created :: bool
  root_files :: FileStore
  state_loaded :: "string + Snapshot"
  state_store :: "Snapshot option"
  url_parser :: "string \<Rightarrow> webhook_url option"
  start_time :: time
  embedded_page :: "string \<Rightarrow> opened"
  embedded_swagger :: "string \<Rightarrow> opened"
  embedded_spec :: string
  build_id :: string
  udp_opens :: bool
  tcp_opens :: bool
  boots :: bool

definition open_store :: "surroundings \<Rightarrow> string \<Rightarrow> start_error + FileStore" where
  "open_store M dir =
     (if go_trim dir = [] then Inl Root_required
      else if \<not> root_created M then Inl Root_not_created else Inr (root_files M))"

text \<open>\<open>newNotifier\<close>: the webhook to post to, or nothing for the notifier that discards.\<close>

definition newNotifier :: "surroundings \<Rightarrow> ServerConfig \<Rightarrow> discord_error + DiscordNotifier option" where
  "newNotifier M c =
     (case Notifier c of
        NotifierDiscord \<Rightarrow> map_sum id Some (newDiscord (url_parser M) (DiscordWebhookURL c) (5 * 1000000000))
      | _ \<Rightarrow> Inr None)"

text \<open>\<open>newTestEventSender\<close>; the texts of the errors of \<open>NewSender\<close> are a parameter.\<close>

definition newTestEventSender ::
  "(string \<Rightarrow> string) \<Rightarrow> (sender_error \<Rightarrow> string) \<Rightarrow> process \<Rightarrow> (time \<Rightarrow> string) \<Rightarrow> time \<Rightarrow> (string \<Rightarrow> string option)
   \<Rightarrow> ServerConfig \<Rightarrow> string \<Rightarrow> string + TestEventResult" where
  "newTestEventSender to_lower error_text p rfc3339 now write c message =
     (case NewSender to_lower (TestEventNetwork c) (TestEventTarget c) (5 * 1000000000) of
        Inl e \<Rightarrow> Inl (error_text e)
      | Inr sender \<Rightarrow> send_event write sender (FormatRFC5424 p rfc3339 now (NewTestEvent p now message)))"

record running =
  settings_of :: settings
  initial_server :: server
  listener_of :: Listener
  posts_to :: "DiscordNotifier option"

definition run_server :: "surroundings \<Rightarrow> start_error + running" where
  "run_server M =
     (case FromEnv (env M) of
        Inl e \<Rightarrow> Inl (Config_failed e)
      | Inr c \<Rightarrow>
     (case open_store M (DataDir c) of
        Inl e \<Rightarrow> Inl e
      | Inr st \<Rightarrow>
     (case New \<lparr>Interface = WANInterface c, DownAfter = WANDownAfter c, RecoveredAfter = WANRecoveredAfter c\<rparr>
             True (state_store M) of
        Inl e \<Rightarrow> Inl (Engine_failed e)
      | Inr fresh \<Rightarrow>
     (case Load (state_loaded M) fresh of
        (sv, Some e) \<Rightarrow> Inl (Engine_failed e)
      | (sv, None) \<Rightarrow>
     (case newNotifier M c of
        Inl e \<Rightarrow> Inl (Notifier_failed e)
      | Inr hook \<Rightarrow>
          let w = NewWorker sv (hook = None) (start_time M) [PublicURL c]
          in (case NewRouter True True True True
                     \<lparr>frontend_files = Some (embedded_page M), swagger_files = Some (embedded_swagger M),
                      spec_bytes = embedded_spec M, sign_in = \<lparr>Username = CfgUsername c, Password = CfgPassword c\<rparr>,
                      build = build_id M\<rparr> of
                Inl e \<Rightarrow> Inl (Router_failed e)
              | Inr se \<Rightarrow>
                  (case NewListener \<lparr>UDPAddr = SyslogUDPAddr c, TCPAddr = SyslogTCPAddr c, Format = SyslogFormat c\<rparr> of
                     Inl e \<Rightarrow> Inl (Listener_failed e)
                   | Inr l \<Rightarrow>
                       (case Start (udp_opens M) (tcp_opens M) (boots M) l of
                          Some e \<Rightarrow> Inl (Listener_failed e)
                        | None \<Rightarrow>
                            Inr \<lparr>settings_of = se,
                                 initial_server = \<lparr>message_files = st, event_streams = new_server, incident_worker = w\<rparr>,
                                 listener_of = l, posts_to = hook\<rparr>))))))))"


section \<open>What an accepted configuration gives\<close>

lemma duration_positive: "durationDefault E name minute = Inr d \<Longrightarrow> 0 < d"
  by (auto simp: durationDefault_def minute_def Let_def split: if_splits option.splits)

lemma accepted:
  assumes "FromEnv E = Inr c"
  shows "0 < WANDownAfter c" "0 < WANRecoveredAfter c" "CfgUsername c \<noteq> []" "CfgPassword c \<noteq> []"
    "SyslogUDPAddr c \<noteq> [] \<or> SyslogTCPAddr c \<noteq> []" "check_config c = None"
proof -
  obtain down recovered where d: "durationDefault E ''LOGTHING_WAN_DOWN_AFTER'' minute = Inr down"
      "durationDefault E ''LOGTHING_WAN_RECOVERED_AFTER'' minute = Inr recovered" "c = read_config E down recovered"
      and ok: "check_config c = None"
    using assms by (auto simp: FromEnv_def Let_def split: sum.splits option.splits)
  show "0 < WANDownAfter c" "0 < WANRecoveredAfter c"
    using duration_positive[OF d(1)] duration_positive[OF d(2)] by (simp_all add: d(3) read_config_def Let_def split_beta)
  show "CfgUsername c \<noteq> []" "CfgPassword c \<noteq> []" "SyslogUDPAddr c \<noteq> [] \<or> SyslogTCPAddr c \<noteq> []" "check_config c = None"
    using ok by (auto simp: check_config_def split: if_splits)
qed

text \<open>C20: What the configuration has accepted is not refused later. With an accepted configuration the server starts
  exactly if the data directory is named and can be made, the saved state can be read, a webhook that is asked for is an
  address by HTTPS, the specification is there, and the sockets open; name, password, durations and addresses do
  not fail again. A server that starts without a saved state begins where the properties of worker, service and
  streams begin: an empty service with the configured thresholds, no stream, nothing applied; and it lets in the
  configured pair.\<close>

theorem accepted_configuration_starts:
  assumes "FromEnv (env M) = Inr c"
  shows "((\<exists>sys. run_server M = Inr sys) \<longleftrightarrow>
       go_trim (DataDir c) \<noteq> [] \<and> root_created M
       \<and> (case state_loaded M of Inl e \<Rightarrow> False | Inr s \<Rightarrow> Version s = 0 \<or> Version s = 1)
       \<and> (Notifier c = NotifierDiscord \<longrightarrow>
            (\<exists>u. url_parser M (go_trim (DiscordWebhookURL c)) = Some u \<and> Scheme u = ''https'' \<and> Host u \<noteq> []))
       \<and> embedded_spec M \<noteq> []
       \<and> (SyslogUDPAddr c \<noteq> [] \<longrightarrow> udp_opens M) \<and> (SyslogTCPAddr c \<noteq> [] \<longrightarrow> tcp_opens M) \<and> boots M)
    \<and> (\<forall>sys. run_server M = Inr sys \<and> state_loaded M = Inr zero_snapshot \<and> state_store M = None \<longrightarrow>
         watch_start (new_watch (incident_worker (initial_server sys))) \<and> event_streams (initial_server sys) = new_server
         \<and> Auth (settings_of sys) = \<lparr>username = CfgUsername c, password = CfgPassword c\<rparr>
         \<and> (DownAfter (cfg (engine (incident_worker (initial_server sys)))),
            RecoveredAfter (cfg (engine (incident_worker (initial_server sys))))) = (WANDownAfter c, WANRecoveredAfter c))"
proof -
  note ok = accepted[OF assms]
  let ?c = "\<lparr>Interface = WANInterface c, DownAfter = WANDownAfter c, RecoveredAfter = WANRecoveredAfter c\<rparr>"
  obtain fresh where fresh: "New ?c True (state_store M) = Inr fresh"
    "cfg fresh = (if WANInterface c = [] then ?c\<lparr>Interface := ''wan''\<rparr> else ?c)" "persistent fresh"
    using ok(1,2) by (cases "WANInterface c = []") (auto simp: New_def Let_def)
  have load: "snd (Load (state_loaded M) fresh) = None \<longleftrightarrow>
      (case state_loaded M of Inl e \<Rightarrow> False | Inr s \<Rightarrow> Version s = 0 \<or> Version s = 1)"
    using fresh(3) by (auto simp: Load_def Let_def split: sum.split)
  have auth: "newBasicAuth \<lparr>Username = CfgUsername c, Password = CfgPassword c\<rparr> = Inr \<lparr>username = CfgUsername c, password = CfgPassword c\<rparr>"
    using ok(3,4) by (simp add: newBasicAuth_def)
  have hook: "(\<exists>h. newNotifier M c = Inr h) \<longleftrightarrow> (Notifier c = NotifierDiscord \<longrightarrow>
            (\<exists>u. url_parser M (go_trim (DiscordWebhookURL c)) = Some u \<and> Scheme u = ''https'' \<and> Host u \<noteq> []))"
    by (auto simp: newNotifier_def newDiscord_def split: NotifierKind.split option.splits if_splits)
  have "(\<exists>sys. run_server M = Inr sys) \<longleftrightarrow> (\<exists>st. open_store M (DataDir c) = Inr st) \<and> snd (Load (state_loaded M) fresh) = None
      \<and> (\<exists>h. newNotifier M c = Inr h) \<and> embedded_spec M \<noteq> []
      \<and> (SyslogUDPAddr c \<noteq> [] \<longrightarrow> udp_opens M) \<and> (SyslogTCPAddr c \<noteq> [] \<longrightarrow> tcp_opens M) \<and> boots M"
    using ok(5) fresh(1) auth
    by (auto simp: run_server_def assms NewRouter_def NewListener_def Start_def Let_def split: sum.splits option.splits prod.splits if_splits)
  moreover have "(\<exists>st. open_store M (DataDir c) = Inr st) \<longleftrightarrow> go_trim (DataDir c) \<noteq> [] \<and> root_created M"
    by (simp add: open_store_def)
  ultimately have "(\<exists>sys. run_server M = Inr sys) \<longleftrightarrow> go_trim (DataDir c) \<noteq> [] \<and> root_created M
       \<and> (case state_loaded M of Inl e \<Rightarrow> False | Inr s \<Rightarrow> Version s = 0 \<or> Version s = 1)
       \<and> (Notifier c = NotifierDiscord \<longrightarrow>
            (\<exists>u. url_parser M (go_trim (DiscordWebhookURL c)) = Some u \<and> Scheme u = ''https'' \<and> Host u \<noteq> []))
       \<and> embedded_spec M \<noteq> []
       \<and> (SyslogUDPAddr c \<noteq> [] \<longrightarrow> udp_opens M) \<and> (SyslogTCPAddr c \<noteq> [] \<longrightarrow> tcp_opens M) \<and> boots M"
    unfolding load hook by simp
  moreover have "watch_start (new_watch (incident_worker (initial_server sys))) \<and> event_streams (initial_server sys) = new_server
         \<and> Auth (settings_of sys) = \<lparr>username = CfgUsername c, password = CfgPassword c\<rparr>
         \<and> (DownAfter (cfg (engine (incident_worker (initial_server sys)))),
            RecoveredAfter (cfg (engine (incident_worker (initial_server sys))))) = (WANDownAfter c, WANRecoveredAfter c)"
    if run: "run_server M = Inr sys" "state_loaded M = Inr zero_snapshot" "state_store M = None" for sys
  proof -
    have "Load (state_loaded M) fresh = (fresh, None)"
      using fresh(3) that(2) by (simp add: Load_def zero_snapshot_def)
    then obtain d where w: "incident_worker (initial_server sys) = NewWorker fresh d (start_time M) [PublicURL c]"
        "event_streams (initial_server sys) = new_server" "Auth (settings_of sys) = \<lparr>username = CfgUsername c, password = CfgPassword c\<rparr>"
      using run(1) fresh(1) auth
      by (auto simp: run_server_def assms NewRouter_def Let_def split: sum.splits option.splits if_splits)
    have "first_start fresh" using fresh(1) that(3) by (auto simp: first_start_def)
    then have "watch_start (new_watch (incident_worker (initial_server sys)))"
      unfolding watch_start_def w(1) by blast
    moreover have "engine (incident_worker (initial_server sys)) = fresh" by (simp add: w(1) NewWorker_def)
    ultimately show ?thesis using fresh(2) w(2,3) by simp
  qed
  ultimately show ?thesis by blast
qed


definition sample_environment :: environment where
  "sample_environment =
     \<lparr>getenv = map_of [(''LOGTHING_USERNAME'', '' admin ''), (''LOGTHING_PASSWORD'', ''a:b''), (''LOGTHING_WAN_DOWN_AFTER'', ''30s'')],
      parse_duration = \<lambda>s. if s = ''30s'' then Some (30 * 1000000000) else None, lower_case = id\<rparr>"

definition sample_surroundings :: surroundings where
  "sample_surroundings =
     \<lparr>env = sample_environment, root_created = True, root_files = NewFileStore, state_loaded = Inr zero_snapshot,
      state_store = None, url_parser = (\<lambda>_. None), start_time = 50, embedded_page = (\<lambda>_. Not_there),
      embedded_swagger = (\<lambda>_. Not_there), embedded_spec = ''{}'', build_id = ''7'', udp_opens = True, tcp_opens = True,
      boots = True\<rparr>"

theorem accepted_configuration_starts_witness:
  "\<exists>sys. run_server sample_surroundings = Inr sys \<and> watch_start (new_watch (incident_worker (initial_server sys)))
     \<and> DownAfter (cfg (engine (incident_worker (initial_server sys)))) = 30 * 1000000000"
proof -
  obtain c where c: "FromEnv sample_environment = Inr c" "WANDownAfter c = 30 * 1000000000" "Notifier c = NotifierNone"
      "go_trim (DataDir c) \<noteq> []"
  proof -
    have "case FromEnv sample_environment of Inl e \<Rightarrow> False
        | Inr c \<Rightarrow> WANDownAfter c = 30 * 1000000000 \<and> Notifier c = NotifierNone \<and> go_trim (DataDir c) \<noteq> []"
      by code_simp
    then show thesis using that by (auto split: sum.splits)
  qed
  have "env sample_surroundings = sample_environment" "state_loaded sample_surroundings = Inr zero_snapshot"
      "state_store sample_surroundings = None"
    by (simp_all add: sample_surroundings_def)
  then show ?thesis
    using accepted_configuration_starts[of sample_surroundings c] c
    by (auto simp: sample_surroundings_def zero_snapshot_def)
qed

end
