(* ===== verification/Webhook_Secret.thy ===== *)
theory Webhook_Secret
  imports Discord_Notifier Outage_Page
begin

text \<open>
  The notifier's contract with what keeps and shows its errors: the service, its store, and the page.
\<close>

section \<open>Texts that tell nothing of the address\<close>

definition hides :: "webhook_url \<Rightarrow> string \<Rightarrow> bool" where
  "hides u t \<longleftrightarrow> (\<forall>x \<in> set (secrets u). telling x \<longrightarrow> \<not> sublist x t)"

lemma hides_Nil: "hides u []"
  by (auto simp: hides_def telling_def)

lemma hides_not_found: "hides u ''incident not found''"
proof -
  have words: "''incident not found'' = ''incident'' @ CHR '' '' # ''not'' @ CHR '' '' # ''found''" by simp
  have "\<not> sublist x ''incident not found''" if "telling x" for x
    unfolding words using telling_words[OF that] by (simp del: append.simps)
  then show ?thesis by (simp add: hides_def)
qed

lemma hides_discord:
  "http_statuses network \<Longrightarrow> discord_send fu id_of network u m = NotDelivered what e \<Longrightarrow> hides u what"
  using webhook_stays_secret by (auto simp: hides_def)

interpretation hushed: delivery_law "\<lambda>j. hides u (JobLastError j)" "hides u" for u
  by unfold_locales (simp_all add: new_job_def sent_job_def failed_job_def hides_Nil)

section \<open>From the notifier to the page\<close>

text \<open>Every pass of the event answers as the notifier of \<open>u\<close> does, whatever its network does.\<close>

definition posts_to :: "float_unit \<Rightarrow> (string \<Rightarrow> string option) \<Rightarrow> webhook_url \<Rightarrow> watch_event \<Rightarrow> bool" where
  "posts_to fu id_of u ev \<longleftrightarrow>
     (\<forall>p \<in> set (passes ev). \<exists>network. http_statuses network \<and> Pass.Answer p = discord_send fu id_of network u)"

lemma posts_hide: "posts_to fu id_of u ev \<Longrightarrow> list_all (pass_tells (hides u)) (passes ev)"
  by (auto simp: posts_to_def list_all_iff pass_tells_def dest!: bspec intro: hides_discord)

lemma shown_delivery:
  assumes "visits_all jobs" "listed_incidents written ord jobs refusal sv c = Inr r" "i \<in> set (incidents_data r)"
    and "d \<in> set (deliveries i)"
  obtains x where "x \<in> set (Jobs (Service.state sv))" "d = wire_delivery written (snd x)"
proof -
  obtain inc where "i = wire_incident written (response_of jobs sv inc)"
    using listed_incidents_are[of written ord jobs refusal sv c] assms(2,3) by (auto dest!: in_set_takeD)
  then obtain j where j: "d = wire_delivery written j" "j \<in> set (NotificationsFor jobs (IncID inc) sv)"
    using assms(4) by (auto simp: wire_incident_def response_of_def Let_def)
  then obtain x where "x \<in> set (jobs (Jobs (Service.state sv)))" "snd x = j" by (auto simp: NotificationsFor_def)
  with j visits_set[OF assms(1)] show ?thesis by (auto intro: that)
qed

text \<open>C18: The notifier's secrets are in no error. The secrets are the whole address of the webhook, its path
  (as written and decoded), its query, and each whole segment of its path. Whatever goes wrong with the requests of a
  worker that posts to the address, the error of a delivery that the store keeps and every page shows contains none
  of those secrets that has eight characters or more and cannot be mistaken for the program's own words, even when
  the library's error quotes it, and however the worker is woken, rebuilt and restarted. (The host, and a proper part
  of a segment, are no secrets of the notifier, and an error may quote them.)\<close>

theorem webhook_is_never_shown:
  fixes W :: World
  assumes "watch_start s" "\<forall>ev \<in> set es. posts_to fu id_of u ev" "visits_all jobs"
    and "x \<in> set (secrets u)" "telling x"
  defines "sv \<equiv> engine (watched (run (watch_step W) es s))"
  shows "(\<forall>snap n j. Service.store sv = Some snap \<and> (n, j) \<in> set (Jobs snap) \<longrightarrow> \<not> sublist x (JobLastError j))
    \<and> (\<forall>c r i d what. listed_incidents written ord jobs refusal sv c = Inr r \<and> i \<in> set (incidents_data r)
         \<and> d \<in> set (deliveries i) \<and> last_error d = Some what \<longrightarrow> \<not> sublist x what)"
proof -
  have kept: "all_states (each_job (\<lambda>j. hides u (JobLastError j))) sv"
    unfolding sv_def by (rule hushed.watched_law[OF assms(1)]) (use assms(2) posts_hide hides_not_found in blast)+
  then have clean: "each_job (\<lambda>j. hides u (JobLastError j)) (Service.state sv)" by (simp add: all_states_def)
  have quiet: "hides u t \<Longrightarrow> \<not> sublist x t" for t using assms(4,5) by (simp add: hides_def)
  have "\<not> sublist x what" if shown: "listed_incidents written ord jobs refusal sv c = Inr r" "i \<in> set (incidents_data r)"
      "d \<in> set (deliveries i)" "last_error d = Some what" for c r i d what
  proof -
    obtain y where y: "y \<in> set (Jobs (Service.state sv))" "d = wire_delivery written (snd y)"
      using shown_delivery[OF assms(3) shown(1-3)] .
    with shown(4) have "what = JobLastError (snd y)" by (auto simp: wire_delivery_def omit_empty_def split: if_splits)
    then show ?thesis using clean y(1) quiet by (simp add: each_job_def)
  qed
  then show ?thesis using kept quiet by (fastforce simp: all_states_def each_job_def)
qed

text \<open>A pass whose request fails with an error that quotes the address.\<close>

definition refused :: "discord_request \<Rightarrow> discord_answer" where
  "refused q = discord_answer.Failed (Other_failure ''dial abcdefghij: refused'')"

definition refused_pass :: "string \<Rightarrow> Pass" where
  "refused_pass b = (found b)\<lparr>Pass.Answer := discord_send sample_floats (\<lambda>_. None) refused sample_webhook\<rparr>"

definition refused_watch :: watch where
  "refused_watch =
     watch_run [Event (Started False 110 (refused_pass (take 2 log_bytes))), Event (Second 170 (refused_pass [])), Restarted 180]"

theorem webhook_is_never_shown_witness:
  "map (\<lambda>x. JobLastError (snd x)) (Jobs (Service.state (engine (watched refused_watch))))
     = [''send Discord notification: dial [redacted]: refused'']
   \<and> (\<nexists>c r i d what. listed_incidents dec listed id ''refused'' (engine (watched refused_watch)) c = Inr r
        \<and> i \<in> set (incidents_data r) \<and> d \<in> set (deliveries i) \<and> last_error d = Some what
        \<and> sublist ''abcdefghij'' what)"
proof
  show "map (\<lambda>x. JobLastError (snd x)) (Jobs (Service.state (engine (watched refused_watch))))
     = [''send Discord notification: dial [redacted]: refused'']" by code_simp
  have secret: "''abcdefghij'' \<in> set (secrets sample_webhook)" "telling ''abcdefghij''" by code_simp+
  have "http_statuses refused" by (simp add: http_statuses_def refused_def)
  then have posts: "\<forall>ev \<in> set [Event (Started False 110 (refused_pass (take 2 log_bytes))), Event (Second 170 (refused_pass [])),
      Restarted 180]. posts_to sample_floats (\<lambda>_. None) sample_webhook ev"
    by (auto simp: posts_to_def refused_pass_def)
  have "visits_all id" by (simp add: visits_all_def)
  then show "\<nexists>c r i d what. listed_incidents dec listed id ''refused'' (engine (watched refused_watch)) c = Inr r
        \<and> i \<in> set (incidents_data r) \<and> d \<in> set (deliveries i) \<and> last_error d = Some what
        \<and> sublist ''abcdefghij'' what"
    using webhook_is_never_shown[OF first_watch_start posts _ secret]
    unfolding refused_watch_def watch_run_def by blast
qed

end
