(* ===== verification/Spec2Isabelle.thy ===== *)
theory Spec2Isabelle
  imports App_Properties Client_Properties Outage_Page Realtime_Hub Message_Path Store_Failures Worker_Delivery
    Worker_Rebuild Export_Import Router_Properties Server_Start Webhook_Secret
begin

text \<open>
  Logthing collects syslog messages, shows them in a browser, and turns what routers report about their uplinks
  into incidents and notifications. This development models its browser application
  (\<open>frontend/src\<close>: \<open>App.tsx\<close>, \<open>api.ts\<close>, \<open>types.ts\<close>) and, of the server, the message store with its
  reader, the real-time hub, the router with all its handlers, the import, authentication, the incident service
  with its worker, its state file and the Discord notifier, the syslog listener and sender, the configuration and
  the start of the server.

  How the parts work together. \<open>cmd/server/main.go\<close> makes the parts from the configuration
  (\<open>internal/config\<close>). A listener (\<open>internal/syslog/listener.go\<close>) gives a message to the publishing store
  (\<open>internal/realtime/hub.go\<close>), which appends it to the file store (\<open>internal/storage\<close>) and publishes it
  to the event streams and to the worker. The worker (\<open>internal/incidents/worker.go\<close>) asks the append reader
  (\<open>internal/storage/append_reader.go\<close>) for what was written since its cursor and hands it to the incident
  service (\<open>internal/incidents/engine.go\<close>), which classifies the messages, keeps trackers, incidents and
  notification jobs, and saves itself and the cursor through its state store
  (\<open>internal/incidents/file_persistence.go\<close>); then the worker delivers the jobs that are due
  (\<open>internal/notification/discord.go\<close>). The router
  (\<open>internal/api/router.go\<close>) answers the page's requests from store and service, imports uploaded messages
  and runs the streams, behind basic authentication. The page asks for messages and incidents, follows the event
  stream, and renders.

  Theories, in the order they build on each other.

  \<^item> \<open>Prelude\<close>: text as UTF-8 bytes, decimal numerals and \<open>strconv.Atoi\<close>, trimming as JavaScript and Go do it,
    sorting. \<open>Url_Form\<close>: \<open>URLSearchParams\<close> and Go's reading of a query string, and that the second
    inverts the first. \<open>Js_Array\<close>: the array operations, \<open>sort\<close> under the locale \<open>js_comparator\<close>.
    \<open>Json_Text\<close>: \<open>JSON.stringify\<close>. \<open>Machine\<close>: reachability, and the locales \<open>invariant_machine\<close> (an
    invariant kept by every allowed event) and \<open>quiet_loop\<close> (a loop that runs until nothing is to do).
  \<^item> \<open>Wire_Types\<close> is \<open>types.ts\<close>, interface by interface. \<open>Api_Client\<close> is \<open>api.ts\<close>: each function is the
    request it sends and what its promise settles to for any outcome of the network; the locales
    \<open>fetch_client\<close> and \<open>signed_in_client\<close> state what the page relies on.
  \<^item> \<open>Timeline\<close> is the helpers at the end of \<open>App.tsx\<close>. \<open>App_Model\<close> is the state of \<open>App\<close> with its effects
    in their order and React's loop of renders and effects; \<open>App_Handlers\<close> is every callback, listener and
    continuation, and the step relation of the page; \<open>App_View\<close> is what is rendered.
    \<open>App_Effects\<close>, \<open>App_Invariants\<close> and \<open>App_Properties\<close> hold the lemmas and properties of the page,
    \<open>Client_Properties\<close> those of the client functions, the helpers and the rendered pages.
  \<^item> \<open>Incident_Classify\<close> is \<open>model/message.go\<close> and \<open>classify\<close>; \<open>Incident_Engine\<close> is the state and the
    unexported operations of \<open>engine.go\<close> (\<open>observeLocked\<close>, \<open>advanceLocked\<close> and what they call);
    \<open>Incident_Service\<close> is its exported operations. \<open>Engine_Invariants\<close> has the invariants,
    \<open>Incident_Machine\<close> the service as a machine, \<open>Engine_Properties\<close> and \<open>Service_Properties\<close> the properties.
  \<^item> \<open>Message_Store\<close> is \<open>Append\<close>, the index and \<open>Query\<close> of \<open>internal/storage\<close>; \<open>Message_Path\<close> is the
    choice of the file. \<open>Store_Query\<close> proves the indexed query equal to a scan of all messages.
    \<open>Append_Reader\<close> is the reader with its cursors, as the file store and any reader of it step by step;
    \<open>Store_Failures\<close> is what a write that stops half way leaves behind.
  \<^item> \<open>Incident_Persistence\<close> is the state file: the directory with its temporary file, \<open>Load\<close>, \<open>Save\<close>
    and \<open>replaceFile\<close>, the states between their system calls included.
  \<^item> \<open>Notifications\<close> is the notification built for a job and the delay before the next attempt;
    \<open>Incident_Worker\<close> is the worker: a pass with every error path, the rebuild after a file was replaced, the
    delivery of a job.
  \<^item> \<open>Job_Laws\<close> is the service with every call a client can make of it (\<open>service_step\<close>: evidence, ticks, outcomes of
    deliveries, rebuilds, and new processes that load what was saved), and the locales \<open>job_law\<close> and
    \<open>delivery_law\<close>, under which a law of notification jobs survives every call. \<open>Service_Calls\<close> has what such calls
    never undo, \<open>Service_History\<close> writes a state as what its observations, ticks, deliveries and checkpoints make of
    the empty one.
  \<^item> \<open>Worker_Properties\<close> runs the worker as a machine with appended messages, passes at any time and restarts, and
    relates its state to that history and its passes to those calls; \<open>Worker_Delivery\<close> looks at the jobs and
    \<open>Worker_Rebuild\<close> at rebuilds and imports.
  \<^item> \<open>Basic_Auth\<close> is \<open>auth.go\<close>, with Go's decoding of the header. \<open>Message_Import\<close> is \<open>import.go\<close> and
    its handler, \<open>Export_Import\<close> feeds it a line that the page exported.
  \<^item> \<open>Message_Api\<close> is the handlers of messages and incidents in \<open>router.go\<close>. \<open>Api_Properties\<close> follows a request
    for messages from the browser to the files, \<open>Outage_Page\<close> the incidents from the service to the table.
  \<^item> \<open>Realtime_Hub\<close> is the hub, the publishing store and the loop of an event stream.
  \<^item> \<open>Http_Mux\<close> is what the router uses of Go: \<open>path.Clean\<close> and \<open>http.ServeMux\<close>. \<open>Http_Router\<close> is
    \<open>NewRouter\<close> and the handlers not named above, over the server's whole state; \<open>Router_Properties\<close> follows the
    requests of the client functions and of strangers through it.
  \<^item> \<open>Discord_Notifier\<close> is \<open>discord.go\<close>, with the worker's delivery on top; \<open>Webhook_Secret\<close> follows
    what it says of a failure through the worker, the store and the handler to the page. \<open>Syslog_Messages\<close> is
    \<open>listener.go\<close> from the parsed parts on, and \<open>sender.go\<close>. \<open>Server_Start\<close> is \<open>config.go\<close> and \<open>run\<close> of
    \<open>main.go\<close> up to the started listener.

  What the groups of properties show. The page: the event source is open exactly when it should be and for the right query, the one live
  request is for what is shown, live updates are a refinement of asking again, effects settle, and some behaviours
  that are defects are proved as such. The client: requests read back, errors settle, the helpers
  keep order and lose nothing. The engine: one open incident for each interface, timelines, a reason for every
  notification of a service that is not rebuilt and only one of a kind for an incident (escalations: one for each
  outage of the primary), a clock loop that ends and says whether anything was due, independence from how often it
  ticks, replay, and that a recorded delivery is not due again under any later calls, while rebuilds find its incident. The
  store: the query is a plain scan; a sender cannot choose a path; the reader hands out every record once and in
  order; a torn record fails every query that meets it. The worker: while files only grow and with restarts at any point, the service is
  what the observation of every stored message of evidence, each once, makes of the empty one; whatever happens, it is
  reached by calls of the exported operations; a tick whose saves succeed leaves no job due; a rebuild keeps and does
  not repeat what was sent of the incidents that it finds again, and a rebuild or an import announces nothing new but
  for incidents that wanted notifications before.
  The state file: at every moment of a save one can load the old or the new state, unless the rename over the file
  fails, when a process that dies may leave none. Authentication: the configured pair passes and no other. The import: what was read before an error
  stays, messages are well formed, an exported message loses its host. The router: a stranger learns and changes
  nothing, every request of the page reaches its handler, the page is served from valid names only. The notifier: its
  text fits, the address, its path, its query and the whole segments of its path are in no error of the store and the
  page if they are eight characters or longer (a host or a part of a segment may be), the answer decides what becomes
  of a job. Listener and start: a
  received message goes to file, streams and worker; a test event reads back; an accepted configuration starts the
  server in the initial states of the machines. The stream: in order, without repetition and,
  while its buffer has room, without a gap between list and stream. Across parts: what the page asks for is what it
  gets, and the newest hundred active and the newest hundred unconfirmed incidents are in its table, which are all of
  them if there are no more.

  Bounds. \<open>settle\<close> runs the effects four times; \<open>App_Effects\<close> proves that no effect is left to run
  then, from any state. \<open>advanceLocked\<close> runs as many rounds as there are pending trackers; each round takes
  one tracker out of a pending phase, so nothing is due afterwards. \<open>query_loop\<close> and \<open>clean_runes\<close> are
  total by a measure. Go's integers are unbounded here, but for the priority of a test event, which wraps
  (\<open>go_int\<close>); the limits and offsets that are parsed are bounded by \<open>Atoi\<close>. Instants are nanoseconds as integers, zero being Go's zero time.

  Parameters, for code that is not in the repository. Of the browser: \<open>host_env\<close>, the measured page, the
  collation and the date parser. Of Go: the order in which a map is visited (\<open>range_order\<close>, \<open>job_order\<close>), of
  which only that every entry is visited once is assumed; the digest of an incident's name (\<open>mk\<close>, assumed
  injective where it matters); the JSON codec of stored lines (\<open>codec\<close>, assumed to write one line that reads
  back); lower case, regular expressions and the JSON text of a map (\<open>text_library\<close>); \<open>time.Parse\<close>,
  \<open>time.ParseDuration\<close>, \<open>url.Parse\<close>, \<open>strconv.ParseFloat\<close> with double arithmetic, and the calendar. Of
  libraries outside the repository: what the syslog parser found, as named values. Saves and writes succeed or fail as an argument of the step says. A part of a record that
  was written before an error, and files changed by others, are outside what the query property covers.

  Not modelled. The syslog parser with its wrapper for local time, the channel and the sockets, which are a library;
  the loop of the HTTP server and the orderly shutdown in \<open>main.go\<close>, and the command \<open>syslogsend\<close>, which only
  calls the sender; logging, most headers and the conditional and partial requests that \<open>http.ServeContent\<close>
  answers; most texts of errors. \<open>main.tsx\<close> and the build configuration only mount and bundle the page, styles are not
  behaviour, and the Swagger viewer is vendored; imports, tags and class names are what is left of \<open>App.tsx\<close>.
\<close>

end
